(* ===== verification/WlPrelude.thy ===== *)
theory WlPrelude
  imports Main "HOL-Library.Word" "HOL-Library.Multiset"
begin

unbundle bit_operations_syntax

text \<open>
  Shared vocabulary of the development: the widths of the driver's integers, the error
  numbers its functions return, the kernel's bitmap and alignment helpers, byte buffers with
  little-endian fields, and the interface of a bitmap allocator, which the driver uses for Tx
  descriptors, links, roles, rate policies and KLV templates.
\<close>

section \<open>Collections and types\<close>

named_theorems wl_defs \<open>definitions that component proofs unfold together\<close>
named_theorems wl_frame \<open>frame facts: which fields an operation leaves alone\<close>

type_synonym u8 = "8 word"
type_synonym u16 = "16 word"
type_synonym u32 = "32 word"
type_synonym u64 = "64 word"
type_synonym bytes = "8 word list"

text \<open>
  The driver returns negative error numbers. A function that returns an error or a value is
  modelled with \<open>Inl\<close> the error. \<open>EOTHER n\<close> stands for any error number the driver does
  not itself name (the bus and the kernel may return others).
\<close>

datatype errno =
    EPERM | ENOENT | EIO | E2BIG | EAGAIN | ENOMEM | EBUSY | EINVAL | EILSEQ | EBADF
  | EOPNOTSUPP | ETIMEDOUT | ENODEV | EFAULT | EOTHER nat

type_synonym 'a res = "errno + 'a"

section \<open>Alignment\<close>

text \<open>The kernel's \<open>ALIGN(x, a)\<close> for a power of two \<open>a\<close>: round up to a multiple of \<open>a\<close>.\<close>

definition ALIGN :: "nat \<Rightarrow> nat \<Rightarrow> nat" where
  "ALIGN x a = (x + (a - 1)) div a * a"

lemma ALIGN_ge: "0 < a \<Longrightarrow> x \<le> ALIGN x a"
proof -
  assume a: "0 < a"
  have "(x + (a - 1)) div a * a + (x + (a - 1)) mod a = x + (a - 1)"
    by (rule div_mult_mod_eq)
  moreover have "(x + (a - 1)) mod a \<le> a - 1"
    using mod_less_divisor [OF a, of "x + (a - 1)"] by linarith
  ultimately show ?thesis unfolding ALIGN_def by linarith
qed

lemma ALIGN_dvd [simp, intro]: "a dvd ALIGN x a"
  by (simp add: ALIGN_def)

lemma ALIGN_less: "0 < a \<Longrightarrow> ALIGN x a < x + a"
proof -
  assume a: "0 < a"
  have "(x + (a - 1)) div a * a \<le> x + (a - 1)"
    by (rule div_times_less_eq_dividend)
  with a show ?thesis unfolding ALIGN_def by linarith
qed

lemma ALIGN_le_multiple:
  assumes "a dvd b" and "x \<le> b"
  shows "ALIGN x a \<le> b"
proof (cases "a = 0")
  case True
  then show ?thesis by (simp add: ALIGN_def)
next
  case False
  from assms(1) obtain k where b: "b = a * k" by blast
  have "x + (a - 1) < a * (k + 1)" using assms(2) False b by simp
  then have "(x + (a - 1)) div a < k + 1"
    using False by (simp add: less_mult_imp_div_less mult.commute)
  then have "(x + (a - 1)) div a * a \<le> k * a"
    by (intro mult_le_mono1) linarith
  then show ?thesis by (simp only: ALIGN_def b mult.commute)
qed

lemma ALIGN_multiple [simp]: "a dvd x \<Longrightarrow> 0 < a \<Longrightarrow> ALIGN x a = x"
  using ALIGN_ge [of a x] ALIGN_le_multiple [of a x x] by simp

section \<open>Bitmaps\<close>

text \<open>
  The driver's bitmaps (\<open>unsigned long\<close> arrays used with \<open>test_bit\<close>, \<open>__set_bit\<close> and
  \<open>__clear_bit\<close>) are modelled by the set of their set bits. \<open>find_first_zero_bit m n\<close>
  and \<open>find_first_bit m n\<close> return \<open>n\<close> when there is no such bit below \<open>n\<close>, as the
  kernel's do; \<open>for_each_set_bit\<close> visits the set bits below its limit in increasing order.
\<close>

definition find_first_zero_bit :: "nat set \<Rightarrow> nat \<Rightarrow> nat" where
  "find_first_zero_bit m n = (case find (\<lambda>i. i \<notin> m) [0..<n] of Some i \<Rightarrow> i | None \<Rightarrow> n)"

definition find_first_bit :: "nat set \<Rightarrow> nat \<Rightarrow> nat" where
  "find_first_bit m n = (case find (\<lambda>i. i \<in> m) [0..<n] of Some i \<Rightarrow> i | None \<Rightarrow> n)"

definition set_bits_upto :: "nat set \<Rightarrow> nat \<Rightarrow> nat list" where
  "set_bits_upto m n = filter (\<lambda>i. i \<in> m) [0..<n]"

lemma find_upt_least:
  "find P [0..<n] = Some i \<Longrightarrow> i < n \<and> P i \<and> (\<forall>j<i. \<not> P j)"
  by (auto simp: find_Some_iff)

lemma find_first_zero_bit_less:
  assumes "find_first_zero_bit m n < n"
  shows "find_first_zero_bit m n \<notin> m" and "j < find_first_zero_bit m n \<Longrightarrow> j \<in> m"
  using assms
  by (auto simp: find_first_zero_bit_def split: option.splits dest: find_upt_least)

lemma find_first_zero_bit_full:
  "n \<le> find_first_zero_bit m n \<longleftrightarrow> {..<n} \<subseteq> m"
  by (auto simp: find_first_zero_bit_def find_None_iff split: option.splits dest: find_upt_least)

lemma find_first_zero_bit_le: "find_first_zero_bit m n \<le> n"
  by (auto simp: find_first_zero_bit_def split: option.splits dest: find_upt_least)

lemma find_first_bit_empty:
  "find_first_bit m n < n \<longleftrightarrow> m \<inter> {..<n} \<noteq> {}"
  by (auto simp: find_first_bit_def find_None_iff split: option.splits dest: find_upt_least)

lemma set_set_bits_upto [simp]: "set (set_bits_upto m n) = m \<inter> {..<n}"
  by (auto simp: set_bits_upto_def)

lemma distinct_set_bits_upto [simp]: "distinct (set_bits_upto m n)"
  by (simp add: set_bits_upto_def)

section \<open>Byte buffers\<close>

text \<open>
  Device memory, packet buffers and firmware structures are byte lists. \<open>buf_read off n b\<close> is
  the \<open>n\<close> bytes from offset \<open>off\<close>; \<open>buf_write off xs b\<close> is \<open>memcpy(b + off, xs, ...)\<close>.
  A write that runs past the end makes the list longer, so keeping the length is the statement
  that nothing was written outside the buffer.
\<close>

definition buf_read :: "nat \<Rightarrow> nat \<Rightarrow> bytes \<Rightarrow> bytes" where
  "buf_read off n b = take n (drop off b)"

definition buf_write :: "nat \<Rightarrow> bytes \<Rightarrow> bytes \<Rightarrow> bytes" where
  "buf_write off xs b = take off b @ xs @ drop (off + length xs) b"

text \<open>\<open>strncpy(dst, src, n)\<close>: the \<open>n\<close> bytes of the destination.\<close>

definition strncpy :: "bytes \<Rightarrow> nat \<Rightarrow> bytes" where
  "strncpy src n = (let s = takeWhile (\<lambda>b. b \<noteq> 0) (take n src) in s @ replicate (n - length s) 0)"

lemma length_strncpy [simp]: "length (strncpy src n) = n"
proof -
  have "length (takeWhile (\<lambda>b. b \<noteq> 0) (take n src)) \<le> n"
    by (rule order_trans [OF length_takeWhile_le]) simp
  then show ?thesis by (simp add: strncpy_def Let_def)
qed

lemma length_buf_write [simp]:
  "off + length xs \<le> length b \<Longrightarrow> length (buf_write off xs b) = length b"
  by (simp add: buf_write_def)

lemma length_buf_read [simp]:
  "off + n \<le> length b \<Longrightarrow> length (buf_read off n b) = n"
  by (simp add: buf_read_def)

lemma buf_read_write_same:
  "off \<le> length b \<Longrightarrow> n = length xs \<Longrightarrow> buf_read off n (buf_write off xs b) = xs"
  by (simp add: buf_read_def buf_write_def)

lemma buf_read_write_before:
  "off + n \<le> off' \<Longrightarrow> off' \<le> length b \<Longrightarrow>
   buf_read off n (buf_write off' xs b) = buf_read off n b"
  by (simp add: buf_read_def buf_write_def drop_take min_absorb1)

lemma buf_read_write_after:
  assumes "off' + length xs \<le> off" and "off' \<le> length b"
  shows "buf_read off n (buf_write off' xs b) = buf_read off n b"
proof -
  have "drop off (buf_write off' xs b) = drop off b"
    using assms by (simp add: buf_write_def)
  then show ?thesis by (simp add: buf_read_def)
qed

subsection \<open>Little-endian fields\<close>

definition le16 :: "u16 \<Rightarrow> bytes" where
  "le16 v = [ucast v, ucast (drop_bit 8 v)]"

definition le32 :: "u32 \<Rightarrow> bytes" where
  "le32 v = [ucast v, ucast (drop_bit 8 v), ucast (drop_bit 16 v), ucast (drop_bit 24 v)]"

text \<open>Reading a field past the end of a buffer is out of bounds in C; here it reads zeroes.\<close>

definition byte_at :: "nat \<Rightarrow> bytes \<Rightarrow> u8" where
  "byte_at i b = (if i < length b then b ! i else 0)"

definition get_le16 :: "nat \<Rightarrow> bytes \<Rightarrow> u16" where
  "get_le16 i b = ucast (byte_at i b) OR push_bit 8 (ucast (byte_at (i + 1) b))"

definition get_le32 :: "nat \<Rightarrow> bytes \<Rightarrow> u32" where
  "get_le32 i b = ucast (byte_at i b) OR push_bit 8 (ucast (byte_at (i + 1) b))
     OR push_bit 16 (ucast (byte_at (i + 2) b)) OR push_bit 24 (ucast (byte_at (i + 3) b))"

lemma length_le16 [simp]: "length (le16 v) = 2"
  by (simp add: le16_def)

lemma length_le32 [simp]: "length (le32 v) = 4"
  by (simp add: le32_def)

lemma get_le16_le16: "get_le16 0 (le16 v @ r) = v"
  by (rule bit_word_eqI)
    (auto simp: get_le16_def le16_def byte_at_def bit_simps not_less le_less_trans)

lemma get_le32_le32: "get_le32 0 (le32 v @ r) = v"
proof (rule bit_word_eqI)
  fix n
  assume "n < LENGTH(32)"
  then show "bit (get_le32 0 (le32 v @ r)) n = bit v n"
    by (cases "n < 8"; cases "n < 16"; cases "n < 24")
      (auto simp: get_le32_def le32_def byte_at_def bit_simps)
qed

lemma byte_at_append: "byte_at i (xs @ ys) = (if i < length xs then byte_at i xs else byte_at (i - length xs) ys)"
  by (auto simp: byte_at_def nth_append)

lemma get_le16_append_right: "length xs \<le> i \<Longrightarrow> get_le16 i (xs @ ys) = get_le16 (i - length xs) ys"
  by (simp add: get_le16_def byte_at_append Suc_diff_le)

lemma get_le32_append_right: "length xs \<le> i \<Longrightarrow> get_le32 i (xs @ ys) = get_le32 (i - length xs) ys"
  by (simp add: get_le32_def byte_at_append Suc_diff_le)

section \<open>The interface of a bitmap allocator\<close>

text \<open>
  \<open>alloc\<close> takes the lowest free slot below the capacity or fails with \<open>EBUSY\<close>; \<open>release\<close>
  gives a slot back. The laws are what the driver's clients rely on.
\<close>

locale slot_allocator =
  fixes alloc :: "'s \<Rightarrow> errno + nat \<times> 's"
    and release :: "nat \<Rightarrow> 's \<Rightarrow> 's"
    and used :: "'s \<Rightarrow> nat set"
    and cap :: "'s \<Rightarrow> nat"
  assumes alloc_Inr: "alloc s = Inr (i, t) \<Longrightarrow>
      i < cap s \<and> i \<notin> used s \<and> (\<forall>j<i. j \<in> used s) \<and> used t = insert i (used s) \<and> cap t = cap s"
    and alloc_Inl: "alloc s = Inl e \<Longrightarrow> e = EBUSY \<and> {..<cap s} \<subseteq> used s"
    and release_used: "used (release i s) = used s - {i}"
    and release_cap: "cap (release i s) = cap s"
begin

text \<open>Allocation succeeds exactly when a slot is free.\<close>

lemma alloc_succeeds_iff: "(\<exists>i t. alloc s = Inr (i, t)) \<longleftrightarrow> \<not> {..<cap s} \<subseteq> used s"
proof
  assume "\<exists>i t. alloc s = Inr (i, t)"
  then show "\<not> {..<cap s} \<subseteq> used s" using alloc_Inr by blast
next
  assume free: "\<not> {..<cap s} \<subseteq> used s"
  show "\<exists>i t. alloc s = Inr (i, t)"
  proof (cases "alloc s")
    case (Inl e)
    with alloc_Inl free show ?thesis by blast
  next
    case (Inr p)
    then show ?thesis by (cases p) blast
  qed
qed

text \<open>Giving back the slot just taken restores the set of used slots.\<close>

lemma release_alloc: "alloc s = Inr (i, t) \<Longrightarrow> used (release i t) = used s"
  using alloc_Inr [of s i t] by (auto simp: release_used)

text \<open>
  \<open>take_n n s\<close> makes \<open>n\<close> requests in a row and collects the slots granted: they are distinct,
  below the capacity and were all free, and the requests run out exactly with the capacity.
\<close>

primrec take_n :: "nat \<Rightarrow> 's \<Rightarrow> nat list \<times> 's" where
  "take_n 0 s = ([], s)"
| "take_n (Suc n) s =
     (case alloc s of
        Inl e \<Rightarrow> ([], s)
      | Inr (i, t) \<Rightarrow> (let (is, u) = take_n n t in (i # is, u)))"

lemma take_n_distinct:
  "take_n n s = (is, t) \<Longrightarrow>
   distinct is \<and> set is \<inter> used s = {} \<and> set is \<subseteq> {..<cap s} \<and> used t = used s \<union> set is
   \<and> cap t = cap s"
proof (induction n arbitrary: s "is" t)
  case 0
  then show ?case by simp
next
  case (Suc n)
  show ?case
  proof (cases "alloc s")
    case (Inl e)
    with Suc.prems show ?thesis by simp
  next
    case (Inr p)
    then obtain i u where a: "alloc s = Inr (i, u)" by (cases p) auto
    obtain js w where r: "take_n n u = (js, w)" by (cases "take_n n u")
    from Suc.prems a r have "is = i # js" and "t = w" by simp_all
    with alloc_Inr [OF a] Suc.IH [OF r] show ?thesis by auto
  qed
qed

lemma take_n_length:
  assumes "finite (used s)" and "used s \<subseteq> {..<cap s}"
  shows "length (fst (take_n n s)) = min n (cap s - card (used s))"
  using assms
proof (induction n arbitrary: s)
  case 0
  then show ?case by simp
next
  case (Suc n)
  show ?case
  proof (cases "alloc s")
    case (Inl e)
    with alloc_Inl [OF Inl] Suc.prems have "used s = {..<cap s}" by blast
    with Inl show ?thesis by simp
  next
    case (Inr p)
    then obtain i u where a: "alloc s = Inr (i, u)" by (cases p) auto
    note al = alloc_Inr [OF a]
    have fin: "finite (used u)" and sub: "used u \<subseteq> {..<cap u}"
      using al Suc.prems by auto
    have card: "card (used u) = Suc (card (used s))" using al Suc.prems by simp
    have "card (used u) \<le> cap u" using card_mono [OF _ sub] by simp
    with Suc.IH [OF fin sub] a al card show ?thesis
      by (simp add: split_beta)
  qed
qed

end

section \<open>Lists and sums\<close>

text \<open>Two functions that differ at one index only.\<close>

lemma sum_differ_one:
  fixes f g :: "nat \<Rightarrow> 'a::comm_monoid_add"
  assumes "i < n" and "\<And>j. j < n \<Longrightarrow> j \<noteq> i \<Longrightarrow> g j = f j"
  shows "(\<Sum>j<n. g j) + f i = (\<Sum>j<n. f j) + g i"
proof -
  have fin: "finite {..<n}" and mem: "i \<in> {..<n}" using assms(1) by auto
  have "(\<Sum>j\<in>{..<n} - {i}. g j) = (\<Sum>j\<in>{..<n} - {i}. f j)"
    using assms(2) by (intro sum.cong) auto
  then show ?thesis
    by (simp add: sum.remove [OF fin mem] ac_simps)
qed

lemma fold_invariant_list:
  "P s \<Longrightarrow> (\<And>x s. x \<in> set xs \<Longrightarrow> P s \<Longrightarrow> P (f x s)) \<Longrightarrow> P (fold f xs s)"
  by (induction xs arbitrary: s) auto

section \<open>Numbers in words\<close>

lemma unat_of_nat_less: "n < 2 ^ LENGTH('a) \<Longrightarrow> unat (of_nat n :: 'a :: len word) = n"
  by (simp add: unat_of_nat take_bit_nat_eq_self)

lemma bit_of_nat_less: "n < 2 ^ k \<Longrightarrow> k \<le> j \<Longrightarrow> \<not> bit (of_nat n :: 'a :: len word) j"
proof -
  assume "n < 2 ^ k" "k \<le> j"
  then have "n < 2 ^ j" using power_increasing [of k j "2::nat"] by linarith
  then have "\<not> bit n j" by (simp add: bit_iff_odd)
  then show ?thesis by (simp add: bit_simps)
qed

end
