(* ===== verification/WlState.thy ===== *)
theory WlState
  imports WlPrelude
begin

text \<open>
  The state of the driver: packets (\<open>struct sk_buff\<close> with mac80211's per-packet control
  block), links, virtual interfaces and the device structure \<open>struct wl1271\<close>
  (wlcore/wlcore.h, wlcore/wlcore_i.h). Packets and interfaces are shared through pointers in
  the code, so they live in stores (\<open>skbs\<close>, \<open>vifs\<close>) indexed by pointer. Everything the
  driver asks of the bus, of mac80211 and of the kernel is appended to \<open>log\<close>, and the answers
  come from an environment \<open>wl_env\<close> that may depend on the whole log: a theorem for every
  environment is a theorem for every behaviour of the outside world.
\<close>

section \<open>Enumerations\<close>

datatype wlcore_state = WLCORE_STATE_OFF | WLCORE_STATE_RESTARTING | WLCORE_STATE_ON

datatype wl12xx_flags =
    WL1271_FLAG_GPIO_POWER | WL1271_FLAG_TX_QUEUE_STOPPED | WL1271_FLAG_TX_PENDING
  | WL1271_FLAG_IN_ELP | WL1271_FLAG_ELP_REQUESTED | WL1271_FLAG_WAKE_LOCK
  | WL1271_FLAG_IRQ_RUNNING | WL1271_FLAG_FW_TX_BUSY | WL1271_FLAG_DUMMY_PACKET_PENDING
  | WL1271_FLAG_SUSPENDED | WL1271_FLAG_PENDING_WORK | WL1271_FLAG_SOFT_GEMINI
  | WL1271_FLAG_RECOVERY_IN_PROGRESS | WL1271_FLAG_VIF_CHANGE_IN_PROGRESS
  | WL1271_FLAG_INTENDED_FW_RECOVERY | WL1271_FLAG_IO_FAILED

datatype wl12xx_vif_flags =
    WLVIF_FLAG_INITIALIZED | WLVIF_FLAG_STA_ASSOCIATED | WLVIF_FLAG_STA_AUTHORIZED
  | WLVIF_FLAG_IBSS_JOINED | WLVIF_FLAG_AP_STARTED | WLVIF_FLAG_IN_PS
  | WLVIF_FLAG_STA_STATE_SENT | WLVIF_FLAG_RX_STREAMING_STARTED
  | WLVIF_FLAG_PSPOLL_FAILURE | WLVIF_FLAG_CS_PROGRESS | WLVIF_FLAG_AP_PROBE_RESP_SET
  | WLVIF_FLAG_IN_USE

datatype bss_type = BSS_TYPE_IBSS | BSS_TYPE_STA_BSS | BSS_TYPE_AP_BSS | MAX_BSS_TYPE

datatype ieee80211_band = IEEE80211_BAND_2GHZ | IEEE80211_BAND_5GHZ | IEEE80211_BAND_60GHZ

datatype nl80211_channel_type =
  NL80211_CHAN_NO_HT | NL80211_CHAN_HT20 | NL80211_CHAN_HT40MINUS | NL80211_CHAN_HT40PLUS

datatype wlcore_queue_stop_reason =
    WLCORE_QUEUE_STOP_REASON_WATERMARK | WLCORE_QUEUE_STOP_REASON_FW_RESTART
  | WLCORE_QUEUE_STOP_REASON_FLUSH | WLCORE_QUEUE_STOP_REASON_SPARE_BLK

datatype wlcore_quirk =
    WLCORE_QUIRK_END_OF_TRANSACTION | WLCORE_QUIRK_TX_BLOCKSIZE_ALIGN
  | WLCORE_QUIRK_RX_BLOCKSIZE_ALIGN | WLCORE_QUIRK_FWLOG_NOT_IMPLEMENTED
  | WLCORE_QUIRK_LEGACY_NVS | WLCORE_QUIRK_TX_PAD_LAST_FRAME
  | WLCORE_QUIRK_TKIP_HEADER_SPACE | WLCORE_QUIRK_NO_SCHED_SCAN_WHILE_CONN
  | WLCORE_QUIRK_DUAL_PROBE_TMPL

datatype scan_state =
    WL1271_SCAN_STATE_IDLE | WL1271_SCAN_STATE_2GHZ_ACTIVE | WL1271_SCAN_STATE_2GHZ_PASSIVE
  | WL1271_SCAN_STATE_5GHZ_ACTIVE | WL1271_SCAN_STATE_5GHZ_PASSIVE | WL1271_SCAN_STATE_DONE

datatype rssi_event =
    NL80211_CQM_RSSI_THRESHOLD_EVENT_LOW | NL80211_CQM_RSSI_THRESHOLD_EVENT_HIGH
  | NL80211_CQM_RSSI_BEACON_LOSS_EVENT

datatype wlcore_registers =
    REG_ECPU_CONTROL | REG_INTERRUPT_NO_CLEAR | REG_INTERRUPT_ACK | REG_COMMAND_MAILBOX_PTR
  | REG_EVENT_MAILBOX_PTR | REG_INTERRUPT_TRIG | REG_INTERRUPT_MASK | REG_PC_ON_RECOVERY
  | REG_CHIP_ID_B | REG_CMD_MBOX_ADDRESS | REG_SLV_MEM_DATA | REG_SLV_REG_DATA
  | REG_RAW_FW_STATUS_ADDR

datatype wl12xx_fw_type =
  WL12XX_FW_TYPE_NONE | WL12XX_FW_TYPE_NORMAL | WL12XX_FW_TYPE_MULTI | WL12XX_FW_TYPE_PLT

datatype wlcore_partitions =
  PART_DOWN | PART_WORK | PART_BOOT | PART_DRPW | PART_TOP_PRCM_ELP_SOC | PART_PHY_INIT

section \<open>Constants\<close>

abbreviation (input) WL12XX_MAX_ROLES :: nat where "WL12XX_MAX_ROLES \<equiv> 4"
abbreviation (input) WL12XX_MAX_LINKS :: nat where "WL12XX_MAX_LINKS \<equiv> 12"
abbreviation (input) WL12XX_INVALID_ROLE_ID :: nat where "WL12XX_INVALID_ROLE_ID \<equiv> 255"
abbreviation (input) WL12XX_INVALID_LINK_ID :: nat where "WL12XX_INVALID_LINK_ID \<equiv> 255"
abbreviation (input) WL12XX_MAX_RATE_POLICIES :: nat where "WL12XX_MAX_RATE_POLICIES \<equiv> 16"
abbreviation (input) WLCORE_MAX_KLV_TEMPLATES :: nat where "WLCORE_MAX_KLV_TEMPLATES \<equiv> 4"
abbreviation (input) WL12XX_SYSTEM_HLID :: nat where "WL12XX_SYSTEM_HLID \<equiv> 0"
abbreviation (input) WL1271_PS_STA_MAX_PACKETS :: nat where "WL1271_PS_STA_MAX_PACKETS \<equiv> 2"
abbreviation (input) NUM_TX_QUEUES :: nat where "NUM_TX_QUEUES \<equiv> 4"
abbreviation (input) WL1271_TX_QUEUE_LOW_WATERMARK :: int where "WL1271_TX_QUEUE_LOW_WATERMARK \<equiv> 32"
abbreviation (input) WL1271_TX_QUEUE_HIGH_WATERMARK :: int where "WL1271_TX_QUEUE_HIGH_WATERMARK \<equiv> 256"
abbreviation (input) WL1271_DEFERRED_QUEUE_LIMIT :: nat where "WL1271_DEFERRED_QUEUE_LIMIT \<equiv> 64"
abbreviation (input) SESSION_COUNTER_MAX :: nat where "SESSION_COUNTER_MAX \<equiv> 6"
abbreviation (input) SESSION_COUNTER_INVALID :: nat where "SESSION_COUNTER_INVALID \<equiv> 7"
abbreviation (input) WL1271_TX_SQN_POST_RECOVERY_PADDING :: u64
  where "WL1271_TX_SQN_POST_RECOVERY_PADDING \<equiv> 255"
abbreviation (input) WLAN_CIPHER_SUITE_WEP40 :: u32 where "WLAN_CIPHER_SUITE_WEP40 \<equiv> 0x000FAC01"
abbreviation (input) WLAN_CIPHER_SUITE_TKIP :: u32 where "WLAN_CIPHER_SUITE_TKIP \<equiv> 0x000FAC02"
abbreviation (input) WLAN_CIPHER_SUITE_CCMP :: u32 where "WLAN_CIPHER_SUITE_CCMP \<equiv> 0x000FAC04"
abbreviation (input) WLAN_CIPHER_SUITE_WEP104 :: u32 where "WLAN_CIPHER_SUITE_WEP104 \<equiv> 0x000FAC05"
abbreviation (input) WL1271_CIPHER_SUITE_GEM :: u32 where "WL1271_CIPHER_SUITE_GEM \<equiv> 0x00147201"
abbreviation (input) CHIP_ID_1283_PG20 :: u32 where "CHIP_ID_1283_PG20 \<equiv> 0x05030111"

text \<open>The components of a firmware version (\<open>enum wl12xx_fw_ver\<close>, by index).\<close>

abbreviation (input) FW_VER_CHIP :: nat where "FW_VER_CHIP \<equiv> 0"
abbreviation (input) FW_VER_IF_TYPE :: nat where "FW_VER_IF_TYPE \<equiv> 1"
abbreviation (input) FW_VER_MAJOR :: nat where "FW_VER_MAJOR \<equiv> 2"
abbreviation (input) FW_VER_SUBTYPE :: nat where "FW_VER_SUBTYPE \<equiv> 3"
abbreviation (input) FW_VER_MINOR :: nat where "FW_VER_MINOR \<equiv> 4"

section \<open>Packets\<close>

type_synonym skb_ptr = nat
type_synonym vif_ptr = nat

datatype ip_summed_t =
  CHECKSUM_NONE | CHECKSUM_UNNECESSARY | CHECKSUM_COMPLETE | CHECKSUM_PARTIAL

text \<open>
  The transmit flags of mac80211 that the driver reads or writes; the other bits of the word
  are carried along as \<open>TX_flag_other\<close>.
\<close>

datatype tx_info_flag =
    IEEE80211_TX_CTL_NO_ACK | IEEE80211_TX_STAT_TX_FILTERED | IEEE80211_TX_STAT_ACK
  | IEEE80211_TX_CTL_TX_OFFCHAN | IEEE80211_TX_CTL_NO_CCK_RATE | TX_flag_other nat

record ieee80211_key_conf =
  cipher :: u32
  hw_key_idx :: u8

text \<open>The rest of a key, as mac80211 gives it to the driver.\<close>

record key_conf = ieee80211_key_conf +
  keyidx :: u8
  put_iv_space :: bool          \<comment> \<open>\<open>IEEE80211_KEY_FLAG_PUT_IV_SPACE\<close> in \<open>flags\<close>\<close>
  keylen :: nat
  key_data :: bytes

record ieee80211_tx_info =
  ti_flags :: "tx_info_flag set"
  ti_vif :: "vif_ptr option"
  ti_hw_key :: "ieee80211_key_conf option"
  ti_sta :: "nat option"        \<comment> \<open>the station's link id, \<open>wl1271_station.hlid\<close>\<close>
  st_rate_idx :: int
  st_rate_count :: u8
  st_rate_flags :: u8
  st_ack_signal :: int

datatype rx_flag =
    RX_FLAG_MMIC_ERROR | RX_FLAG_DECRYPTED | RX_FLAG_MMIC_STRIPPED | RX_FLAG_IV_STRIPPED
  | RX_FLAG_HT

record ieee80211_rx_status =
  rs_band :: ieee80211_band
  rs_rate_idx :: u8
  rs_flag :: "rx_flag set"
  rs_signal :: int
  rs_freq :: nat

text \<open>
  A packet buffer: \<open>skb_head\<close> is the allocated area, \<open>skb_data\<close> the offset of the first byte
  of the packet in it and \<open>skb_len\<close> the packet's length; \<open>skb_push\<close> and \<open>skb_pull\<close> move the
  start without touching the bytes.
\<close>

record sk_buff =
  skb_head :: bytes
  skb_data :: nat
  skb_len :: nat
  skb_priority :: u32
  skb_queue_mapping :: nat
  skb_protocol :: u16
  skb_network_header :: nat
  skb_mac_header :: nat
  skb_ip_summed :: ip_summed_t
  skb_info :: ieee80211_tx_info
  skb_rx_status :: ieee80211_rx_status

section \<open>Links and virtual interfaces\<close>

record wl1271_link =
  tx_queue :: "nat \<Rightarrow> skb_ptr list"
  allocated_pkts :: u8
  prev_freed_pkts :: u8
  lnk_addr :: bytes
  lnk_ba_bitmap :: u8

text \<open>A key given before the access point was started.\<close>

record wl1271_ap_key =
  ak_id :: u8
  ak_key_type :: u8
  ak_key_size :: nat
  ak_key :: bytes
  ak_hlid :: nat
  ak_tx_seq_32 :: u32
  ak_tx_seq_16 :: u16

text \<open>
  \<open>struct wl12xx_vif\<close>. The station and access-point members are a union in C, selected by
  \<open>bss_type\<close>; here they are separate fields.
\<close>

record wl12xx_vif =
  vif_flags :: "wl12xx_vif_flags set"
  vif_bss_type :: bss_type
  vif_p2p :: bool
  role_id :: nat
  dev_role_id :: nat
  dev_hlid :: nat
  sta_hlid :: nat
  sta_ba_rx_bitmap :: u8
  sta_basic_rate_idx :: nat
  sta_ap_rate_idx :: nat
  sta_p2p_rate_idx :: nat
  ap_global_hlid :: nat
  ap_bcast_hlid :: nat
  ap_sta_hlid_map :: "nat set"
  ap_mgmt_rate_idx :: nat
  ap_bcast_rate_idx :: nat
  ap_ucast_rate_idx :: "nat \<Rightarrow> nat"
  last_tx_hlid :: nat
  vif_links_map :: "nat set"
  vif_band :: ieee80211_band
  vif_channel_type :: nl80211_channel_type
  basic_rate :: u32
  rate_set :: u32
  default_key :: u32
  session_counter :: nat
  rssi_thold :: int
  last_rssi_event :: "rssi_event option"     \<comment> \<open>\<open>None\<close> for -1\<close>
  ba_allowed :: bool
  bssid :: bytes
  tx_security_seq :: u64
  tx_security_last_seq_lsb :: u8
  sta_klv_template_id :: nat
  basic_rate_set :: u32
  bitrate_masks :: "ieee80211_band \<Rightarrow> u32"
  vif_channel :: nat
  vif_power_level :: int
  beacon_int :: nat
  vif_ssid :: bytes
  vif_wmm_enabled :: bool
  ps_poll_failures :: nat
  sta_role_chan_type :: nl80211_channel_type
  probereq :: "bytes option"
  recorded_keys :: "nat \<Rightarrow> wl1271_ap_key option"
  encryption_type :: u8
  sta_qos :: bool
  ip_addr :: bytes              \<comment> \<open>in network order\<close>
  dummy_p2p :: bool

section \<open>Calls out of the driver\<close>

datatype wl_work =
    TX_WORK | NETSTACK_WORK | RECOVERY_WORK | ELP_WORK | TX_WATCHDOG_WORK
  | CONNECTION_LOSS_WORK | SCAN_COMPLETE_WORK | RX_STREAMING_ENABLE_WORK vif_ptr
  | RX_STREAMING_DISABLE_WORK vif_ptr

text \<open>
  \<open>C_oops\<close> is a dereference of a null pointer or a read outside of a buffer; \<open>C_warn\<close> a kernel warning. \<open>C_gettime\<close>,
  \<open>C_alloc\<close> and \<open>C_delay\<close> are logged so that later answers may differ from earlier ones.
\<close>

datatype wl_call =
    C_write nat bytes bool | C_read nat nat bool
  | C_alloc nat | C_gettime | C_delay
  | C_queue_work wl_work | C_queue_delayed_work wl_work nat | C_cancel_work wl_work
  | C_mod_timer vif_ptr nat | C_del_timer vif_ptr
  | C_stop_queue nat | C_wake_queue nat
  | C_tx_status skb_ptr | C_free_txskb skb_ptr | C_rx skb_ptr
  | C_sta_ps_transition vif_ptr bytes bool
  | C_irq_disable | C_irq_enable | C_power bool
  | C_cqm_rssi_notify vif_ptr rssi_event | C_stop_rx_ba_session vif_ptr u8 bytes
  | C_sched_scan_stopped | C_scan_completed bool | C_chswitch_done vif_ptr bool
  | C_ready_on_channel | C_roc_expired | C_report_low_ack vif_ptr bytes nat
  | C_restart_hw | C_wake_fwlog | C_complete_elp
  | C_warn | C_oops

text \<open>Calls that neither move packets nor stop or wake a queue.\<close>

fun quiet_call :: "wl_call \<Rightarrow> bool" where
  "quiet_call (C_stop_queue q) = False"
| "quiet_call (C_wake_queue q) = False"
| "quiet_call (C_tx_status p) = False"
| "quiet_call (C_free_txskb p) = False"
| "quiet_call (C_rx p) = False"
| "quiet_call c = True"

record wl_env =
  e_write :: "wl_call list \<Rightarrow> errno option"
  e_read :: "wl_call list \<Rightarrow> errno + bytes"
  e_alloc :: "wl_call list \<Rightarrow> bool"
  e_time_ns :: "wl_call list \<Rightarrow> int"
  e_delay_ms :: "wl_call list \<Rightarrow> nat"
  e_find_sta :: "wl_call list \<Rightarrow> vif_ptr \<Rightarrow> bytes \<Rightarrow> bool"
  e_elp_completed :: "wl_call list \<Rightarrow> bool"
  e_power :: "wl_call list \<Rightarrow> bool"
  e_skb :: "wl_call list \<Rightarrow> skb_ptr"      \<comment> \<open>the address of a new packet buffer\<close>

section \<open>The device\<close>

record wlcore_partition =
  part_size :: nat
  part_start :: nat

record wlcore_partition_set =
  part_mem :: wlcore_partition
  part_reg :: wlcore_partition
  part_mem2 :: wlcore_partition
  part_mem3 :: wlcore_partition

record wlcore_aggr_reason =
  ar_buffer_full :: u32
  ar_fw_buffer_full :: u32
  ar_other :: u32
  ar_no_data :: u32

record conf_scan_settings =
  sc_min_dwell_time_active :: nat
  sc_max_dwell_time_active :: nat
  sc_dwell_time_passive :: nat
  sc_dwell_time_dfs :: nat
  sc_num_probe_reqs :: nat

record conf_sched_scan_settings =
  ss_base_dwell_time :: nat
  ss_max_dwell_time_delta :: nat
  ss_dwell_time_delta_per_probe :: nat
  ss_dwell_time_delta_per_probe_5 :: nat
  ss_dwell_time_passive :: nat
  ss_dwell_time_dfs :: nat
  ss_num_probe_reqs :: nat
  ss_rssi_threshold :: u8
  ss_snr_threshold :: u8

text \<open>The members of \<open>struct wlcore_conf\<close> the modelled code reads.\<close>

record wlcore_conf =
  cf_rx_streaming_interval :: nat
  cf_rx_streaming_always :: bool
  cf_rx_streaming_duration :: nat
  cf_rx_streaming_queues :: u8
  cf_tx_watchdog_timeout :: nat
  cf_max_tx_retries :: nat
  cf_dynamic_ps_timeout :: u16
  cf_wake_up_event :: u8
  cf_listen_interval :: u8
  cf_synch_fail_thold :: nat
  cf_bss_lose_timeout :: nat
  cf_bet_enable :: bool
  cf_bet_max_consecutive :: u8
  cf_no_recovery :: bool
  cf_bug_on_recovery :: bool
  cf_ap_aging_period :: nat
  cf_basic_rate :: u32
  cf_basic_rate_5 :: u32
  cf_sta_sleep_auth :: nat
  cf_fwlog_mode :: nat
  cf_fwlog_mem_blocks :: nat
  cf_fwlog_output :: nat
  cf_tmpl_short_retry_limit :: u8
  cf_tmpl_long_retry_limit :: u8
  cf_scan :: conf_scan_settings
  cf_sched_scan :: conf_sched_scan_settings

text \<open>
  The private data of the wl18xx driver (wl18xx/wl18xx.h), with its module parameter
  \<open>checksum_param\<close> and the antenna count of its configuration.
\<close>

record wl18xx_priv =
  last_fw_rls_idx :: nat
  extra_spare_vif_count :: int
  checksum_param :: bool
  number_of_assembled_ant2_4 :: nat

text \<open>
  Members of \<open>struct wl1271\<close>, its \<open>chip\<close> and the private data that only identification and
  booting use.
\<close>

record wl1271_boot =
  ptable :: "wlcore_partitions \<Rightarrow> wlcore_partition_set"
  fw_ver :: "nat list"
  min_fw_ver :: "nat list"
  fw_ver_str :: bytes
  phy_fw_ver_str :: bytes
  fw_image :: bytes             \<comment> \<open>\<open>wl->fw\<close>\<close>
  nvs :: "bytes option"
  mac_address :: bytes          \<comment> \<open>\<open>addresses[0]\<close>\<close>
  enable_11a :: bool
  static_data_priv_len :: nat
  sr_fw_name :: string
  mr_fw_name :: string
  plt_fw_name :: string
  hw_pg_ver :: u8
  ref_clock :: nat
  tcxo_clock :: nat
  fuse_oui_addr :: u32
  fuse_nic_addr :: u32
  phy_params :: bytes           \<comment> \<open>\<open>priv->conf.phy\<close>\<close>

record wl1271 =
  wl_state :: wlcore_state
  wl_fw_type :: wl12xx_fw_type
  last_vif_count :: nat
  plt :: bool
  wl_flags :: "wl12xx_flags set"
  curr_part :: wlcore_partition_set
  chip_id :: u32
  cmd_box_addr :: nat
  system_hlid :: nat
  links_map :: "nat set"
  roles_map :: "nat set"
  roc_map :: "nat set"
  rate_policies_map :: "nat set"
  klv_templates_map :: "nat set"
  wlvif_list :: "vif_ptr list"
  tx_blocks_freed :: u32
  tx_blocks_available :: u32
  tx_allocated_blocks :: u32
  tx_results_count :: u32
  tx_pkts_freed :: "nat \<Rightarrow> u32"
  tx_allocated_pkts :: "nat \<Rightarrow> u32"
  tx_packets_count :: u32
  time_offset :: int
  tx_queue_count :: "nat \<Rightarrow> int"
  queue_stop_reasons :: "nat \<Rightarrow> wlcore_queue_stop_reason set"
  deferred_rx_queue :: "skb_ptr list"
  deferred_tx_queue :: "skb_ptr list"
  tx_frames_map :: "nat set"
  tx_frames :: "nat \<Rightarrow> skb_ptr option"
  tx_frames_cnt :: int
  rx_counter :: u32
  aggr_buf :: bytes
  aggr_buf_size :: nat
  dummy_packet :: skb_ptr
  fwlog :: bytes
  watchdog_recovery :: bool
  event_mask :: u32
  mbox_ptr :: "nat \<Rightarrow> nat"
  wl_scan_state :: scan_state
  scan_failed :: bool
  scan_ssid :: bytes
  scan_vif :: "vif_ptr option"
  roc_vif :: "vif_ptr option"
  ap_count :: u8
  sta_count :: u8
  sched_vif :: "vif_ptr option"
  elp_compl :: bool
  stats_retry_count :: u32
  stats_excessive_retries :: u32
  conf :: wlcore_conf
  noise :: u8
  links :: "nat \<Rightarrow> wl1271_link"
  ap_fw_ps_map :: u32
  ap_ps_map :: "nat set"
  wl_quirks :: "wlcore_quirk set"
  edge_irq_quirk :: bool
  ba_rx_session_count :: int
  active_sta_count :: int
  last_wlvif :: "vif_ptr option"
  num_tx_desc :: nat
  num_rx_desc :: nat
  band_rate_to_idx :: "ieee80211_band \<Rightarrow> nat \<Rightarrow> u8"
  hw_tx_rate_tbl_size :: nat
  hw_min_ht_rate :: u8
  rx_filter_enabled :: "nat \<Rightarrow> bool"
  sleep_auth :: nat
  aggr_pkts_reason :: "nat \<Rightarrow> wlcore_aggr_reason"
  aggr_pkts_reason_num :: nat
  rtable :: "wlcore_registers \<Rightarrow> nat"
  priv18 :: wl18xx_priv
  wl_band :: ieee80211_band
  wl_channel :: nat
  wl_channel_type :: nl80211_channel_type
  wl_power_level :: int
  fwlog_size :: nat
  recovery_count :: nat
  mac80211_registered :: bool
  fw_status_buf :: bytes
  fw_status_priv_len :: nat
  mem_map_tx_result :: nat      \<comment> \<open>\<open>target_mem_map->tx_result\<close>\<close>
  mem_map_pool_start :: nat     \<comment> \<open>\<open>target_mem_map->packet_memory_pool_start\<close>\<close>
  boot :: wl1271_boot
  skbs :: "skb_ptr \<Rightarrow> sk_buff"
  vifs :: "vif_ptr \<Rightarrow> wl12xx_vif"
  log :: "wl_call list"

definition emit :: "wl_call \<Rightarrow> wl1271 \<Rightarrow> wl1271" where
  "emit c wl = wl\<lparr>log := log wl @ [c]\<rparr>"

definition upd_skb :: "skb_ptr \<Rightarrow> (sk_buff \<Rightarrow> sk_buff) \<Rightarrow> wl1271 \<Rightarrow> wl1271" where
  "upd_skb p f wl = wl\<lparr>skbs := (skbs wl)(p := f (skbs wl p))\<rparr>"

definition upd_vif :: "vif_ptr \<Rightarrow> (wl12xx_vif \<Rightarrow> wl12xx_vif) \<Rightarrow> wl1271 \<Rightarrow> wl1271" where
  "upd_vif v f wl = wl\<lparr>vifs := (vifs wl)(v := f (vifs wl v))\<rparr>"

definition upd_link :: "nat \<Rightarrow> (wl1271_link \<Rightarrow> wl1271_link) \<Rightarrow> wl1271 \<Rightarrow> wl1271" where
  "upd_link h f wl = wl\<lparr>links := (links wl)(h := f (links wl h))\<rparr>"

definition set_flag :: "wl12xx_flags \<Rightarrow> wl1271 \<Rightarrow> wl1271" where
  "set_flag f wl = wl\<lparr>wl_flags := insert f (wl_flags wl)\<rparr>"

definition clear_flag :: "wl12xx_flags \<Rightarrow> wl1271 \<Rightarrow> wl1271" where
  "clear_flag f wl = wl\<lparr>wl_flags := wl_flags wl - {f}\<rparr>"

lemmas wl_upd_defs = emit_def upd_skb_def upd_vif_def upd_link_def set_flag_def clear_flag_def

text \<open>
  mac80211 hands packets over with \<open>vif\<close> pointers; interfaces of one type are visited in list
  order (\<open>wl12xx_for_each_wlvif_sta\<close>, \<open>wl12xx_for_each_wlvif_ap\<close>).
\<close>

definition wlvifs_of_type :: "bss_type \<Rightarrow> wl1271 \<Rightarrow> vif_ptr list" where
  "wlvifs_of_type t wl = filter (\<lambda>v. vif_bss_type (vifs wl v) = t) (wlvif_list wl)"

section \<open>Zeroed structures\<close>

text \<open>
  What \<open>memset\<close> and \<open>kzalloc\<close> leave behind (\<open>wlcore_alloc_hw\<close>,
  \<open>wl12xx_init_vif_data\<close>): the starting points of initialisation. In the stores, an entry that
  holds no packet or interface yet is zeroed too.
\<close>

definition info_zeroed :: ieee80211_tx_info where
  "info_zeroed =
     \<lparr>ti_flags = {}, ti_vif = None, ti_hw_key = None, ti_sta = None, st_rate_idx = 0,
      st_rate_count = 0, st_rate_flags = 0, st_ack_signal = 0\<rparr>"

definition skb_zeroed :: sk_buff where
  "skb_zeroed =
     \<lparr>skb_head = [], skb_data = 0, skb_len = 0, skb_priority = 0, skb_queue_mapping = 0,
      skb_protocol = 0, skb_network_header = 0, skb_mac_header = 0,
      skb_ip_summed = CHECKSUM_NONE, skb_info = info_zeroed,
      skb_rx_status = \<lparr>rs_band = IEEE80211_BAND_2GHZ, rs_rate_idx = 0, rs_flag = {},
                       rs_signal = 0, rs_freq = 0\<rparr>\<rparr>"

definition link_zeroed :: wl1271_link where
  "link_zeroed =
     \<lparr>tx_queue = (\<lambda>_. []), allocated_pkts = 0, prev_freed_pkts = 0, lnk_addr = replicate 6 0,
      lnk_ba_bitmap = 0\<rparr>"

definition vif_zeroed :: wl12xx_vif where
  "vif_zeroed =
     \<lparr>vif_flags = {}, vif_bss_type = BSS_TYPE_IBSS, vif_p2p = False, role_id = 0,
      dev_role_id = 0, dev_hlid = 0, sta_hlid = 0, sta_ba_rx_bitmap = 0, sta_basic_rate_idx = 0,
      sta_ap_rate_idx = 0, sta_p2p_rate_idx = 0, ap_global_hlid = 0, ap_bcast_hlid = 0,
      ap_sta_hlid_map = {}, ap_mgmt_rate_idx = 0, ap_bcast_rate_idx = 0,
      ap_ucast_rate_idx = (\<lambda>_. 0), last_tx_hlid = 0, vif_links_map = {},
      vif_band = IEEE80211_BAND_2GHZ, vif_channel_type = NL80211_CHAN_NO_HT, basic_rate = 0,
      rate_set = 0, default_key = 0, session_counter = 0, rssi_thold = 0,
      last_rssi_event = Some NL80211_CQM_RSSI_THRESHOLD_EVENT_LOW,
      ba_allowed = False, bssid = replicate 6 0, tx_security_seq = 0,
      tx_security_last_seq_lsb = 0, sta_klv_template_id = 0, basic_rate_set = 0,
      bitrate_masks = (\<lambda>_. 0), vif_channel = 0, vif_power_level = 0, beacon_int = 0,
      vif_ssid = [], vif_wmm_enabled = False, ps_poll_failures = 0,
      sta_role_chan_type = NL80211_CHAN_NO_HT, probereq = None, recorded_keys = (\<lambda>_. None),
      encryption_type = 0, sta_qos = False, ip_addr = replicate 4 0, dummy_p2p = False\<rparr>"

definition conf_zeroed :: wlcore_conf where
  "conf_zeroed =
     \<lparr>cf_rx_streaming_interval = 0, cf_rx_streaming_always = False, cf_rx_streaming_duration = 0,
      cf_rx_streaming_queues = 0, cf_tx_watchdog_timeout = 0, cf_max_tx_retries = 0,
      cf_dynamic_ps_timeout = 0, cf_wake_up_event = 0, cf_listen_interval = 0,
      cf_synch_fail_thold = 0, cf_bss_lose_timeout = 0, cf_bet_enable = False,
      cf_bet_max_consecutive = 0, cf_no_recovery = False, cf_bug_on_recovery = False,
      cf_ap_aging_period = 0, cf_basic_rate = 0, cf_basic_rate_5 = 0,
      cf_sta_sleep_auth = 0, cf_fwlog_mode = 0, cf_fwlog_mem_blocks = 0, cf_fwlog_output = 0,
      cf_tmpl_short_retry_limit = 0, cf_tmpl_long_retry_limit = 0,
      cf_scan = \<lparr>sc_min_dwell_time_active = 0, sc_max_dwell_time_active = 0,
        sc_dwell_time_passive = 0, sc_dwell_time_dfs = 0, sc_num_probe_reqs = 0\<rparr>,
      cf_sched_scan = \<lparr>ss_base_dwell_time = 0, ss_max_dwell_time_delta = 0,
        ss_dwell_time_delta_per_probe = 0, ss_dwell_time_delta_per_probe_5 = 0,
        ss_dwell_time_passive = 0, ss_dwell_time_dfs = 0, ss_num_probe_reqs = 0,
        ss_rssi_threshold = 0, ss_snr_threshold = 0\<rparr>\<rparr>"

definition part_zeroed :: wlcore_partition_set where
  "part_zeroed =
     (let z = \<lparr>part_size = 0, part_start = 0\<rparr>
      in \<lparr>part_mem = z, part_reg = z, part_mem2 = z, part_mem3 = z\<rparr>)"

definition boot_zeroed :: wl1271_boot where
  "boot_zeroed =
     \<lparr>ptable = (\<lambda>_. part_zeroed), fw_ver = replicate 5 0, min_fw_ver = replicate 5 0,
      fw_ver_str = replicate 32 0, phy_fw_ver_str = replicate 32 0, fw_image = [], nvs = None,
      mac_address = replicate 6 0, enable_11a = False, static_data_priv_len = 0, sr_fw_name = [],
      mr_fw_name = [], plt_fw_name = [], hw_pg_ver = 0, ref_clock = 0, tcxo_clock = 0,
      fuse_oui_addr = 0, fuse_nic_addr = 0, phy_params = []\<rparr>"

definition wl_zeroed :: wl1271 where
  "wl_zeroed =
     \<lparr>wl_state = WLCORE_STATE_OFF, wl_fw_type = WL12XX_FW_TYPE_NONE, last_vif_count = 0, plt = False, wl_flags = {}, curr_part = part_zeroed,
      chip_id = 0, cmd_box_addr = 0, system_hlid = 0, links_map = {}, roles_map = {},
      roc_map = {}, rate_policies_map = {}, klv_templates_map = {}, wlvif_list = [],
      tx_blocks_freed = 0, tx_blocks_available = 0, tx_allocated_blocks = 0,
      tx_results_count = 0, tx_pkts_freed = (\<lambda>_. 0), tx_allocated_pkts = (\<lambda>_. 0),
      tx_packets_count = 0, time_offset = 0, tx_queue_count = (\<lambda>_. 0),
      queue_stop_reasons = (\<lambda>_. {}), deferred_rx_queue = [], deferred_tx_queue = [],
      tx_frames_map = {}, tx_frames = (\<lambda>_. None), tx_frames_cnt = 0, rx_counter = 0,
      aggr_buf = [], aggr_buf_size = 0, dummy_packet = 0, fwlog = [], watchdog_recovery = False,
      event_mask = 0, mbox_ptr = (\<lambda>_. 0), wl_scan_state = WL1271_SCAN_STATE_IDLE,
      scan_failed = False, scan_ssid = [], scan_vif = None, roc_vif = None, ap_count = 0, sta_count = 0,
      sched_vif = None, elp_compl = False, stats_retry_count = 0, stats_excessive_retries = 0,
      conf = conf_zeroed, noise = 0, links = (\<lambda>_. link_zeroed), ap_fw_ps_map = 0, ap_ps_map = {},
      wl_quirks = {}, edge_irq_quirk = False, ba_rx_session_count = 0, active_sta_count = 0,
      last_wlvif = None, num_tx_desc = 0, num_rx_desc = 0, band_rate_to_idx = (\<lambda>_ _. 0),
      hw_tx_rate_tbl_size = 0, hw_min_ht_rate = 0, rx_filter_enabled = (\<lambda>_. False),
      sleep_auth = 0,
      aggr_pkts_reason =
        (\<lambda>_. \<lparr>ar_buffer_full = 0, ar_fw_buffer_full = 0, ar_other = 0, ar_no_data = 0\<rparr>),
      aggr_pkts_reason_num = 0, rtable = (\<lambda>_. 0),
      priv18 = \<lparr>last_fw_rls_idx = 0, extra_spare_vif_count = 0, checksum_param = False,
                number_of_assembled_ant2_4 = 0\<rparr>,
      wl_band = IEEE80211_BAND_2GHZ, wl_channel = 0, wl_channel_type = NL80211_CHAN_NO_HT,
      wl_power_level = 0, fwlog_size = 0, recovery_count = 0, mac80211_registered = False,
      fw_status_buf = [], fw_status_priv_len = 0, mem_map_tx_result = 0, mem_map_pool_start = 0,
      boot = boot_zeroed, skbs = (\<lambda>_. skb_zeroed),
      vifs = (\<lambda>_. vif_zeroed), log = []\<rparr>"

text \<open>A bus on which every transfer succeeds and reads return zeroes, with time standing still.\<close>

definition quiet_env :: wl_env where
  "quiet_env =
     \<lparr>e_write = (\<lambda>_. None), e_read = (\<lambda>_. Inr []), e_alloc = (\<lambda>_. True), e_time_ns = (\<lambda>_. 0),
      e_delay_ms = (\<lambda>_. 0), e_find_sta = (\<lambda>_ _ _. True), e_elp_completed = (\<lambda>_. True),
      e_power = (\<lambda>_. True), e_skb = (\<lambda>l. 1000 + length l)\<rparr>"

text \<open>
  A device in operation with one station interface (number 1, on link 1) and room for packets, the
  subject of the examples that accompany the properties.
\<close>

definition demo_vif :: wl12xx_vif where
  "demo_vif = vif_zeroed\<lparr>vif_bss_type := BSS_TYPE_STA_BSS, sta_hlid := 1, vif_links_map := {1},
     dev_hlid := 255\<rparr>"

definition demo_wl :: wl1271 where
  "demo_wl = wl_zeroed\<lparr>wl_state := WLCORE_STATE_ON, links_map := {0, 1}, wlvif_list := [1],
     vifs := (\<lambda>_. vif_zeroed)(1 := demo_vif), num_tx_desc := 16, tx_blocks_available := 100,
     aggr_buf_size := 16384, aggr_buf := replicate 16384 0\<rparr>"

lemmas zeroed_defs =
  info_zeroed_def skb_zeroed_def link_zeroed_def vif_zeroed_def conf_zeroed_def part_zeroed_def
  boot_zeroed_def wl_zeroed_def quiet_env_def demo_vif_def demo_wl_def

end
