(* ===== verification/WlIo.thy ===== *)
theory WlIo
  imports WlState
begin

text \<open>
  Access to the chip (wlcore/io.h, wlcore/io.c): translation of the driver's virtual addresses
  through the four partition windows, the raw and translated bus operations with their sticky
  failure flag, and the request for a hardware recovery (\<open>wl12xx_queue_recovery_work\<close> of
  wlcore/main.c). The bus itself (\<open>wl->if_ops\<close>: SDIO or SPI) is the environment.
\<close>

section \<open>Address translation\<close>

definition in_window :: "nat \<Rightarrow> wlcore_partition \<Rightarrow> bool" where
  "in_window addr p \<longleftrightarrow> part_start p \<le> addr \<and> addr < part_start p + part_size p"

definition translate_addr :: "wlcore_partition_set \<Rightarrow> nat \<Rightarrow> nat option" where
  "translate_addr part addr =
     (if in_window addr (part_mem part) then Some (addr - part_start (part_mem part))
      else if in_window addr (part_reg part) then
        Some (addr - part_start (part_reg part) + part_size (part_mem part))
      else if in_window addr (part_mem2 part) then
        Some (addr - part_start (part_mem2 part) + part_size (part_mem part)
              + part_size (part_reg part))
      else if in_window addr (part_mem3 part) then
        Some (addr - part_start (part_mem3 part) + part_size (part_mem part)
              + part_size (part_reg part) + part_size (part_mem2 part))
      else None)"

definition wlcore_translate_addr :: "wl1271 \<Rightarrow> nat \<Rightarrow> nat \<times> wl1271" where
  "wlcore_translate_addr wl addr =
     (case translate_addr (curr_part wl) addr of
        Some a \<Rightarrow> (a, wl)
      | None \<Rightarrow> (0, emit C_warn wl))"

section \<open>Sequencing\<close>

text \<open>
  \<open>and_then m f\<close>: run \<open>f\<close> after \<open>m\<close> unless \<open>m\<close> failed, the pattern
  \<open>ret = m; if (ret < 0) return ret; f\<close>.
\<close>

definition and_then ::
  "'a res \<times> wl1271 \<Rightarrow> ('a \<Rightarrow> wl1271 \<Rightarrow> 'b res \<times> wl1271) \<Rightarrow> 'b res \<times> wl1271" where
  "and_then m f = (case m of (Inl e, wl) \<Rightarrow> (Inl e, wl) | (Inr x, wl) \<Rightarrow> f x wl)"

lemma and_then_simps [simp]:
  "and_then (Inl e, wl) f = (Inl e, wl)" "and_then (Inr x, wl) f = f x wl"
  by (simp_all add: and_then_def)

lemma and_then_rel:
  assumes "\<And>a b c. R a b \<Longrightarrow> R b c \<Longrightarrow> R a c" and "R wl (snd m)"
    and "\<And>x. fst m = Inr x \<Longrightarrow> R (snd m) (snd (f x (snd m)))"
  shows "R wl (snd (and_then m f))"
proof (cases m)
  case (Pair r wl1)
  then show ?thesis
    using assms by (cases r) (auto simp: and_then_def)
qed

section \<open>Bus operations\<close>

definition wlcore_raw_write :: "wl_env \<Rightarrow> wl1271 \<Rightarrow> nat \<Rightarrow> bytes \<Rightarrow> bool \<Rightarrow> unit res \<times> wl1271" where
  "wlcore_raw_write env wl addr buf fixed =
     (if WL1271_FLAG_IO_FAILED \<in> wl_flags wl then (Inl EIO, wl)
      else let wl1 = emit (C_write addr buf fixed) wl in
        case e_write env (log wl1) of
          None \<Rightarrow> (Inr (), wl1)
        | Some e \<Rightarrow>
            (Inl e, if wl_state wl1 \<noteq> WLCORE_STATE_OFF
                    then set_flag WL1271_FLAG_IO_FAILED wl1 else wl1))"

text \<open>
  A successful read delivers the number of bytes asked for: what the bus returns is cut or
  padded with zeroes to the length of the destination buffer.
\<close>

definition wlcore_raw_read :: "wl_env \<Rightarrow> wl1271 \<Rightarrow> nat \<Rightarrow> nat \<Rightarrow> bool \<Rightarrow> bytes res \<times> wl1271" where
  "wlcore_raw_read env wl addr len fixed =
     (if WL1271_FLAG_IO_FAILED \<in> wl_flags wl then (Inl EIO, wl)
      else let wl1 = emit (C_read addr len fixed) wl in
        case e_read env (log wl1) of
          Inr bs \<Rightarrow> (Inr (take len (bs @ replicate len 0)), wl1)
        | Inl e \<Rightarrow>
            (Inl e, if wl_state wl1 \<noteq> WLCORE_STATE_OFF
                    then set_flag WL1271_FLAG_IO_FAILED wl1 else wl1))"

definition wlcore_raw_read_data ::
  "wl_env \<Rightarrow> wl1271 \<Rightarrow> wlcore_registers \<Rightarrow> nat \<Rightarrow> bool \<Rightarrow> bytes res \<times> wl1271" where
  "wlcore_raw_read_data env wl reg len fixed = wlcore_raw_read env wl (rtable wl reg) len fixed"

definition wlcore_raw_write_data ::
  "wl_env \<Rightarrow> wl1271 \<Rightarrow> wlcore_registers \<Rightarrow> bytes \<Rightarrow> bool \<Rightarrow> unit res \<times> wl1271" where
  "wlcore_raw_write_data env wl reg buf fixed = wlcore_raw_write env wl (rtable wl reg) buf fixed"

definition wlcore_raw_read32 :: "wl_env \<Rightarrow> wl1271 \<Rightarrow> nat \<Rightarrow> u32 res \<times> wl1271" where
  "wlcore_raw_read32 env wl addr =
     (case wlcore_raw_read env wl addr 4 False of
        (Inl e, wl1) \<Rightarrow> (Inl e, wl1)
      | (Inr bs, wl1) \<Rightarrow> (Inr (get_le32 0 bs), wl1))"

definition wlcore_raw_write32 :: "wl_env \<Rightarrow> wl1271 \<Rightarrow> nat \<Rightarrow> u32 \<Rightarrow> unit res \<times> wl1271" where
  "wlcore_raw_write32 env wl addr val = wlcore_raw_write env wl addr (le32 val) False"

definition wlcore_read :: "wl_env \<Rightarrow> wl1271 \<Rightarrow> nat \<Rightarrow> nat \<Rightarrow> bool \<Rightarrow> bytes res \<times> wl1271" where
  "wlcore_read env wl addr len fixed =
     (let (physical, wl1) = wlcore_translate_addr wl addr
      in wlcore_raw_read env wl1 physical len fixed)"

definition wlcore_write :: "wl_env \<Rightarrow> wl1271 \<Rightarrow> nat \<Rightarrow> bytes \<Rightarrow> bool \<Rightarrow> unit res \<times> wl1271" where
  "wlcore_write env wl addr buf fixed =
     (let (physical, wl1) = wlcore_translate_addr wl addr
      in wlcore_raw_write env wl1 physical buf fixed)"

definition wlcore_write_data ::
  "wl_env \<Rightarrow> wl1271 \<Rightarrow> wlcore_registers \<Rightarrow> bytes \<Rightarrow> bool \<Rightarrow> unit res \<times> wl1271" where
  "wlcore_write_data env wl reg buf fixed = wlcore_write env wl (rtable wl reg) buf fixed"

definition wlcore_read_data ::
  "wl_env \<Rightarrow> wl1271 \<Rightarrow> wlcore_registers \<Rightarrow> nat \<Rightarrow> bool \<Rightarrow> bytes res \<times> wl1271" where
  "wlcore_read_data env wl reg len fixed = wlcore_read env wl (rtable wl reg) len fixed"

text \<open>Hardware addresses are kept in units of 32 bytes.\<close>

definition wlcore_read_hwaddr :: "wl_env \<Rightarrow> wl1271 \<Rightarrow> nat \<Rightarrow> nat \<Rightarrow> bool \<Rightarrow> bytes res \<times> wl1271" where
  "wlcore_read_hwaddr env wl hwaddr len fixed = wlcore_read env wl (hwaddr * 32) len fixed"

definition wlcore_read32 :: "wl_env \<Rightarrow> wl1271 \<Rightarrow> nat \<Rightarrow> u32 res \<times> wl1271" where
  "wlcore_read32 env wl addr =
     (let (physical, wl1) = wlcore_translate_addr wl addr in wlcore_raw_read32 env wl1 physical)"

definition wlcore_write32 :: "wl_env \<Rightarrow> wl1271 \<Rightarrow> nat \<Rightarrow> u32 \<Rightarrow> unit res \<times> wl1271" where
  "wlcore_write32 env wl addr val =
     (let (physical, wl1) = wlcore_translate_addr wl addr
      in wlcore_raw_write32 env wl1 physical val)"

definition wlcore_read_reg :: "wl_env \<Rightarrow> wl1271 \<Rightarrow> wlcore_registers \<Rightarrow> u32 res \<times> wl1271" where
  "wlcore_read_reg env wl reg = wlcore_read32 env wl (rtable wl reg)"

definition wlcore_write_reg :: "wl_env \<Rightarrow> wl1271 \<Rightarrow> wlcore_registers \<Rightarrow> u32 \<Rightarrow> unit res \<times> wl1271" where
  "wlcore_write_reg env wl reg val = wlcore_write32 env wl (rtable wl reg) val"

definition wl1271_power_off :: "wl_env \<Rightarrow> wl1271 \<Rightarrow> wl1271" where
  "wl1271_power_off env wl =
     (if WL1271_FLAG_GPIO_POWER \<notin> wl_flags wl then wl
      else let wl1 = emit (C_power False) wl
        in if e_power env (log wl1) then clear_flag WL1271_FLAG_GPIO_POWER wl1 else wl1)"

definition wl1271_power_on :: "wl_env \<Rightarrow> wl1271 \<Rightarrow> bool \<times> wl1271" where
  "wl1271_power_on env wl =
     (let wl1 = emit (C_power True) wl
      in if e_power env (log wl1) then (True, set_flag WL1271_FLAG_GPIO_POWER wl1) else (False, wl1))"

section \<open>Programming the partition registers\<close>

abbreviation (input) HW_PARTITION_REGISTERS_ADDR :: nat where "HW_PARTITION_REGISTERS_ADDR \<equiv> 0x1FFC0"

fun write32_all :: "wl_env \<Rightarrow> wl1271 \<Rightarrow> (nat \<times> u32) list \<Rightarrow> unit res \<times> wl1271" where
  "write32_all env wl [] = (Inr (), wl)"
| "write32_all env wl ((a, v) # ws) =
     (case wlcore_raw_write32 env wl a v of
        (Inl e, wl1) \<Rightarrow> (Inl e, wl1)
      | (Inr _, wl1) \<Rightarrow> write32_all env wl1 ws)"

text \<open>
  The partition set is copied first and then written start before size; the size of the last
  window is computed by the chip.
\<close>

definition partition_writes :: "wlcore_partition_set \<Rightarrow> (nat \<times> u32) list" where
  "partition_writes p =
     [(HW_PARTITION_REGISTERS_ADDR + 4, of_nat (part_start (part_mem p))),
      (HW_PARTITION_REGISTERS_ADDR, of_nat (part_size (part_mem p))),
      (HW_PARTITION_REGISTERS_ADDR + 12, of_nat (part_start (part_reg p))),
      (HW_PARTITION_REGISTERS_ADDR + 8, of_nat (part_size (part_reg p))),
      (HW_PARTITION_REGISTERS_ADDR + 20, of_nat (part_start (part_mem2 p))),
      (HW_PARTITION_REGISTERS_ADDR + 16, of_nat (part_size (part_mem2 p))),
      (HW_PARTITION_REGISTERS_ADDR + 24, of_nat (part_start (part_mem3 p)))]"

definition wlcore_set_partition ::
  "wl_env \<Rightarrow> wl1271 \<Rightarrow> wlcore_partition_set \<Rightarrow> unit res \<times> wl1271" where
  "wlcore_set_partition env wl p = write32_all env (wl\<lparr>curr_part := p\<rparr>) (partition_writes p)"

section \<open>Requesting a recovery\<close>

definition wl12xx_queue_recovery_work :: "wl1271 \<Rightarrow> wl1271" where
  "wl12xx_queue_recovery_work wl =
     (let wl1 = (if WL1271_FLAG_INTENDED_FW_RECOVERY \<in> wl_flags wl then wl else emit C_warn wl)
      in if wl_state wl1 = WLCORE_STATE_ON then
           emit (C_queue_work RECOVERY_WORK)
             (emit C_irq_disable
               (set_flag WL1271_FLAG_RECOVERY_IN_PROGRESS
                 (wl1\<lparr>wl_state := WLCORE_STATE_RESTARTING\<rparr>)))
         else wl1)"

lemmas wl_io_defs =
  wlcore_raw_write_def wlcore_raw_read_def wlcore_raw_read_data_def wlcore_raw_read32_def
  wlcore_raw_write32_def wlcore_read_def wlcore_write_def wlcore_write_data_def
  wlcore_read_data_def wlcore_read_hwaddr_def wlcore_read32_def wlcore_write32_def
  wlcore_read_reg_def wlcore_write_reg_def wlcore_translate_addr_def

section \<open>What a bus operation may change\<close>

text \<open>
  \<open>io_step wl wl'\<close>: only quiet calls were logged, and at most the failure flag was raised. Every
  operation of this theory but the partition change is such a step, which gives all its frame
  facts at once. \<open>cmd_step\<close> also allows a recovery to have been requested.
\<close>

definition io_step :: "wl1271 \<Rightarrow> wl1271 \<Rightarrow> bool" where
  "io_step wl wl' \<longleftrightarrow>
     (\<exists>l f. wl' = wl\<lparr>wl_flags := f, log := log wl @ l\<rparr> \<and> wl_flags wl \<subseteq> f
          \<and> f \<subseteq> insert WL1271_FLAG_IO_FAILED (wl_flags wl) \<and> list_all quiet_call l)"

definition cmd_step :: "wl1271 \<Rightarrow> wl1271 \<Rightarrow> bool" where
  "cmd_step wl wl' \<longleftrightarrow>
     (\<exists>s l f. wl' = wl\<lparr>wl_state := s, wl_flags := f, log := log wl @ l\<rparr> \<and> wl_flags wl \<subseteq> f
          \<and> f \<subseteq> wl_flags wl \<union> {WL1271_FLAG_IO_FAILED, WL1271_FLAG_RECOVERY_IN_PROGRESS}
          \<and> (s = wl_state wl \<or> wl_state wl = WLCORE_STATE_ON \<and> s = WLCORE_STATE_RESTARTING)
          \<and> list_all quiet_call l)"

lemma io_stepI:
  "wl' = wl\<lparr>wl_flags := f, log := log wl @ l\<rparr> \<Longrightarrow> wl_flags wl \<subseteq> f \<Longrightarrow>
   f \<subseteq> insert WL1271_FLAG_IO_FAILED (wl_flags wl) \<Longrightarrow> list_all quiet_call l \<Longrightarrow> io_step wl wl'"
  unfolding io_step_def by blast

lemma io_stepE:
  assumes "io_step wl wl'"
  obtains l f where "wl' = wl\<lparr>wl_flags := f, log := log wl @ l\<rparr>" and "wl_flags wl \<subseteq> f"
    and "f \<subseteq> insert WL1271_FLAG_IO_FAILED (wl_flags wl)" and "list_all quiet_call l"
  using assms unfolding io_step_def by blast

lemma cmd_stepI:
  "wl' = wl\<lparr>wl_state := s, wl_flags := f, log := log wl @ l\<rparr> \<Longrightarrow> wl_flags wl \<subseteq> f \<Longrightarrow>
   f \<subseteq> wl_flags wl \<union> {WL1271_FLAG_IO_FAILED, WL1271_FLAG_RECOVERY_IN_PROGRESS} \<Longrightarrow>
   s = wl_state wl \<or> wl_state wl = WLCORE_STATE_ON \<and> s = WLCORE_STATE_RESTARTING \<Longrightarrow>
   list_all quiet_call l \<Longrightarrow> cmd_step wl wl'"
  unfolding cmd_step_def by blast

lemma cmd_stepE:
  assumes "cmd_step wl wl'"
  obtains s l f where "wl' = wl\<lparr>wl_state := s, wl_flags := f, log := log wl @ l\<rparr>" and "wl_flags wl \<subseteq> f"
    and "f \<subseteq> wl_flags wl \<union> {WL1271_FLAG_IO_FAILED, WL1271_FLAG_RECOVERY_IN_PROGRESS}"
    and "s = wl_state wl \<or> wl_state wl = WLCORE_STATE_ON \<and> s = WLCORE_STATE_RESTARTING"
    and "list_all quiet_call l"
  using assms unfolding cmd_step_def by blast

lemma io_step_refl [simp, intro]: "io_step wl wl"
  by (rule io_stepI [where f = "wl_flags wl" and l = "[]"]) auto

lemma io_step_trans: "io_step a b \<Longrightarrow> io_step b c \<Longrightarrow> io_step a c"
proof (elim io_stepE)
  fix l f l' f'
  assume "b = a\<lparr>wl_flags := f, log := log a @ l\<rparr>" and "c = b\<lparr>wl_flags := f', log := log b @ l'\<rparr>"
    and "wl_flags a \<subseteq> f" "wl_flags b \<subseteq> f'" "list_all quiet_call l" "list_all quiet_call l'"
    "f \<subseteq> insert WL1271_FLAG_IO_FAILED (wl_flags a)" "f' \<subseteq> insert WL1271_FLAG_IO_FAILED (wl_flags b)"
  then show "io_step a c" by (intro io_stepI [where f = f' and l = "l @ l'"]) auto
qed

lemma cmd_step_trans: "cmd_step a b \<Longrightarrow> cmd_step b c \<Longrightarrow> cmd_step a c"
proof (elim cmd_stepE)
  fix s l f s' l' f'
  assume "b = a\<lparr>wl_state := s, wl_flags := f, log := log a @ l\<rparr>"
    and "c = b\<lparr>wl_state := s', wl_flags := f', log := log b @ l'\<rparr>"
    and "wl_flags a \<subseteq> f" "wl_flags b \<subseteq> f'" "list_all quiet_call l" "list_all quiet_call l'"
    "f \<subseteq> wl_flags a \<union> {WL1271_FLAG_IO_FAILED, WL1271_FLAG_RECOVERY_IN_PROGRESS}"
    "f' \<subseteq> wl_flags b \<union> {WL1271_FLAG_IO_FAILED, WL1271_FLAG_RECOVERY_IN_PROGRESS}"
    "s = wl_state a \<or> wl_state a = WLCORE_STATE_ON \<and> s = WLCORE_STATE_RESTARTING"
    "s' = wl_state b \<or> wl_state b = WLCORE_STATE_ON \<and> s' = WLCORE_STATE_RESTARTING"
  then show "cmd_step a c" by (intro cmd_stepI [where s = s' and f = f' and l = "l @ l'"]) auto
qed

lemma io_step_cmd_step: "io_step wl wl' \<Longrightarrow> cmd_step wl wl'"
proof (elim io_stepE)
  fix l f
  assume "wl' = wl\<lparr>wl_flags := f, log := log wl @ l\<rparr>" "wl_flags wl \<subseteq> f"
    "f \<subseteq> insert WL1271_FLAG_IO_FAILED (wl_flags wl)" "list_all quiet_call l"
  then show "cmd_step wl wl'" by (intro cmd_stepI [where s = "wl_state wl" and f = f and l = l]) auto
qed

lemma cmd_step_refl [simp, intro]: "cmd_step wl wl"
  by (simp add: io_step_cmd_step)

lemma io_step_emit [simp, intro]: "quiet_call c \<Longrightarrow> io_step wl (emit c wl)"
  by (rule io_stepI [where f = "wl_flags wl" and l = "[c]"]) (auto simp: emit_def)

lemma cmd_step_emit [simp, intro]: "quiet_call c \<Longrightarrow> cmd_step wl (emit c wl)"
  by (simp add: io_step_cmd_step)

lemma io_step_set_failed [simp, intro]: "io_step wl (set_flag WL1271_FLAG_IO_FAILED wl)"
  by (rule io_stepI [where f = "insert WL1271_FLAG_IO_FAILED (wl_flags wl)" and l = "[]"])
    (auto simp: set_flag_def)

lemma io_step_emit_set [simp, intro]:
  "quiet_call c \<Longrightarrow> io_step wl (set_flag WL1271_FLAG_IO_FAILED (emit c wl))"
  by (blast intro: io_step_trans)

lemma cmd_step_recovery [simp, intro]: "cmd_step wl (wl12xx_queue_recovery_work wl)"
proof (cases "wl_state wl = WLCORE_STATE_ON")
  case True
  let ?w = "if WL1271_FLAG_INTENDED_FW_RECOVERY \<in> wl_flags wl then [] else [C_warn]"
  show ?thesis
    by (rule cmd_stepI [where s = WLCORE_STATE_RESTARTING
          and f = "insert WL1271_FLAG_RECOVERY_IN_PROGRESS (wl_flags wl)"
          and l = "?w @ [C_irq_disable, C_queue_work RECOVERY_WORK]"])
      (auto simp: wl12xx_queue_recovery_work_def Let_def emit_def set_flag_def True)
next
  case False
  then show ?thesis by (simp add: wl12xx_queue_recovery_work_def Let_def emit_def [symmetric]) (simp add: emit_def)
qed

lemma io_step_flag:
  "io_step wl wl' \<Longrightarrow> f \<noteq> WL1271_FLAG_IO_FAILED \<Longrightarrow> f \<in> wl_flags wl' \<longleftrightarrow> f \<in> wl_flags wl"
  by (auto elim!: io_stepE)

lemma cmd_step_flag:
  "cmd_step wl wl' \<Longrightarrow> f \<noteq> WL1271_FLAG_IO_FAILED \<Longrightarrow> f \<noteq> WL1271_FLAG_RECOVERY_IN_PROGRESS \<Longrightarrow>
   f \<in> wl_flags wl' \<longleftrightarrow> f \<in> wl_flags wl"
  by (auto elim!: cmd_stepE)

lemma io_step_seq:
  "io_step wl (snd m) \<Longrightarrow> (\<And>x. fst m = Inr x \<Longrightarrow> io_step (snd m) (snd (f x (snd m)))) \<Longrightarrow>
   io_step wl (snd (and_then m f))"
  by (rule and_then_rel [of io_step]) (blast intro: io_step_trans)+

lemma cmd_step_seq:
  "cmd_step wl (snd m) \<Longrightarrow> (\<And>x. fst m = Inr x \<Longrightarrow> cmd_step (snd m) (snd (f x (snd m)))) \<Longrightarrow>
   cmd_step wl (snd (and_then m f))"
  by (rule and_then_rel [of cmd_step]) (blast intro: cmd_step_trans)+

lemma io_step_raw_write: "io_step wl (snd (wlcore_raw_write env wl a b f))"
  by (simp add: wlcore_raw_write_def Let_def split: option.split)

lemma io_step_raw_read: "io_step wl (snd (wlcore_raw_read env wl a n f))"
  by (simp add: wlcore_raw_read_def Let_def split: sum.split)

lemma io_step_translate: "io_step wl (snd (wlcore_translate_addr wl a))"
  by (simp add: wlcore_translate_addr_def split: option.split)

lemma io_step_write: "io_step wl (snd (wlcore_write env wl a b f))"
  unfolding wlcore_write_def Let_def split_beta
  by (rule io_step_trans [OF io_step_translate io_step_raw_write])

lemma io_step_read: "io_step wl (snd (wlcore_read env wl a n f))"
  unfolding wlcore_read_def Let_def split_beta
  by (rule io_step_trans [OF io_step_translate io_step_raw_read])

lemma io_step_write_data: "io_step wl (snd (wlcore_write_data env wl r b f))"
  unfolding wlcore_write_data_def by (rule io_step_write)

lemma io_step_read_data: "io_step wl (snd (wlcore_read_data env wl r n f))"
  unfolding wlcore_read_data_def by (rule io_step_read)

lemma io_step_raw_read_data: "io_step wl (snd (wlcore_raw_read_data env wl r n f))"
  unfolding wlcore_raw_read_data_def by (rule io_step_raw_read)

lemma io_step_read_hwaddr: "io_step wl (snd (wlcore_read_hwaddr env wl h n f))"
  unfolding wlcore_read_hwaddr_def by (rule io_step_read)

lemma io_step_raw_write32: "io_step wl (snd (wlcore_raw_write32 env wl a v))"
  unfolding wlcore_raw_write32_def by (rule io_step_raw_write)

lemma io_step_raw_read32: "io_step wl (snd (wlcore_raw_read32 env wl a))"
  using io_step_raw_read [of wl env a 4 False]
  by (auto simp: wlcore_raw_read32_def split: prod.splits sum.splits)

lemma io_step_write32: "io_step wl (snd (wlcore_write32 env wl a v))"
  unfolding wlcore_write32_def Let_def split_beta
  by (rule io_step_trans [OF io_step_translate io_step_raw_write32])

lemma io_step_read32: "io_step wl (snd (wlcore_read32 env wl a))"
  unfolding wlcore_read32_def Let_def split_beta
  by (rule io_step_trans [OF io_step_translate io_step_raw_read32])

lemma io_step_write_reg: "io_step wl (snd (wlcore_write_reg env wl r v))"
  unfolding wlcore_write_reg_def by (rule io_step_write32)

lemma io_step_read_reg: "io_step wl (snd (wlcore_read_reg env wl r))"
  unfolding wlcore_read_reg_def by (rule io_step_read32)

lemmas io_step_ops =
  io_step_raw_write io_step_raw_read io_step_write io_step_read io_step_write_data
  io_step_read_data io_step_raw_read_data io_step_read_hwaddr io_step_raw_write32
  io_step_raw_read32 io_step_write32 io_step_read32 io_step_write_reg io_step_read_reg

lemma length_raw_read:
  "wlcore_raw_read env wl a n f = (Inr bs, wl') \<Longrightarrow> length bs = n"
  by (auto simp: wlcore_raw_read_def Let_def split: sum.splits if_splits)

lemma length_wlcore_read: "wlcore_read env wl a n f = (Inr bs, wl') \<Longrightarrow> length bs = n"
  by (auto simp: wlcore_read_def split: prod.splits dest: length_raw_read)

section \<open>Sequences of bus operations\<close>

text \<open>
  A client's sequence of translated accesses, with whether each succeeded; \<open>transfers\<close> counts
  the accesses that reached the bus.
\<close>

datatype bus_op = Bus_write nat bytes bool | Bus_read nat nat bool

primrec bus_do :: "wl_env \<Rightarrow> bus_op \<Rightarrow> wl1271 \<Rightarrow> bool \<times> wl1271" where
  "bus_do env (Bus_write a b f) wl =
     (case wlcore_write env wl a b f of (Inl e, wl1) \<Rightarrow> (False, wl1) | (Inr _, wl1) \<Rightarrow> (True, wl1))"
| "bus_do env (Bus_read a n f) wl =
     (case wlcore_read env wl a n f of (Inl e, wl1) \<Rightarrow> (False, wl1) | (Inr _, wl1) \<Rightarrow> (True, wl1))"

primrec run_bus :: "wl_env \<Rightarrow> bus_op list \<Rightarrow> wl1271 \<Rightarrow> bool list \<times> wl1271" where
  "run_bus env [] wl = ([], wl)"
| "run_bus env (b # bs) wl =
     (let (r, wl1) = bus_do env b wl; (rs, wl2) = run_bus env bs wl1 in (r # rs, wl2))"

fun is_transfer :: "wl_call \<Rightarrow> bool" where
  "is_transfer (C_write a b f) = True"
| "is_transfer (C_read a n f) = True"
| "is_transfer c = False"

definition transfers :: "wl1271 \<Rightarrow> nat" where
  "transfers wl = length (filter is_transfer (log wl))"

lemma bus_do_failed:
  "WL1271_FLAG_IO_FAILED \<in> wl_flags wl \<Longrightarrow>
   \<exists>wl'. bus_do env b wl = (False, wl') \<and> transfers wl' = transfers wl
       \<and> WL1271_FLAG_IO_FAILED \<in> wl_flags wl'"
  by (cases b)
    (auto simp: wlcore_write_def wlcore_read_def wlcore_translate_addr_def wlcore_raw_write_def
      wlcore_raw_read_def emit_def transfers_def split: option.split)

lemma bus_do_alive:
  assumes "WL1271_FLAG_IO_FAILED \<notin> wl_flags wl" and "wl_state wl \<noteq> WLCORE_STATE_OFF"
  shows "transfers (snd (bus_do env b wl)) = Suc (transfers wl)
     \<and> wl_state (snd (bus_do env b wl)) = wl_state wl
     \<and> (WL1271_FLAG_IO_FAILED \<in> wl_flags (snd (bus_do env b wl)) \<longleftrightarrow> \<not> fst (bus_do env b wl))"
  using assms
  by (cases b)
    (auto simp: wlcore_write_def wlcore_read_def wlcore_translate_addr_def wlcore_raw_write_def
      wlcore_raw_read_def emit_def set_flag_def transfers_def Let_def
      split: option.split sum.split)

lemma run_bus_failed:
  "WL1271_FLAG_IO_FAILED \<in> wl_flags wl \<Longrightarrow> run_bus env ops wl = (rs, wl') \<Longrightarrow>
   rs = replicate (length ops) False \<and> transfers wl' = transfers wl"
proof (induction ops arbitrary: wl rs wl')
  case (Cons b ops)
  obtain wl1 where b: "bus_do env b wl = (False, wl1)" "transfers wl1 = transfers wl"
    "WL1271_FLAG_IO_FAILED \<in> wl_flags wl1"
    using bus_do_failed [OF Cons.prems(1)] by blast
  obtain rs1 wl2 where r: "run_bus env ops wl1 = (rs1, wl2)" by (cases "run_bus env ops wl1")
  from Cons.IH [OF b(3) r] Cons.prems(2) b r show ?case by auto
qed simp

section \<open>Properties of the bus layer\<close>

lemma translate_addr_cases:
  assumes "translate_addr part a = Some x"
  obtains "x + part_start (part_mem part) = a" "x < part_size (part_mem part)"
  | "x + part_start (part_reg part) = a + part_size (part_mem part)"
    "part_size (part_mem part) \<le> x" "x < part_size (part_mem part) + part_size (part_reg part)"
  | "x + part_start (part_mem2 part) = a + part_size (part_mem part) + part_size (part_reg part)"
    "part_size (part_mem part) + part_size (part_reg part) \<le> x"
    "x < part_size (part_mem part) + part_size (part_reg part) + part_size (part_mem2 part)"
  | "x + part_start (part_mem3 part)
       = a + part_size (part_mem part) + part_size (part_reg part) + part_size (part_mem2 part)"
    "part_size (part_mem part) + part_size (part_reg part) + part_size (part_mem2 part) \<le> x"
    "x < part_size (part_mem part) + part_size (part_reg part) + part_size (part_mem2 part)
         + part_size (part_mem3 part)"
  using assms unfolding translate_addr_def in_window_def
  by (simp split: if_split_asm)


text \<open>
  C32: a bus failure is final. In any sequence of accesses on a device that is not off, the
  accesses succeed up to some point and fail from then on, and nothing is put on the bus after
  the first failed transfer.
\<close>

theorem io_failure_sticky:
  assumes "WL1271_FLAG_IO_FAILED \<notin> wl_flags wl" and "wl_state wl \<noteq> WLCORE_STATE_OFF"
    and "run_bus env ops wl = (rs, wl')"
  shows "\<exists>k. rs = replicate k True @ replicate (length ops - k) False \<and> k \<le> length ops
           \<and> transfers wl' = transfers wl + min (Suc k) (length ops)"
  using assms
proof (induction ops arbitrary: wl rs wl')
  case (Cons b ops)
  obtain r wl1 where b: "bus_do env b wl = (r, wl1)" by (cases "bus_do env b wl")
  obtain rs1 wl2 where r: "run_bus env ops wl1 = (rs1, wl2)" by (cases "run_bus env ops wl1")
  have rs: "rs = r # rs1" "wl' = wl2" using Cons.prems(3) b r by simp_all
  note alive = bus_do_alive [OF Cons.prems(1,2), of env b, unfolded b fst_conv snd_conv]
  show ?case
  proof (cases r)
    case True
    then have "WL1271_FLAG_IO_FAILED \<notin> wl_flags wl1" "wl_state wl1 \<noteq> WLCORE_STATE_OFF"
      using alive Cons.prems(2) by simp_all
    from Cons.IH [OF this r] obtain k where
      k: "rs1 = replicate k True @ replicate (length ops - k) False" "k \<le> length ops"
        "transfers wl2 = transfers wl1 + min (Suc k) (length ops)" by blast
    show ?thesis using k alive rs True by (intro exI [of _ "Suc k"]) simp
  next
    case False
    then have "WL1271_FLAG_IO_FAILED \<in> wl_flags wl1" using alive by simp
    from run_bus_failed [OF this r] alive rs False show ?thesis
      by (intro exI [of _ 0]) simp
  qed
qed simp
theorem io_failure_sticky_witness:
  "let env = quiet_env\<lparr>e_write := (\<lambda>l. if length l < 2 then None else Some ETIMEDOUT)\<rparr>;
       wl = wl_zeroed\<lparr>wl_state := WLCORE_STATE_ON,
              curr_part := part_zeroed\<lparr>part_mem := \<lparr>part_size = 64, part_start = 0\<rparr>\<rparr>\<rparr>;
       (rs, wl') = run_bus env [Bus_write 0 [1] False, Bus_write 4 [2] False, Bus_write 8 [3] False] wl
   in rs = [True, False, False] \<and> transfers wl' = 2
      \<and> (\<exists>k. rs = replicate k True @ replicate (3 - k) False \<and> k \<le> 3
             \<and> transfers wl' = transfers wl + min (Suc k) 3)"
  using io_failure_sticky [of
      "wl_zeroed\<lparr>wl_state := WLCORE_STATE_ON,
         curr_part := part_zeroed\<lparr>part_mem := \<lparr>part_size = 64, part_start = 0\<rparr>\<rparr>\<rparr>"
      "quiet_env\<lparr>e_write := (\<lambda>l. if length l < 2 then None else Some ETIMEDOUT)\<rparr>"
      "[Bus_write 0 [1] False, Bus_write 4 [2] False, Bus_write 8 [3] False]"]
  by (simp add: Let_def wl_io_defs translate_addr_def in_window_def zeroed_defs wl_upd_defs
      transfers_def numeral_3_eq_3 numeral_2_eq_2)

end
