(* ===== verification/WlFrame.thy ===== *)
theory WlFrame
  imports WlState
begin

unbundle bit_operations_syntax

text \<open>
  Packets and headers: the operations on packet buffers, the 802.11 frame-control predicates
  and header lengths (include/linux/ieee80211.h, net/wireless/util.c), the channel to
  frequency mapping, and the 16-byte hardware descriptor that precedes every transmitted frame
  (\<open>struct wl1271_tx_hw_descr\<close> of wlcore/tx.h) with its byte layout.
\<close>

section \<open>Packet buffers\<close>

definition skb_bytes :: "sk_buff \<Rightarrow> bytes" where
  "skb_bytes skb = buf_read (skb_data skb) (skb_len skb) (skb_head skb)"

definition skb_push :: "nat \<Rightarrow> sk_buff \<Rightarrow> sk_buff" where
  "skb_push n skb = skb\<lparr>skb_data := skb_data skb - n, skb_len := skb_len skb + n\<rparr>"

definition skb_pull :: "nat \<Rightarrow> sk_buff \<Rightarrow> sk_buff" where
  "skb_pull n skb =
     (if n \<le> skb_len skb then skb\<lparr>skb_data := skb_data skb + n, skb_len := skb_len skb - n\<rparr> else skb)"

text \<open>\<open>skb_write off xs\<close> stores bytes at an offset from the start of the packet.\<close>

definition skb_write :: "nat \<Rightarrow> bytes \<Rightarrow> sk_buff \<Rightarrow> sk_buff" where
  "skb_write off xs skb = skb\<lparr>skb_head := buf_write (skb_data skb + off) xs (skb_head skb)\<rparr>"

text \<open>The packet lies inside its buffer.\<close>

definition skb_wf :: "sk_buff \<Rightarrow> bool" where
  "skb_wf skb \<longleftrightarrow> skb_data skb + skb_len skb \<le> length (skb_head skb)"

lemma skb_pull_push: "n \<le> skb_data skb \<Longrightarrow> skb_pull n (skb_push n skb) = skb"
  by (simp add: skb_pull_def skb_push_def)

lemma skb_wf_push: "skb_wf skb \<Longrightarrow> n \<le> skb_data skb \<Longrightarrow> skb_wf (skb_push n skb)"
  by (simp add: skb_wf_def skb_push_def)

lemma skb_wf_pull: "skb_wf skb \<Longrightarrow> skb_wf (skb_pull n skb)"
  by (auto simp: skb_wf_def skb_pull_def)

lemma skb_wf_write:
  "skb_wf skb \<Longrightarrow> off + length xs \<le> skb_len skb \<Longrightarrow> skb_wf (skb_write off xs skb)"
  by (simp add: skb_wf_def skb_write_def)

lemma length_skb_bytes: "skb_wf skb \<Longrightarrow> length (skb_bytes skb) = skb_len skb"
  by (simp add: skb_wf_def skb_bytes_def)

section \<open>Frame control\<close>

definition ieee80211_has_tods :: "u16 \<Rightarrow> bool" where
  "ieee80211_has_tods fc \<longleftrightarrow> fc AND 0x0100 \<noteq> 0"

definition ieee80211_has_a4 :: "u16 \<Rightarrow> bool" where
  "ieee80211_has_a4 fc \<longleftrightarrow> fc AND 0x0300 = 0x0300"

definition ieee80211_has_protected :: "u16 \<Rightarrow> bool" where
  "ieee80211_has_protected fc \<longleftrightarrow> fc AND 0x4000 \<noteq> 0"

definition ieee80211_has_order :: "u16 \<Rightarrow> bool" where
  "ieee80211_has_order fc \<longleftrightarrow> fc AND 0x8000 \<noteq> 0"

definition ieee80211_is_ctl :: "u16 \<Rightarrow> bool" where
  "ieee80211_is_ctl fc \<longleftrightarrow> fc AND 0x000c = 0x0004"

definition ieee80211_is_data :: "u16 \<Rightarrow> bool" where
  "ieee80211_is_data fc \<longleftrightarrow> fc AND 0x000c = 0x0008"

definition ieee80211_is_data_qos :: "u16 \<Rightarrow> bool" where
  "ieee80211_is_data_qos fc \<longleftrightarrow> fc AND 0x008c = 0x0088"

definition ieee80211_is_data_present :: "u16 \<Rightarrow> bool" where
  "ieee80211_is_data_present fc \<longleftrightarrow> fc AND 0x004c = 0x0008"

definition ieee80211_is_beacon :: "u16 \<Rightarrow> bool" where
  "ieee80211_is_beacon fc \<longleftrightarrow> fc AND 0x00fc = 0x0080"

definition ieee80211_is_auth :: "u16 \<Rightarrow> bool" where
  "ieee80211_is_auth fc \<longleftrightarrow> fc AND 0x00fc = 0x00b0"

definition ieee80211_hdrlen :: "u16 \<Rightarrow> nat" where
  "ieee80211_hdrlen fc =
     (if ieee80211_is_data fc then
        (let h = (if ieee80211_has_a4 fc then 30 else 24)
         in if ieee80211_is_data_qos fc
            then h + 2 + (if ieee80211_has_order fc then 4 else 0)
            else h)
      else if ieee80211_is_ctl fc then (if fc AND 0x00E0 = 0x00C0 then 10 else 16)
      else 24)"

definition ieee80211_get_hdrlen_from_skb :: "sk_buff \<Rightarrow> nat" where
  "ieee80211_get_hdrlen_from_skb skb =
     (if skb_len skb < 10 then 0
      else let hdrlen = ieee80211_hdrlen (get_le16 0 (skb_bytes skb))
        in if skb_len skb < hdrlen then 0 else hdrlen)"

text \<open>\<open>frame_control\<close> is the first field of the header, at offset \<open>off\<close> of the packet.\<close>

definition frame_control_at :: "nat \<Rightarrow> sk_buff \<Rightarrow> u16" where
  "frame_control_at off skb = get_le16 off (skb_bytes skb)"

definition ieee80211_get_DA :: "sk_buff \<Rightarrow> bytes" where
  "ieee80211_get_DA skb =
     (if ieee80211_has_tods (frame_control_at 0 skb) then buf_read 16 6 (skb_bytes skb)
      else buf_read 4 6 (skb_bytes skb))"

text \<open>A group address has the lowest bit of its first byte set.\<close>

definition is_multicast_ether_addr :: "bytes \<Rightarrow> bool" where
  "is_multicast_ether_addr a \<longleftrightarrow> byte_at 0 a AND 1 \<noteq> 0"

section \<open>Channels and frequencies\<close>

definition ieee80211_channel_to_frequency :: "int \<Rightarrow> ieee80211_band \<Rightarrow> int" where
  "ieee80211_channel_to_frequency chan band =
     (if chan \<le> 0 then 0
      else case band of
        IEEE80211_BAND_2GHZ \<Rightarrow>
          if chan = 14 then 2484 else if chan < 14 then 2407 + chan * 5 else 0
      | IEEE80211_BAND_5GHZ \<Rightarrow>
          if 182 \<le> chan \<and> chan \<le> 196 then 4000 + chan * 5 else 5000 + chan * 5
      | IEEE80211_BAND_60GHZ \<Rightarrow> if chan < 5 then 56160 + chan * 2160 else 0)"

text \<open>C division truncates; every dividend here is positive where the result is used.\<close>

definition ieee80211_frequency_to_channel :: "int \<Rightarrow> int" where
  "ieee80211_frequency_to_channel freq =
     (if freq = 2484 then 14
      else if freq < 2484 then
        (if 2407 \<le> freq then (freq - 2407) div 5 else - ((2407 - freq) div 5))
      else if 4910 \<le> freq \<and> freq \<le> 4980 then (freq - 4000) div 5
      else if freq \<le> 45000 then
        (if 5000 \<le> freq then (freq - 5000) div 5 else - ((5000 - freq) div 5))
      else if 58320 \<le> freq \<and> freq \<le> 64800 then (freq - 56160) div 2160
      else 0)"

section \<open>The hardware descriptor\<close>

text \<open>
  The two bytes \<open>mem0\<close>, \<open>mem1\<close> are the union of the chips' memory fields: extra and total
  blocks on wl127x, total blocks and extra bytes on wl128x, total blocks and control bits on
  wl18xx.
\<close>

record wl1271_tx_hw_descr =
  d_length :: u16
  d_mem0 :: u8
  d_mem1 :: u8
  d_start_time :: u32
  d_life_time :: u16
  d_tx_attr :: u16
  d_id :: u8
  d_tid :: u8
  d_hlid :: u8
  d_csum :: u8

abbreviation (input) TX_DESC_LEN :: nat where "TX_DESC_LEN \<equiv> 16"

definition desc_bytes :: "wl1271_tx_hw_descr \<Rightarrow> bytes" where
  "desc_bytes d =
     le16 (d_length d) @ [d_mem0 d, d_mem1 d] @ le32 (d_start_time d) @ le16 (d_life_time d)
     @ le16 (d_tx_attr d) @ [d_id d, d_tid d, d_hlid d, d_csum d]"

definition desc_of :: "bytes \<Rightarrow> wl1271_tx_hw_descr" where
  "desc_of b =
     \<lparr>d_length = get_le16 0 b, d_mem0 = byte_at 2 b, d_mem1 = byte_at 3 b,
      d_start_time = get_le32 4 b, d_life_time = get_le16 8 b, d_tx_attr = get_le16 10 b,
      d_id = byte_at 12 b, d_tid = byte_at 13 b, d_hlid = byte_at 14 b, d_csum = byte_at 15 b\<rparr>"

lemma length_desc_bytes [simp]: "length (desc_bytes d) = TX_DESC_LEN"
  by (simp add: desc_bytes_def)

lemma get_le16_at: "length xs = i \<Longrightarrow> get_le16 i (xs @ le16 v @ r) = v"
  using get_le16_append_right [of xs i "le16 v @ r"] by (simp add: get_le16_le16)

lemma get_le32_at: "length xs = i \<Longrightarrow> get_le32 i (xs @ le32 v @ r) = v"
  using get_le32_append_right [of xs i "le32 v @ r"] by (simp add: get_le32_le32)

lemma desc_of_desc_bytes: "desc_of (desc_bytes d @ r) = d"
proof -
  have "get_le16 0 (desc_bytes d @ r) = d_length d"
    unfolding desc_bytes_def append_assoc by (rule get_le16_le16)
  moreover have "get_le32 4 (desc_bytes d @ r) = d_start_time d"
    using get_le32_at [of "le16 (d_length d) @ [d_mem0 d, d_mem1 d]" 4 "d_start_time d"
        "drop 8 (desc_bytes d) @ r"]
    by (simp add: desc_bytes_def)
  moreover have "get_le16 8 (desc_bytes d @ r) = d_life_time d"
    using get_le16_at [of "take 8 (desc_bytes d)" 8 "d_life_time d" "drop 10 (desc_bytes d) @ r"]
    by (simp add: desc_bytes_def)
  moreover have "get_le16 10 (desc_bytes d @ r) = d_tx_attr d"
    using get_le16_at [of "take 10 (desc_bytes d)" 10 "d_tx_attr d" "drop 12 (desc_bytes d) @ r"]
    by (simp add: desc_bytes_def)
  ultimately show ?thesis
    by (simp add: desc_of_def desc_bytes_def byte_at_append byte_at_def nth_append)
qed

text \<open>The descriptor at the start of a packet, and storing it back.\<close>

definition skb_desc :: "sk_buff \<Rightarrow> wl1271_tx_hw_descr" where
  "skb_desc skb = desc_of (skb_bytes skb)"

definition skb_set_desc :: "wl1271_tx_hw_descr \<Rightarrow> sk_buff \<Rightarrow> sk_buff" where
  "skb_set_desc d skb = skb_write 0 (desc_bytes d) skb"

lemma skb_desc_set_desc:
  assumes "skb_wf skb" and "TX_DESC_LEN \<le> skb_len skb"
  shows "skb_desc (skb_set_desc d skb) = d"
    and "drop TX_DESC_LEN (skb_bytes (skb_set_desc d skb)) = drop TX_DESC_LEN (skb_bytes skb)"
    and "skb_wf (skb_set_desc d skb)"
proof -
  have b: "skb_bytes (skb_set_desc d skb)
      = desc_bytes d @ take (skb_len skb - TX_DESC_LEN)
          (drop (skb_data skb + TX_DESC_LEN) (skb_head skb))"
    using assms
    by (simp add: skb_bytes_def skb_set_desc_def skb_write_def buf_read_def buf_write_def skb_wf_def)
  show "skb_desc (skb_set_desc d skb) = d"
    unfolding skb_desc_def b by (rule desc_of_desc_bytes)
  show "drop TX_DESC_LEN (skb_bytes (skb_set_desc d skb)) = drop TX_DESC_LEN (skb_bytes skb)"
    unfolding b by (simp add: skb_bytes_def buf_read_def drop_take add.commute)
  show "skb_wf (skb_set_desc d skb)"
    unfolding skb_set_desc_def by (rule skb_wf_write) (use assms in simp_all)
qed

lemma skb_set_desc_simps [simp]:
  "skb_data (skb_set_desc d skb) = skb_data skb"
  "skb_len (skb_set_desc d skb) = skb_len skb"
  "skb_info (skb_set_desc d skb) = skb_info skb"
  "skb_priority (skb_set_desc d skb) = skb_priority skb"
  "skb_queue_mapping (skb_set_desc d skb) = skb_queue_mapping skb"
  by (simp_all add: skb_set_desc_def skb_write_def)

section \<open>Properties of the frame helpers\<close>

text \<open>
  C39: channel numbers survive the trip through a frequency. For every valid channel of each
  band, converting to MHz and back gives the channel.
\<close>

theorem channel_frequency_roundtrip:
  assumes "0 < chan"
    and "case band of IEEE80211_BAND_2GHZ \<Rightarrow> chan \<le> 14 | IEEE80211_BAND_5GHZ \<Rightarrow> chan \<le> 8000
         | IEEE80211_BAND_60GHZ \<Rightarrow> chan \<le> 4"
  shows "ieee80211_frequency_to_channel (ieee80211_channel_to_frequency chan band) = chan"
  using assms
  by (cases band) (simp_all add: ieee80211_channel_to_frequency_def ieee80211_frequency_to_channel_def)

theorem channel_frequency_roundtrip_witness:
  "ieee80211_channel_to_frequency 184 IEEE80211_BAND_5GHZ = 4920
   \<and> ieee80211_frequency_to_channel (ieee80211_channel_to_frequency 184 IEEE80211_BAND_5GHZ) = 184"
  using channel_frequency_roundtrip [of 184 IEEE80211_BAND_5GHZ]
  by (simp add: ieee80211_channel_to_frequency_def)



end
