(* ===== verification/WlQueue.thy ===== *)
theory WlQueue
  imports WlIo WlFrame
begin

text \<open>
  The software transmit queues (wlcore/tx.c, wlcore/tx.h and \<open>wl1271_op_tx\<close> of wlcore/main.c):
  the access-category numbering, stopping and waking mac80211's queues by reason, the
  watermarks, the choice of a link, queue and interface to transmit from, putting a packet back,
  and dropping the packets of a link.

  \<open>WARN_ON\<close> and \<open>WARN_ON_ONCE\<close> both log \<open>C_warn\<close>; which warnings were already printed is not
  kept. The spin lock is implicit: every operation below is one critical section or runs under
  the device mutex.
\<close>

section \<open>Access categories\<close>

abbreviation (input) CONF_TX_AC_BE :: nat where "CONF_TX_AC_BE \<equiv> 0"
abbreviation (input) CONF_TX_AC_BK :: nat where "CONF_TX_AC_BK \<equiv> 1"
abbreviation (input) CONF_TX_AC_VI :: nat where "CONF_TX_AC_VI \<equiv> 2"
abbreviation (input) CONF_TX_AC_VO :: nat where "CONF_TX_AC_VO \<equiv> 3"

definition wl1271_tx_get_queue :: "nat \<Rightarrow> nat" where
  "wl1271_tx_get_queue queue =
     (if queue = 0 then CONF_TX_AC_VO else if queue = 1 then CONF_TX_AC_VI
      else if queue = 2 then CONF_TX_AC_BE else if queue = 3 then CONF_TX_AC_BK
      else CONF_TX_AC_BE)"

definition wl1271_tx_get_mac80211_queue :: "nat \<Rightarrow> nat" where
  "wl1271_tx_get_mac80211_queue queue =
     (if queue = CONF_TX_AC_VO then 0 else if queue = CONF_TX_AC_VI then 1
      else if queue = CONF_TX_AC_BE then 2 else if queue = CONF_TX_AC_BK then 3 else 2)"

definition wl1271_tx_total_queue_count :: "wl1271 \<Rightarrow> int" where
  "wl1271_tx_total_queue_count wl = (\<Sum>i\<leftarrow>[0..<NUM_TX_QUEUES]. tx_queue_count wl i)"

text \<open>The queue a packet belongs to.\<close>

definition skb_ac :: "wl1271 \<Rightarrow> skb_ptr \<Rightarrow> nat" where
  "skb_ac wl p = wl1271_tx_get_queue (skb_queue_mapping (skbs wl p))"

section \<open>Stopping and waking\<close>

definition wlcore_is_queue_stopped_by_reason ::
  "wl1271 \<Rightarrow> nat \<Rightarrow> wlcore_queue_stop_reason \<Rightarrow> bool" where
  "wlcore_is_queue_stopped_by_reason wl queue reason \<longleftrightarrow> reason \<in> queue_stop_reasons wl queue"

definition wlcore_is_queue_stopped :: "wl1271 \<Rightarrow> nat \<Rightarrow> bool" where
  "wlcore_is_queue_stopped wl queue \<longleftrightarrow> queue_stop_reasons wl queue \<noteq> {}"

definition wlcore_stop_queue_locked ::
  "wl1271 \<Rightarrow> nat \<Rightarrow> wlcore_queue_stop_reason \<Rightarrow> wl1271" where
  "wlcore_stop_queue_locked wl queue reason =
     (let stopped = wlcore_is_queue_stopped wl queue;
          wl1 = (if reason \<in> queue_stop_reasons wl queue then emit C_warn wl else wl);
          wl2 = wl1\<lparr>queue_stop_reasons :=
                     (queue_stop_reasons wl1)(queue := insert reason (queue_stop_reasons wl1 queue))\<rparr>
      in if stopped then wl2
         else emit (C_stop_queue (wl1271_tx_get_mac80211_queue queue)) wl2)"

definition wlcore_stop_queue :: "wl1271 \<Rightarrow> nat \<Rightarrow> wlcore_queue_stop_reason \<Rightarrow> wl1271" where
  "wlcore_stop_queue wl queue reason = wlcore_stop_queue_locked wl queue reason"

definition wlcore_wake_queue :: "wl1271 \<Rightarrow> nat \<Rightarrow> wlcore_queue_stop_reason \<Rightarrow> wl1271" where
  "wlcore_wake_queue wl queue reason =
     (let wl1 = (if reason \<notin> queue_stop_reasons wl queue then emit C_warn wl else wl);
          wl2 = wl1\<lparr>queue_stop_reasons :=
                     (queue_stop_reasons wl1)(queue := queue_stop_reasons wl1 queue - {reason})\<rparr>
      in if wlcore_is_queue_stopped wl2 queue then wl2
         else emit (C_wake_queue (wl1271_tx_get_mac80211_queue queue)) wl2)"

definition wlcore_stop_queues :: "wl1271 \<Rightarrow> wlcore_queue_stop_reason \<Rightarrow> wl1271" where
  "wlcore_stop_queues wl reason =
     fold (\<lambda>i wl. wlcore_stop_queue wl i reason) [0..<NUM_TX_QUEUES] wl"

definition wlcore_wake_queues :: "wl1271 \<Rightarrow> wlcore_queue_stop_reason \<Rightarrow> wl1271" where
  "wlcore_wake_queues wl reason =
     fold (\<lambda>i wl. wlcore_wake_queue wl i reason) [0..<NUM_TX_QUEUES] wl"

definition reset_stopped_queue :: "nat \<Rightarrow> wl1271 \<Rightarrow> wl1271" where
  "reset_stopped_queue i wl =
     (if queue_stop_reasons wl i = {} then wl
      else emit (C_wake_queue (wl1271_tx_get_mac80211_queue i))
             (wl\<lparr>queue_stop_reasons := (queue_stop_reasons wl)(i := {})\<rparr>))"

definition wlcore_reset_stopped_queues :: "wl1271 \<Rightarrow> wl1271" where
  "wlcore_reset_stopped_queues wl = fold reset_stopped_queue [0..<NUM_TX_QUEUES] wl"

definition low_watermark_queue :: "nat \<Rightarrow> wl1271 \<Rightarrow> wl1271" where
  "low_watermark_queue i wl =
     (if wlcore_is_queue_stopped_by_reason wl i WLCORE_QUEUE_STOP_REASON_WATERMARK
         \<and> tx_queue_count wl i \<le> WL1271_TX_QUEUE_LOW_WATERMARK
      then wlcore_wake_queue wl i WLCORE_QUEUE_STOP_REASON_WATERMARK else wl)"

definition wl1271_handle_tx_low_watermark :: "wl1271 \<Rightarrow> wl1271" where
  "wl1271_handle_tx_low_watermark wl = fold low_watermark_queue [0..<NUM_TX_QUEUES] wl"

section \<open>The link of a packet\<close>

definition wl12xx_is_dummy_packet :: "wl1271 \<Rightarrow> skb_ptr \<Rightarrow> bool" where
  "wl12xx_is_dummy_packet wl p \<longleftrightarrow> dummy_packet wl = p"

definition wl12xx_tx_get_hlid_ap ::
  "wl1271 \<Rightarrow> vif_ptr \<Rightarrow> skb_ptr \<Rightarrow> nat option \<Rightarrow> nat" where
  "wl12xx_tx_get_hlid_ap wl v p sta =
     (case sta of
        Some hlid \<Rightarrow> hlid
      | None \<Rightarrow>
          if WLVIF_FLAG_AP_STARTED \<notin> vif_flags (vifs wl v) then system_hlid wl
          else if is_multicast_ether_addr (ieee80211_get_DA (skbs wl p))
               then ap_bcast_hlid (vifs wl v) else ap_global_hlid (vifs wl v))"

definition wl12xx_tx_get_hlid ::
  "wl1271 \<Rightarrow> vif_ptr option \<Rightarrow> skb_ptr \<Rightarrow> nat option \<Rightarrow> nat" where
  "wl12xx_tx_get_hlid wl wlvif p sta =
     (case wlvif of
        None \<Rightarrow> system_hlid wl
      | Some v \<Rightarrow>
          if wl12xx_is_dummy_packet wl p then system_hlid wl
          else if vif_bss_type (vifs wl v) = BSS_TYPE_AP_BSS then wl12xx_tx_get_hlid_ap wl v p sta
          else if IEEE80211_TX_CTL_TX_OFFCHAN \<in> ti_flags (skb_info (skbs wl p))
               then dev_hlid (vifs wl v)
          else sta_hlid (vifs wl v))"

section \<open>Accepting a packet from mac80211\<close>

definition wl1271_op_tx_drop :: "wl1271 \<Rightarrow> skb_ptr \<Rightarrow> bool" where
  "wl1271_op_tx_drop wl p =
     (let info = skb_info (skbs wl p); q = skb_ac wl p;
          hlid = wl12xx_tx_get_hlid wl (ti_vif info) p (ti_sta info)
      in hlid = WL12XX_INVALID_LINK_ID
         \<or> (case ti_vif info of Some v \<Rightarrow> hlid \<notin> vif_links_map (vifs wl v) | None \<Rightarrow> False)
         \<or> (wlcore_is_queue_stopped wl q
            \<and> \<not> wlcore_is_queue_stopped_by_reason wl q WLCORE_QUEUE_STOP_REASON_WATERMARK))"

definition wl1271_op_tx :: "wl1271 \<Rightarrow> skb_ptr \<Rightarrow> wl1271" where
  "wl1271_op_tx wl p =
     (let info = skb_info (skbs wl p); q = skb_ac wl p;
          hlid = wl12xx_tx_get_hlid wl (ti_vif info) p (ti_sta info)
      in if wl1271_op_tx_drop wl p then emit (C_free_txskb p) wl
         else
           let wl1 = upd_link hlid
                       (\<lambda>l. l\<lparr>tx_queue := (tx_queue l)(q := tx_queue l q @ [p])\<rparr>) wl;
               wl2 = wl1\<lparr>tx_queue_count := (tx_queue_count wl1)(q := tx_queue_count wl1 q + 1)\<rparr>;
               wl3 = (if WL1271_TX_QUEUE_HIGH_WATERMARK \<le> tx_queue_count wl2 q
                         \<and> \<not> wlcore_is_queue_stopped_by_reason wl2 q
                               WLCORE_QUEUE_STOP_REASON_WATERMARK
                      then wlcore_stop_queue_locked wl2 q WLCORE_QUEUE_STOP_REASON_WATERMARK
                      else wl2)
           in if WL1271_FLAG_FW_TX_BUSY \<notin> wl_flags wl3 \<and> WL1271_FLAG_TX_PENDING \<notin> wl_flags wl3
              then emit (C_queue_work TX_WORK) wl3 else wl3)"

section \<open>Choosing what to transmit\<close>

text \<open>
  One step of the loop over the access categories keeps the best queue so far with its packet
  count, which starts at \<open>0xffffffff\<close>.
\<close>

definition select_step ::
  "wl1271 \<Rightarrow> (nat \<Rightarrow> skb_ptr list) \<Rightarrow> nat \<Rightarrow> nat option \<times> u32 \<Rightarrow> nat option \<times> u32" where
  "select_step wl queues i best =
     (let ac = wl1271_tx_get_queue i
      in if queues ac \<noteq> [] \<and> tx_allocated_pkts wl ac < snd best
         then (Some ac, tx_allocated_pkts wl ac) else best)"

definition wl1271_select_queue :: "wl1271 \<Rightarrow> (nat \<Rightarrow> skb_ptr list) \<Rightarrow> nat option" where
  "wl1271_select_queue wl queues =
     fst (fold (select_step wl queues) [0..<NUM_TX_QUEUES] (None, 0xffffffff))"

definition queue_count_dec :: "nat \<Rightarrow> wl1271 \<Rightarrow> wl1271" where
  "queue_count_dec q wl =
     (let wl1 = (if tx_queue_count wl q \<le> 0 then emit C_warn wl else wl)
      in wl1\<lparr>tx_queue_count := (tx_queue_count wl1)(q := tx_queue_count wl1 q - 1)\<rparr>)"

definition wl12xx_lnk_skb_dequeue :: "wl1271 \<Rightarrow> nat \<Rightarrow> skb_ptr option \<times> wl1271" where
  "wl12xx_lnk_skb_dequeue wl h =
     (case wl1271_select_queue wl (tx_queue (links wl h)) of
        None \<Rightarrow> (None, wl)
      | Some ac \<Rightarrow>
          (case tx_queue (links wl h) ac of
             [] \<Rightarrow> (None, wl)
           | p # ps \<Rightarrow>
               (Some p, queue_count_dec (skb_ac wl p)
                  (upd_link h (\<lambda>l. l\<lparr>tx_queue := (tx_queue l)(ac := ps)\<rparr>) wl))))"

fun scan_links :: "vif_ptr \<Rightarrow> nat list \<Rightarrow> wl1271 \<Rightarrow> (skb_ptr \<times> nat) option \<times> wl1271" where
  "scan_links v [] wl = (None, wl)"
| "scan_links v (h # hs) wl =
     (if h \<notin> vif_links_map (vifs wl v) then scan_links v hs wl
      else case wl12xx_lnk_skb_dequeue wl h of
             (None, wl1) \<Rightarrow> scan_links v hs wl1
           | (Some p, wl1) \<Rightarrow> (Some (p, h), wl1))"

definition link_order :: "nat \<Rightarrow> nat list" where
  "link_order last_hlid =
     (let start_hlid = (last_hlid + 1) mod WL12XX_MAX_LINKS
      in map (\<lambda>i. (start_hlid + i) mod WL12XX_MAX_LINKS) [0..<WL12XX_MAX_LINKS])"

definition wl12xx_vif_skb_dequeue :: "wl1271 \<Rightarrow> vif_ptr \<Rightarrow> (skb_ptr \<times> nat) option \<times> wl1271" where
  "wl12xx_vif_skb_dequeue wl v =
     (case scan_links v (link_order (last_tx_hlid (vifs wl v))) wl of
        (Some (p, h), wl1) \<Rightarrow> (Some (p, h), upd_vif v (\<lambda>vf. vf\<lparr>last_tx_hlid := h\<rparr>) wl1)
      | (None, wl1) \<Rightarrow> (None, upd_vif v (\<lambda>vf. vf\<lparr>last_tx_hlid := 0\<rparr>) wl1))"

text \<open>
  The first pass visits the interfaces after \<open>last_wlvif\<close>, the second one starts over and
  ends at \<open>last_wlvif\<close>.
\<close>

fun continue_pass :: "vif_ptr list \<Rightarrow> wl1271 \<Rightarrow> (skb_ptr \<times> nat) option \<times> wl1271" where
  "continue_pass [] wl = (None, wl)"
| "continue_pass (v # vs) wl =
     (case wl12xx_vif_skb_dequeue wl v of
        (Some r, wl1) \<Rightarrow> (Some r, wl1\<lparr>last_wlvif := Some v\<rparr>)
      | (None, wl1) \<Rightarrow> continue_pass vs wl1)"

fun new_pass :: "vif_ptr list \<Rightarrow> wl1271 \<Rightarrow> (skb_ptr \<times> nat) option \<times> wl1271" where
  "new_pass [] wl = (None, wl)"
| "new_pass (v # vs) wl =
     (case wl12xx_vif_skb_dequeue wl v of
        (Some r, wl1) \<Rightarrow> (Some r, wl1\<lparr>last_wlvif := Some v\<rparr>)
      | (None, wl1) \<Rightarrow> if last_wlvif wl1 = Some v then (None, wl1) else new_pass vs wl1)"

definition vifs_after :: "vif_ptr option \<Rightarrow> vif_ptr list \<Rightarrow> vif_ptr list" where
  "vifs_after v vs = (case v of None \<Rightarrow> [] | Some x \<Rightarrow> tl (dropWhile (\<lambda>y. y \<noteq> x) vs))"

definition dequeue_dummy :: "wl1271 \<Rightarrow> (skb_ptr \<times> nat) option \<times> wl1271" where
  "dequeue_dummy wl =
     (if WL1271_FLAG_DUMMY_PACKET_PENDING \<in> wl_flags wl then
        (Some (dummy_packet wl, system_hlid wl),
         queue_count_dec (skb_ac wl (dummy_packet wl))
           (clear_flag WL1271_FLAG_DUMMY_PACKET_PENDING wl))
      else (None, wl))"

text \<open>The system link comes before the restarted interface list, the dummy packet last.\<close>

definition dequeue_restart :: "wl1271 \<Rightarrow> (skb_ptr \<times> nat) option \<times> wl1271" where
  "dequeue_restart wl =
     (case wl12xx_lnk_skb_dequeue wl (system_hlid wl) of
        (Some p, wl1) \<Rightarrow> (Some (p, system_hlid wl), wl1)
      | (None, wl1) \<Rightarrow>
          (case new_pass (wlvif_list wl1) wl1 of
             (Some r, wl2) \<Rightarrow> (Some r, wl2)
           | (None, wl2) \<Rightarrow> dequeue_dummy wl2))"

definition wl1271_skb_dequeue :: "wl1271 \<Rightarrow> (skb_ptr \<times> nat) option \<times> wl1271" where
  "wl1271_skb_dequeue wl =
     (case continue_pass (vifs_after (last_wlvif wl) (wlvif_list wl)) wl of
        (Some r, wl1) \<Rightarrow> (Some r, wl1)
      | (None, wl1) \<Rightarrow> dequeue_restart wl1)"

text \<open>
  Putting a packet back. The code writes \<open>wlvif->last_tx_hlid\<close> without checking the pointer; a
  packet with no interface, which the caller hands over as a null \<open>wlvif\<close>, makes that a null
  dereference.
\<close>

definition wl1271_skb_queue_head :: "wl1271 \<Rightarrow> vif_ptr option \<Rightarrow> skb_ptr \<Rightarrow> nat \<Rightarrow> wl1271" where
  "wl1271_skb_queue_head wl wlvif p hlid =
     (let q = skb_ac wl p;
          wl1 = (if wl12xx_is_dummy_packet wl p then set_flag WL1271_FLAG_DUMMY_PACKET_PENDING wl
                 else
                   let wl0 = upd_link hlid
                               (\<lambda>l. l\<lparr>tx_queue := (tx_queue l)(q := p # tx_queue l q)\<rparr>) wl
                   in case wlvif of
                        Some v \<Rightarrow>
                          upd_vif v (\<lambda>vf. vf\<lparr>last_tx_hlid :=
                            (hlid + WL12XX_MAX_LINKS - 1) mod WL12XX_MAX_LINKS\<rparr>) wl0
                      | None \<Rightarrow> emit C_oops wl0)
      in wl1\<lparr>tx_queue_count := (tx_queue_count wl1)(q := tx_queue_count wl1 q + 1)\<rparr>)"

section \<open>Dropping the packets of a link\<close>

definition status_failed :: "ieee80211_tx_info \<Rightarrow> ieee80211_tx_info" where
  "status_failed info = info\<lparr>st_rate_idx := -1, st_rate_count := 0\<rparr>"

definition drop_one :: "skb_ptr \<Rightarrow> wl1271 \<Rightarrow> wl1271" where
  "drop_one p wl =
     (if wl12xx_is_dummy_packet wl p then wl
      else emit (C_tx_status p)
             (upd_skb p (\<lambda>s. s\<lparr>skb_info := status_failed (skb_info s)\<rparr>) wl))"

text \<open>
  The driver empties a link's queues in two places, here and when a station falls asleep
  (\<open>wl1271_ps_filter_frames\<close>); the loops are the same and differ in what happens to a packet.
\<close>

definition drain_queue :: "(skb_ptr \<Rightarrow> wl1271 \<Rightarrow> wl1271) \<Rightarrow> nat \<Rightarrow> nat \<Rightarrow> wl1271 \<Rightarrow> wl1271" where
  "drain_queue one hlid i wl =
     fold one (tx_queue (links wl hlid) i)
       (upd_link hlid (\<lambda>l. l\<lparr>tx_queue := (tx_queue l)(i := [])\<rparr>) wl)"

definition drain_link :: "(skb_ptr \<Rightarrow> wl1271 \<Rightarrow> wl1271) \<Rightarrow> wl1271 \<Rightarrow> nat \<Rightarrow> wl1271" where
  "drain_link one wl hlid =
     (let total = (\<lambda>i. int (length (tx_queue (links wl hlid) i)));
          wl1 = fold (drain_queue one hlid) [0..<NUM_TX_QUEUES] wl;
          wl2 = wl1\<lparr>tx_queue_count :=
                      (\<lambda>i. if i < NUM_TX_QUEUES then tx_queue_count wl1 i - total i
                           else tx_queue_count wl1 i)\<rparr>
      in wl1271_handle_tx_low_watermark wl2)"

definition wl1271_tx_reset_link_queues :: "wl1271 \<Rightarrow> nat \<Rightarrow> wl1271" where
  "wl1271_tx_reset_link_queues wl hlid = drain_link drop_one wl hlid"

section \<open>Access categories are numbered consistently\<close>

lemma get_queue_less [simp]: "wl1271_tx_get_queue m < NUM_TX_QUEUES"
  by (simp add: wl1271_tx_get_queue_def)

lemma get_mac80211_queue_less [simp]: "wl1271_tx_get_mac80211_queue q < NUM_TX_QUEUES"
  by (simp add: wl1271_tx_get_mac80211_queue_def)

lemma skb_ac_less [simp]: "skb_ac wl p < NUM_TX_QUEUES"
  by (simp add: skb_ac_def)

lemma less_4_cases: "(q::nat) < 4 \<Longrightarrow> q = 0 \<or> q = 1 \<or> q = 2 \<or> q = 3"
  by linarith

lemma get_queue_mac80211_queue: "q < NUM_TX_QUEUES \<Longrightarrow> wl1271_tx_get_queue (wl1271_tx_get_mac80211_queue q) = q"
  by (auto simp: wl1271_tx_get_queue_def wl1271_tx_get_mac80211_queue_def dest!: less_4_cases)

lemma get_mac80211_queue_inj:
  "q < NUM_TX_QUEUES \<Longrightarrow> r < NUM_TX_QUEUES \<Longrightarrow>
   wl1271_tx_get_mac80211_queue q = wl1271_tx_get_mac80211_queue r \<longleftrightarrow> q = r"
  by (metis get_queue_mac80211_queue)

lemma upt_4: "[0..<NUM_TX_QUEUES] = [0, 1, 2, 3]"
  by (simp add: upt_rec)

section \<open>The reasons agree with mac80211\<close>

text \<open>
  \<open>mac_stopped l m\<close>: after the calls \<open>l\<close>, mac80211's queue \<open>m\<close> is stopped, that is the last stop or
  wake call for it was a stop.
\<close>

definition mac_effect :: "nat \<Rightarrow> wl_call \<Rightarrow> bool \<Rightarrow> bool" where
  "mac_effect m c b =
     (if c = C_stop_queue m then True else if c = C_wake_queue m then False else b)"

definition mac_stopped :: "wl_call list \<Rightarrow> nat \<Rightarrow> bool" where
  "mac_stopped l m = fold (mac_effect m) l False"

definition stop_view_ok :: "wl1271 \<Rightarrow> bool" where
  "stop_view_ok wl \<longleftrightarrow>
     (\<forall>q<NUM_TX_QUEUES. mac_stopped (log wl) (wl1271_tx_get_mac80211_queue q)
                          = wlcore_is_queue_stopped wl q)"

lemma mac_stopped_snoc [simp]: "mac_stopped (l @ [c]) m = mac_effect m c (mac_stopped l m)"
  by (simp add: mac_stopped_def)

lemma mac_stopped_other:
  "(\<And>m. C_stop_queue m \<notin> set l \<and> C_wake_queue m \<notin> set l) \<Longrightarrow>
   mac_stopped (k @ l) m = mac_stopped k m"
proof (induction l rule: rev_induct)
  case (snoc c l)
  have "c \<noteq> C_stop_queue m" "c \<noteq> C_wake_queue m" using snoc.prems [of m] by auto
  then have "mac_effect m c b = b" for b by (simp add: mac_effect_def)
  with snoc show ?case by (simp add: append_assoc [symmetric] del: append_assoc)
qed simp

lemma mac_effect_simps [simp]:
  "mac_effect m (C_stop_queue n) b = (m = n \<or> b)"
  "mac_effect m (C_wake_queue n) b = (m \<noteq> n \<and> b)"
  "c \<noteq> C_stop_queue m \<Longrightarrow> c \<noteq> C_wake_queue m \<Longrightarrow> mac_effect m c b = b"
  by (auto simp: mac_effect_def)

lemma stop_view_ok_stop:
  "stop_view_ok wl \<Longrightarrow> q < NUM_TX_QUEUES \<Longrightarrow> stop_view_ok (wlcore_stop_queue_locked wl q r)"
  by (auto simp: stop_view_ok_def wlcore_stop_queue_locked_def Let_def emit_def
      wlcore_is_queue_stopped_def get_mac80211_queue_inj)

lemma stop_view_ok_wake:
  "stop_view_ok wl \<Longrightarrow> q < NUM_TX_QUEUES \<Longrightarrow> stop_view_ok (wlcore_wake_queue wl q r)"
  by (auto simp: stop_view_ok_def wlcore_wake_queue_def Let_def emit_def
      wlcore_is_queue_stopped_def get_mac80211_queue_inj)

lemma stop_view_ok_reset:
  "stop_view_ok wl \<Longrightarrow> q < NUM_TX_QUEUES \<Longrightarrow> stop_view_ok (reset_stopped_queue q wl)"
  by (auto simp: stop_view_ok_def reset_stopped_queue_def emit_def
      wlcore_is_queue_stopped_def get_mac80211_queue_inj)

lemma stop_view_ok_emit:
  "stop_view_ok wl \<Longrightarrow> (\<forall>m. c \<noteq> C_stop_queue m \<and> c \<noteq> C_wake_queue m) \<Longrightarrow> stop_view_ok (emit c wl)"
  by (auto simp: stop_view_ok_def emit_def wlcore_is_queue_stopped_def)

lemma stop_view_ok_low_watermark:
  "stop_view_ok wl \<Longrightarrow> stop_view_ok (wl1271_handle_tx_low_watermark wl)"
  unfolding wl1271_handle_tx_low_watermark_def
  by (rule fold_invariant_list) (auto simp: low_watermark_queue_def intro: stop_view_ok_wake)

lemma stop_view_ok_cong:
  "queue_stop_reasons wl' = queue_stop_reasons wl \<Longrightarrow> log wl' = log wl \<Longrightarrow>
   stop_view_ok wl' = stop_view_ok wl"
  by (simp add: stop_view_ok_def wlcore_is_queue_stopped_def)

lemma stop_view_ok_op_tx: "stop_view_ok wl \<Longrightarrow> stop_view_ok (wl1271_op_tx wl p)"
proof -
  assume ok: "stop_view_ok wl"
  have 1: "stop_view_ok (wl\<lparr>links := l, tx_queue_count := c\<rparr>)" for l c
    using ok stop_view_ok_cong [of "wl\<lparr>links := l, tx_queue_count := c\<rparr>" wl] by simp
  show ?thesis
    by (simp add: wl1271_op_tx_def Let_def ok 1 stop_view_ok_emit stop_view_ok_stop upd_link_def)
qed

section \<open>Accounting for queued packets\<close>

text \<open>
  \<open>queued\<close> is the multiset of packets on the links' queues. \<open>queue_ok\<close> says that every packet
  sits on the queue of its access category and that the counters count: queue \<open>q\<close> has as many
  packets as its counter says, a pending dummy packet included.
\<close>

definition queued :: "wl1271 \<Rightarrow> skb_ptr multiset" where
  "queued wl = (\<Sum>h<WL12XX_MAX_LINKS. \<Sum>q<NUM_TX_QUEUES. mset (tx_queue (links wl h) q))"

definition queue_total :: "wl1271 \<Rightarrow> nat \<Rightarrow> nat" where
  "queue_total wl q = (\<Sum>h<WL12XX_MAX_LINKS. length (tx_queue (links wl h) q))"

definition dummy_count :: "wl1271 \<Rightarrow> nat \<Rightarrow> nat" where
  "dummy_count wl q =
     (if WL1271_FLAG_DUMMY_PACKET_PENDING \<in> wl_flags wl \<and> skb_ac wl (dummy_packet wl) = q
      then 1 else 0)"

definition well_placed :: "wl1271 \<Rightarrow> bool" where
  "well_placed wl \<longleftrightarrow>
     (\<forall>h<WL12XX_MAX_LINKS. \<forall>q<NUM_TX_QUEUES. \<forall>p\<in>set (tx_queue (links wl h) q). skb_ac wl p = q)"

definition counts_ok :: "wl1271 \<Rightarrow> bool" where
  "counts_ok wl \<longleftrightarrow>
     (\<forall>q<NUM_TX_QUEUES. tx_queue_count wl q = int (queue_total wl q + dummy_count wl q))"

definition queue_ok :: "wl1271 \<Rightarrow> bool" where
  "queue_ok wl \<longleftrightarrow> well_placed wl \<and> counts_ok wl"

text \<open>The links the transmit path may look at exist.\<close>

definition links_ok :: "wl1271 \<Rightarrow> bool" where
  "links_ok wl \<longleftrightarrow>
     system_hlid wl < WL12XX_MAX_LINKS \<and> (\<forall>v. vif_links_map (vifs wl v) \<subseteq> {..<WL12XX_MAX_LINKS})"

lemma queued_fun_upd:
  assumes "h < WL12XX_MAX_LINKS" and "q < NUM_TX_QUEUES"
  shows "queued (upd_link h (\<lambda>l. l\<lparr>tx_queue := (tx_queue l)(q := xs)\<rparr>) wl) + mset (tx_queue (links wl h) q)
         = queued wl + mset xs"
proof -
  define wl' where "wl' = upd_link h (\<lambda>l. l\<lparr>tx_queue := (tx_queue l)(q := xs)\<rparr>) wl"
  define f where "f wl h = (\<Sum>q<4. mset (tx_queue (links wl h) q))" for wl :: wl1271 and h
  have "f wl' h + mset (tx_queue (links wl h) q) = f wl h + mset (tx_queue (links wl' h) q)"
    unfolding f_def by (rule sum_differ_one [OF assms(2)]) (simp add: wl'_def upd_link_def)
  then have x: "f wl' h + mset (tx_queue (links wl h) q) = f wl h + mset xs"
    by (simp add: wl'_def upd_link_def)
  have "queued wl' + f wl h = queued wl + f wl' h"
    unfolding queued_def f_def
    by (rule sum_differ_one [OF assms(1)]) (simp add: wl'_def upd_link_def)
  then have "queued wl' + f wl h + mset (tx_queue (links wl h) q) = queued wl + (f wl h + mset xs)"
    using x by (simp add: add.assoc)
  then show ?thesis
    unfolding wl'_def by (simp add: ac_simps)
qed

lemma queue_total_fun_upd:
  assumes "h < WL12XX_MAX_LINKS"
  shows "queue_total (upd_link h (\<lambda>l. l\<lparr>tx_queue := (tx_queue l)(q := xs)\<rparr>) wl) r
         + (if r = q then length (tx_queue (links wl h) q) else 0)
         = queue_total wl r + (if r = q then length xs else 0)"
proof -
  define wl' where "wl' = upd_link h (\<lambda>l. l\<lparr>tx_queue := (tx_queue l)(q := xs)\<rparr>) wl"
  have "queue_total wl' r + length (tx_queue (links wl h) r)
      = queue_total wl r + length (tx_queue (links wl' h) r)"
    unfolding queue_total_def by (rule sum_differ_one [OF assms]) (simp add: wl'_def upd_link_def)
  then show ?thesis
    by (auto simp: wl'_def upd_link_def split: if_splits)
qed

text \<open>Nothing but the queues, their counters, the packets' queue mapping and the flag matters.\<close>

lemma queue_ok_cong:
  assumes "\<And>h q. h < WL12XX_MAX_LINKS \<Longrightarrow> q < NUM_TX_QUEUES \<Longrightarrow> tx_queue (links wl' h) q = tx_queue (links wl h) q"
    and "\<And>p. skb_ac wl' p = skb_ac wl p" and "dummy_packet wl' = dummy_packet wl"
    and "\<And>q. q < NUM_TX_QUEUES \<Longrightarrow> tx_queue_count wl' q = tx_queue_count wl q"
    and "WL1271_FLAG_DUMMY_PACKET_PENDING \<in> wl_flags wl' \<longleftrightarrow> WL1271_FLAG_DUMMY_PACKET_PENDING \<in> wl_flags wl"
  shows "queue_ok wl' = queue_ok wl" and "queued wl' = queued wl"
proof -
  have "queue_total wl' q = queue_total wl q" if "q < 4" for q
    unfolding queue_total_def using assms(1) that by (intro sum.cong) auto
  then show "queue_ok wl' = queue_ok wl"
    using assms by (simp add: queue_ok_def well_placed_def counts_ok_def dummy_count_def)
  show "queued wl' = queued wl"
    unfolding queued_def using assms(1) by (intro sum.cong refl) auto
qed

lemma queue_ok_nonneg: "queue_ok wl \<Longrightarrow> q < NUM_TX_QUEUES \<Longrightarrow> 0 \<le> tx_queue_count wl q"
  by (simp add: queue_ok_def counts_ok_def)

lemma queue_total_ge:
  "h < WL12XX_MAX_LINKS \<Longrightarrow> length (tx_queue (links wl h) q) \<le> queue_total wl q"
  unfolding queue_total_def by (rule member_le_sum) auto

lemma upd_link_selectors [simp]:
  "skbs (upd_link h f wl) = skbs wl" "dummy_packet (upd_link h f wl) = dummy_packet wl"
  "tx_queue_count (upd_link h f wl) = tx_queue_count wl" "wl_flags (upd_link h f wl) = wl_flags wl"
  "links (upd_link h f wl) = (links wl)(h := f (links wl h))"
  "log (upd_link h f wl) = log wl" "vifs (upd_link h f wl) = vifs wl"
  "system_hlid (upd_link h f wl) = system_hlid wl" "wlvif_list (upd_link h f wl) = wlvif_list wl"
  "last_wlvif (upd_link h f wl) = last_wlvif wl" "skb_ac (upd_link h f wl) = skb_ac wl"
  by (simp_all add: upd_link_def fun_eq_iff skb_ac_def)

lemma queue_count_update_simps [simp]:
  "queued (wl\<lparr>tx_queue_count := c\<rparr>) = queued wl"
  "queue_total (wl\<lparr>tx_queue_count := c\<rparr>) = queue_total wl"
  "dummy_count (wl\<lparr>tx_queue_count := c\<rparr>) = dummy_count wl"
  "well_placed (wl\<lparr>tx_queue_count := c\<rparr>) = well_placed wl"
  "skb_ac (wl\<lparr>tx_queue_count := c\<rparr>) = skb_ac wl"
  "dummy_count (upd_link h f wl) = dummy_count wl"
  by (simp_all add: queued_def queue_total_def dummy_count_def well_placed_def skb_ac_def fun_eq_iff)

section \<open>What dequeuing does\<close>

text \<open>Taking the first packet of a link's queue.\<close>

definition take_head :: "nat \<Rightarrow> nat \<Rightarrow> wl1271 \<Rightarrow> wl1271" where
  "take_head h ac wl =
     (upd_link h (\<lambda>l. l\<lparr>tx_queue := (tx_queue l)(ac := tl (tx_queue l ac))\<rparr>) wl)
       \<lparr>tx_queue_count := (tx_queue_count wl)(ac := tx_queue_count wl ac - 1)\<rparr>"

lemma select_queue_None:
  "wl1271_select_queue wl qs = None \<longleftrightarrow>
     (\<forall>q<NUM_TX_QUEUES. qs q = [] \<or> tx_allocated_pkts wl q = 0xffffffff)"
proof -
  have max: "\<not> a < 0xffffffff \<longleftrightarrow> a = (0xffffffff :: u32)" for a
  proof -
    have "a \<le> 0xffffffff" using unsigned_less [of a, where 'a = nat] by (simp add: word_le_nat_alt)
    then show ?thesis by (auto simp: not_less)
  qed
  have all4: "(\<forall>q<NUM_TX_QUEUES. P q) \<longleftrightarrow> P 3 \<and> P 2 \<and> P 0 \<and> P 1" for P
    by (auto dest: less_4_cases)
  show ?thesis
    unfolding all4
    by (auto simp: wl1271_select_queue_def upt_4 select_step_def Let_def wl1271_tx_get_queue_def max
        split: if_splits)
qed


lemma select_queue_Some:
  "wl1271_select_queue wl qs = Some q \<Longrightarrow> qs q \<noteq> [] \<and> q < NUM_TX_QUEUES"
proof -
  have "\<forall>q. fst (fold (select_step wl qs) [0..<NUM_TX_QUEUES] (None, 0xffffffff)) = Some q
          \<longrightarrow> qs q \<noteq> [] \<and> q < NUM_TX_QUEUES"
    by (rule fold_invariant_list) (auto simp: select_step_def Let_def split: if_splits)
  then show "wl1271_select_queue wl qs = Some q \<Longrightarrow> qs q \<noteq> [] \<and> q < NUM_TX_QUEUES"
    by (simp add: wl1271_select_queue_def)
qed

lemma lnk_dequeue_cases:
  assumes "queue_ok wl" and "h < WL12XX_MAX_LINKS"
  obtains (none) "wl12xx_lnk_skb_dequeue wl h = (None, wl)"
      "\<forall>q<NUM_TX_QUEUES. tx_queue (links wl h) q = [] \<or> tx_allocated_pkts wl q = 0xffffffff"
  | (some) p ac ps where "wl12xx_lnk_skb_dequeue wl h = (Some p, take_head h ac wl)"
      "wl1271_select_queue wl (tx_queue (links wl h)) = Some ac"
      "tx_queue (links wl h) ac = p # ps" "ac < NUM_TX_QUEUES"
proof (cases "wl1271_select_queue wl (tx_queue (links wl h))")
  case None
  then show ?thesis
    by (intro none) (simp_all add: wl12xx_lnk_skb_dequeue_def flip: select_queue_None)
next
  case (Some ac)
  then have ne: "tx_queue (links wl h) ac \<noteq> []" and ac: "ac < NUM_TX_QUEUES"
    using select_queue_Some by blast+
  then obtain p ps where ps: "tx_queue (links wl h) ac = p # ps" by (cases "tx_queue (links wl h) ac") auto
  then have pac: "skb_ac wl p = ac"
    using assms ac by (auto simp: queue_ok_def well_placed_def)
  have "0 < tx_queue_count wl ac"
    using assms ac ps queue_total_ge [OF assms(2), of wl ac]
    by (auto simp: queue_ok_def counts_ok_def)
  then have "wl12xx_lnk_skb_dequeue wl h = (Some p, take_head h ac wl)"
    using Some ps pac
    by (simp add: wl12xx_lnk_skb_dequeue_def queue_count_dec_def take_head_def upd_link_def)
  then show ?thesis using Some ps ac by (intro some)
qed

lemma queue_ok_take_head:
  assumes "queue_ok wl" and "h < WL12XX_MAX_LINKS" and "ac < NUM_TX_QUEUES"
    and "tx_queue (links wl h) ac = p # ps"
  shows "queue_ok (take_head h ac wl)" and "queued wl = add_mset p (queued (take_head h ac wl))"
proof -
  define wl1 where "wl1 = upd_link h (\<lambda>l. l\<lparr>tx_queue := (tx_queue l)(ac := ps)\<rparr>) wl"
  have eq: "take_head h ac wl = wl1\<lparr>tx_queue_count := (tx_queue_count wl)(ac := tx_queue_count wl ac - 1)\<rparr>"
    using assms(4) by (simp add: take_head_def wl1_def upd_link_def)
  have tot: "queue_total wl1 r + (if r = ac then 1 else 0) = queue_total wl r" for r
    using queue_total_fun_upd [OF assms(2), of ac ps wl r] assms(4)
    by (simp add: wl1_def split: if_splits)
  have "counts_ok (take_head h ac wl)"
    unfolding counts_ok_def eq
  proof (intro allI impI)
    fix q :: nat assume q: "q < 4"
    have "tx_queue_count wl q = int (queue_total wl q + dummy_count wl q)"
      using assms(1) q by (simp add: queue_ok_def counts_ok_def)
    moreover have "dummy_count wl1 q = dummy_count wl q" by (simp add: wl1_def)
    ultimately show "tx_queue_count (wl1\<lparr>tx_queue_count := (tx_queue_count wl)(ac := tx_queue_count wl ac - 1)\<rparr>) q
       = int (queue_total (wl1\<lparr>tx_queue_count := (tx_queue_count wl)(ac := tx_queue_count wl ac - 1)\<rparr>) q
              + dummy_count (wl1\<lparr>tx_queue_count := (tx_queue_count wl)(ac := tx_queue_count wl ac - 1)\<rparr>) q)"
      using tot [of q] by (auto split: if_splits)
  qed
  moreover have "well_placed (take_head h ac wl)"
    using assms(1,4) by (auto simp: queue_ok_def well_placed_def take_head_def upd_link_def skb_ac_def)
  ultimately show "queue_ok (take_head h ac wl)" by (simp add: queue_ok_def)
  have "queued (take_head h ac wl) = queued wl1" by (simp add: eq queued_def)
  then show "queued wl = add_mset p (queued (take_head h ac wl))"
    using queued_fun_upd [OF assms(2,3), of ps wl] assms(4) by (simp add: wl1_def)
qed

text \<open>
  \<open>idle_link wl h\<close>: nothing can be taken from link \<open>h\<close>. A queue whose firmware counter has
  reached \<open>0xffffffff\<close> is never chosen.
\<close>

definition idle_link :: "wl1271 \<Rightarrow> nat \<Rightarrow> bool" where
  "idle_link wl h \<longleftrightarrow>
     (\<forall>q<NUM_TX_QUEUES. tx_queue (links wl h) q = [] \<or> tx_allocated_pkts wl q = 0xffffffff)"

text \<open>
  \<open>scan_found v hs wl xs h ac\<close>: link \<open>h\<close> is the first one of \<open>hs\<close> with a packet, after the idle
  links \<open>xs\<close>, and \<open>ac\<close> its chosen queue.
\<close>

definition scan_found ::
  "vif_ptr \<Rightarrow> nat list \<Rightarrow> wl1271 \<Rightarrow> nat list \<Rightarrow> nat \<Rightarrow> nat \<Rightarrow> bool" where
  "scan_found v hs wl xs h ac \<longleftrightarrow>
     (\<exists>ys. hs = xs @ h # ys) \<and> (\<forall>x\<in>set xs. x \<in> vif_links_map (vifs wl v) \<longrightarrow> idle_link wl x)
     \<and> h \<in> vif_links_map (vifs wl v) \<and> tx_queue (links wl h) ac \<noteq> [] \<and> ac < NUM_TX_QUEUES
     \<and> wl1271_select_queue wl (tx_queue (links wl h)) = Some ac
     \<and> scan_links v hs wl = (Some (hd (tx_queue (links wl h) ac), h), take_head h ac wl)"

lemma scan_found_skip:
  "scan_links v (x # hs) wl = scan_links v hs wl \<Longrightarrow>
   x \<in> vif_links_map (vifs wl v) \<longrightarrow> idle_link wl x \<Longrightarrow>
   scan_found v hs wl xs h ac \<Longrightarrow> scan_found v (x # hs) wl (x # xs) h ac"
  unfolding scan_found_def by auto

lemma scan_links_spec:
  assumes "queue_ok wl" and "set hs \<subseteq> {..<WL12XX_MAX_LINKS}"
  shows "scan_links v hs wl = (None, wl)
         \<and> (\<forall>h\<in>set hs. h \<in> vif_links_map (vifs wl v) \<longrightarrow> idle_link wl h)
     \<or> (\<exists>xs h ac. scan_found v hs wl xs h ac)"
  using assms(2)
proof (induction hs)
  case (Cons h hs)
  have skip: ?case
    if step: "scan_links v (h # hs) wl = scan_links v hs wl"
      and idle: "h \<in> vif_links_map (vifs wl v) \<longrightarrow> idle_link wl h"
    using Cons.IH Cons.prems idle step scan_found_skip [OF step idle]
    by (simp del: scan_links.simps) blast
  show ?case
  proof (cases "h \<in> vif_links_map (vifs wl v)")
    case True
    have "h < WL12XX_MAX_LINKS" using Cons.prems by simp
    from assms(1) this show ?thesis
    proof (cases rule: lnk_dequeue_cases)
      case none
      then show ?thesis using True by (intro skip) (simp_all add: idle_link_def)
    next
      case (some p ac ps)
      then have "scan_found v (h # hs) wl [] h ac" using True by (simp add: scan_found_def)
      then show ?thesis by blast
    qed
  next
    case False
    then show ?thesis by (intro skip) simp_all
  qed
qed simp

lemma set_link_order: "set (link_order l) = {..<WL12XX_MAX_LINKS}"
proof -
  have "h \<in> set (link_order l)" if "h < 12" for h
  proof -
    let ?s = "(l + 1) mod 12"
    have "h = (?s + (h + 12 - ?s) mod 12) mod 12"
    proof -
      have "(?s + (h + 12 - ?s) mod 12) mod 12 = (?s + (h + 12 - ?s)) mod 12"
        by (rule mod_add_right_eq)
      moreover have "?s \<le> h + 12" by (rule order_trans [of _ 12]) simp_all
      ultimately show ?thesis using that by simp
    qed
    then show ?thesis
      unfolding link_order_def Let_def set_map by (rule image_eqI) simp
  qed
  then show ?thesis by (auto simp: link_order_def Let_def)
qed

text \<open>
  The round-robin cursors only steer the choice of the next packet. \<open>rr_eq a b\<close>: the states
  agree in everything else.
\<close>

definition rr_erase :: "wl1271 \<Rightarrow> wl1271" where
  "rr_erase wl = wl\<lparr>last_wlvif := None, vifs := (\<lambda>v. (vifs wl v)\<lparr>last_tx_hlid := 0\<rparr>)\<rparr>"

definition rr_eq :: "wl1271 \<Rightarrow> wl1271 \<Rightarrow> bool" where
  "rr_eq a b \<longleftrightarrow> rr_erase a = rr_erase b"

lemma rr_eq_refl [simp, intro]: "rr_eq a a"
  by (simp add: rr_eq_def)

lemma rr_eq_sym: "rr_eq a b \<Longrightarrow> rr_eq b a"
  by (simp add: rr_eq_def)

lemma rr_eq_trans [trans]: "rr_eq a b \<Longrightarrow> rr_eq b c \<Longrightarrow> rr_eq a c"
  by (simp add: rr_eq_def)

lemma rr_eq_cursor [simp]:
  "rr_eq (upd_vif v (\<lambda>vf. vf\<lparr>last_tx_hlid := h\<rparr>) wl) wl" "rr_eq (wl\<lparr>last_wlvif := x\<rparr>) wl"
  by (auto simp: rr_eq_def rr_erase_def upd_vif_def fun_eq_iff)

lemma rr_eq_ex: "rr_eq a b \<longleftrightarrow> (\<exists>l f. a = b\<lparr>last_wlvif := l, vifs := f\<rparr>
    \<and> (\<forall>v. (f v)\<lparr>last_tx_hlid := 0\<rparr> = (vifs b v)\<lparr>last_tx_hlid := 0\<rparr>))"
proof
  assume eq: "rr_eq a b"
  have "a = (rr_erase a)\<lparr>last_wlvif := last_wlvif a, vifs := vifs a\<rparr>" by (simp add: rr_erase_def)
  then have "a = (rr_erase b)\<lparr>last_wlvif := last_wlvif a, vifs := vifs a\<rparr>"
    using eq by (simp add: rr_eq_def)
  then have "a = b\<lparr>last_wlvif := last_wlvif a, vifs := vifs a\<rparr>" by (simp add: rr_erase_def)
  moreover have "vifs (rr_erase a) = vifs (rr_erase b)" using eq by (simp add: rr_eq_def)
  then have "\<forall>v. (vifs a v)\<lparr>last_tx_hlid := 0\<rparr> = (vifs b v)\<lparr>last_tx_hlid := 0\<rparr>"
    by (simp add: rr_erase_def fun_eq_iff)
  ultimately show "\<exists>l f. a = b\<lparr>last_wlvif := l, vifs := f\<rparr>
    \<and> (\<forall>v. (f v)\<lparr>last_tx_hlid := 0\<rparr> = (vifs b v)\<lparr>last_tx_hlid := 0\<rparr>)" by blast
next
  assume "\<exists>l f. a = b\<lparr>last_wlvif := l, vifs := f\<rparr>
    \<and> (\<forall>v. (f v)\<lparr>last_tx_hlid := 0\<rparr> = (vifs b v)\<lparr>last_tx_hlid := 0\<rparr>)"
  then show "rr_eq a b" by (auto simp: rr_eq_def rr_erase_def)
qed

lemma rr_eq_links_map: "rr_eq a b \<Longrightarrow> vif_links_map (vifs a v) = vif_links_map (vifs b v)"
proof -
  assume "rr_eq a b"
  then have "(vifs a v)\<lparr>last_tx_hlid := 0\<rparr> = (vifs b v)\<lparr>last_tx_hlid := 0\<rparr>"
    by (auto simp: rr_eq_ex)
  then have "vif_links_map ((vifs a v)\<lparr>last_tx_hlid := 0\<rparr>) = vif_links_map ((vifs b v)\<lparr>last_tx_hlid := 0\<rparr>)"
    by simp
  then show ?thesis by simp
qed

lemma rr_eq_queue:
  assumes "rr_eq a b"
  shows "queue_ok a = queue_ok b" and "queued a = queued b" and "idle_link a h = idle_link b h"
    and "links a = links b" and "wl_flags a = wl_flags b" and "dummy_packet a = dummy_packet b"
    and "system_hlid a = system_hlid b" and "wlvif_list a = wlvif_list b" and "log a = log b"
    and "skb_ac a = skb_ac b" and "tx_queue_count a = tx_queue_count b" and "skbs a = skbs b"
  using assms
  by (auto simp: rr_eq_ex queue_ok_def well_placed_def counts_ok_def queue_total_def dummy_count_def
      skb_ac_def queued_def idle_link_def fun_eq_iff)

lemma rr_eq_links_ok: "rr_eq a b \<Longrightarrow> links_ok a = links_ok b"
  using rr_eq_links_map [of a b] rr_eq_queue(7) [of a b] by (simp add: links_ok_def)

lemma rr_eq_take_head: "rr_eq a b \<Longrightarrow> rr_eq (take_head h ac a) (take_head h ac b)"
proof -
  assume "rr_eq a b"
  then obtain l f where "a = b\<lparr>last_wlvif := l, vifs := f\<rparr>"
    and "\<forall>v. (f v)\<lparr>last_tx_hlid := 0\<rparr> = (vifs b v)\<lparr>last_tx_hlid := 0\<rparr>" by (auto simp: rr_eq_ex)
  then show ?thesis by (simp add: rr_eq_def rr_erase_def take_head_def upd_link_def)
qed

text \<open>\<open>took wl r wl'\<close>: the packet and link \<open>r\<close> were taken from the head of a queue.\<close>

definition took :: "wl1271 \<Rightarrow> skb_ptr \<times> nat \<Rightarrow> wl1271 \<Rightarrow> bool" where
  "took wl r wl' \<longleftrightarrow>
     (\<exists>ac ps. snd r < WL12XX_MAX_LINKS \<and> ac < NUM_TX_QUEUES
        \<and> tx_queue (links wl (snd r)) ac = fst r # ps \<and> rr_eq wl' (take_head (snd r) ac wl))"

definition idle_vif :: "wl1271 \<Rightarrow> vif_ptr \<Rightarrow> bool" where
  "idle_vif wl v \<longleftrightarrow> (\<forall>h\<in>vif_links_map (vifs wl v). idle_link wl h)"

lemma took_rr_eq: "took wl1 r wl' \<Longrightarrow> rr_eq wl1 wl \<Longrightarrow> took wl r wl'"
  unfolding took_def using rr_eq_queue(4) rr_eq_take_head rr_eq_trans by metis

lemma took_cursor: "took wl r wl' \<Longrightarrow> rr_eq wl2 wl' \<Longrightarrow> took wl r wl2"
  unfolding took_def using rr_eq_trans by blast

lemma idle_vif_rr_eq: "rr_eq a b \<Longrightarrow> idle_vif a v = idle_vif b v"
  using rr_eq_links_map rr_eq_queue(3) by (simp add: idle_vif_def)

lemma take_head_selectors [simp]:
  "last_wlvif (take_head h ac wl) = last_wlvif wl" "vifs (take_head h ac wl) = vifs wl"
  "wl_flags (take_head h ac wl) = wl_flags wl" "log (take_head h ac wl) = log wl"
  "skbs (take_head h ac wl) = skbs wl" "dummy_packet (take_head h ac wl) = dummy_packet wl"
  "system_hlid (take_head h ac wl) = system_hlid wl"
  by (simp_all add: take_head_def upd_link_def)

lemma vif_dequeue_spec:
  assumes "queue_ok wl" and "links_ok wl"
  shows "(\<exists>wl'. wl12xx_vif_skb_dequeue wl v = (None, wl') \<and> rr_eq wl' wl \<and> idle_vif wl v
             \<and> last_wlvif wl' = last_wlvif wl)
     \<or> (\<exists>r wl'. wl12xx_vif_skb_dequeue wl v = (Some r, wl') \<and> took wl r wl'
             \<and> snd r \<in> vif_links_map (vifs wl v))"
proof -
  let ?hs = "link_order (last_tx_hlid (vifs wl v))"
  have "set ?hs \<subseteq> {..<WL12XX_MAX_LINKS}" by (simp add: set_link_order)
  from scan_links_spec [OF assms(1) this, of v] show ?thesis
  proof (elim disjE exE conjE)
    assume none: "scan_links v ?hs wl = (None, wl)"
      and idle: "\<forall>h\<in>set ?hs. h \<in> vif_links_map (vifs wl v) \<longrightarrow> idle_link wl h"
    have "idle_vif wl v"
      using idle assms(2) by (auto simp: set_link_order links_ok_def idle_vif_def)
    with none show ?thesis
      by (intro disjI1) (simp add: wl12xx_vif_skb_dequeue_def upd_vif_def [of v _ wl]
          rr_eq_cursor(1) [unfolded upd_vif_def])
  next
    fix xs h ac
    assume found: "scan_found v ?hs wl xs h ac"
    then obtain p ps where q: "tx_queue (links wl h) ac = p # ps" "ac < NUM_TX_QUEUES"
      and h: "h \<in> vif_links_map (vifs wl v)"
      by (auto simp: scan_found_def neq_Nil_conv)
    have r: "scan_links v ?hs wl = (Some (p, h), take_head h ac wl)"
      using found q by (simp add: scan_found_def)
    have "h < WL12XX_MAX_LINKS" using h assms(2) by (auto simp: links_ok_def)
    then have "took wl (p, h) (upd_vif v (\<lambda>vf. vf\<lparr>last_tx_hlid := h\<rparr>) (take_head h ac wl))"
      unfolding took_def using q by (auto intro!: exI [of _ ac])
    with r h show ?thesis by (simp add: wl12xx_vif_skb_dequeue_def)
  qed
qed

lemma continue_pass_spec:
  assumes "queue_ok wl" and "links_ok wl"
  shows "(\<exists>wl'. continue_pass vs wl = (None, wl') \<and> rr_eq wl' wl \<and> (\<forall>v\<in>set vs. idle_vif wl v)
             \<and> last_wlvif wl' = last_wlvif wl)
     \<or> (\<exists>r wl'. continue_pass vs wl = (Some r, wl') \<and> took wl r wl')"
  using assms
proof (induction vs arbitrary: wl)
  case (Cons v vs)
  from vif_dequeue_spec [OF Cons.prems, of v] show ?case
  proof (elim disjE exE conjE)
    fix wl1
    assume d: "wl12xx_vif_skb_dequeue wl v = (None, wl1)" and rr: "rr_eq wl1 wl"
      and idle: "idle_vif wl v" and last: "last_wlvif wl1 = last_wlvif wl"
    have ok: "queue_ok wl1" "links_ok wl1"
      using Cons.prems rr_eq_queue(1) [OF rr] rr_eq_links_ok [OF rr] by simp_all
    from Cons.IH [OF ok] show ?thesis
    proof (elim disjE exE conjE)
      fix wl' assume "continue_pass vs wl1 = (None, wl')" "rr_eq wl' wl1"
        "\<forall>v\<in>set vs. idle_vif wl1 v" "last_wlvif wl' = last_wlvif wl1"
      with d rr idle last show ?thesis
        by (intro disjI1 exI [of _ wl'])
          (auto intro: rr_eq_trans simp: idle_vif_rr_eq [OF rr])
    next
      fix r wl' assume "continue_pass vs wl1 = (Some r, wl')" "took wl1 r wl'"
      with d rr show ?thesis by (intro disjI2 exI [of _ r] exI [of _ wl']) (auto intro: took_rr_eq)
    qed
  next
    fix r wl' assume "wl12xx_vif_skb_dequeue wl v = (Some r, wl')" "took wl r wl'"
    then show ?thesis by (simp add: took_cursor [of wl r wl'])
  qed
qed simp

lemma new_pass_spec:
  assumes "queue_ok wl" and "links_ok wl"
  shows "(\<exists>wl'. new_pass vs wl = (None, wl') \<and> rr_eq wl' wl
             \<and> (\<forall>v\<in>set vs. idle_vif wl v \<or> v \<in> set (vifs_after (last_wlvif wl) vs)))
     \<or> (\<exists>r wl'. new_pass vs wl = (Some r, wl') \<and> took wl r wl')"
  using assms
proof (induction vs arbitrary: wl)
  case (Cons v vs)
  from vif_dequeue_spec [OF Cons.prems, of v] show ?case
  proof (elim disjE exE conjE)
    fix wl1
    assume d: "wl12xx_vif_skb_dequeue wl v = (None, wl1)" and rr: "rr_eq wl1 wl"
      and idle: "idle_vif wl v" and last: "last_wlvif wl1 = last_wlvif wl"
    have ok: "queue_ok wl1" "links_ok wl1"
      using Cons.prems rr_eq_queue(1) [OF rr] rr_eq_links_ok [OF rr] by simp_all
    show ?thesis
    proof (cases "last_wlvif wl = Some v")
      case True
      with d rr idle last show ?thesis
        by (intro disjI1 exI [of _ wl1]) (auto simp: vifs_after_def)
    next
      case False
      then have step: "new_pass (v # vs) wl = new_pass vs wl1"
        and after: "vifs_after (last_wlvif wl) (v # vs) = vifs_after (last_wlvif wl1) vs"
        using d last by (auto simp: vifs_after_def split: option.split)
      from Cons.IH [OF ok] show ?thesis
        unfolding step after
      proof (elim disjE exE conjE)
        fix wl' assume "new_pass vs wl1 = (None, wl')" "rr_eq wl' wl1"
          "\<forall>v\<in>set vs. idle_vif wl1 v \<or> v \<in> set (vifs_after (last_wlvif wl1) vs)"
        with rr idle show "(\<exists>wl'. new_pass vs wl1 = (None, wl') \<and> rr_eq wl' wl
             \<and> (\<forall>w\<in>set (v # vs). idle_vif wl w \<or> w \<in> set (vifs_after (last_wlvif wl1) vs)))
           \<or> (\<exists>r wl'. new_pass vs wl1 = (Some r, wl') \<and> took wl r wl')"
          by (intro disjI1 exI [of _ wl']) (auto intro: rr_eq_trans simp: idle_vif_rr_eq [OF rr])
      next
        fix r wl' assume "new_pass vs wl1 = (Some r, wl')" "took wl1 r wl'"
        with rr show "(\<exists>wl'. new_pass vs wl1 = (None, wl') \<and> rr_eq wl' wl
             \<and> (\<forall>w\<in>set (v # vs). idle_vif wl w \<or> w \<in> set (vifs_after (last_wlvif wl1) vs)))
           \<or> (\<exists>r wl'. new_pass vs wl1 = (Some r, wl') \<and> took wl r wl')"
          by (intro disjI2 exI [of _ r] exI [of _ wl']) (auto intro: took_rr_eq)
      qed
    qed
  next
    fix r wl' assume "wl12xx_vif_skb_dequeue wl v = (Some r, wl')" "took wl r wl'"
    then show ?thesis by (simp add: took_cursor [of wl r wl'])
  qed
qed simp

text \<open>
  What \<open>wl1271_skb_dequeue\<close> returns and leaves behind, in the accounting view. \<open>deq_result wl r wl'\<close>:
  nothing was left to send, or a packet was taken from a link, or the pending dummy packet was.
\<close>

definition idle_all :: "wl1271 \<Rightarrow> bool" where
  "idle_all wl \<longleftrightarrow> WL1271_FLAG_DUMMY_PACKET_PENDING \<notin> wl_flags wl \<and> idle_link wl (system_hlid wl)
     \<and> (\<forall>v\<in>set (wlvif_list wl). idle_vif wl v)"

definition took_dummy :: "wl1271 \<Rightarrow> wl1271 \<Rightarrow> bool" where
  "took_dummy wl wl' \<longleftrightarrow> WL1271_FLAG_DUMMY_PACKET_PENDING \<in> wl_flags wl
     \<and> rr_eq wl' (queue_count_dec (skb_ac wl (dummy_packet wl))
                    (clear_flag WL1271_FLAG_DUMMY_PACKET_PENDING wl))"

definition deq_result :: "wl1271 \<Rightarrow> (skb_ptr \<times> nat) option \<Rightarrow> wl1271 \<Rightarrow> bool" where
  "deq_result wl r wl' \<longleftrightarrow>
     (case r of
        None \<Rightarrow> rr_eq wl' wl \<and> idle_all wl
      | Some x \<Rightarrow> took wl x wl' \<or> x = (dummy_packet wl, system_hlid wl) \<and> took_dummy wl wl')"

lemma took_dummy_rr_eq:
  assumes "took_dummy wl1 wl'" and "rr_eq wl1 wl"
  shows "took_dummy wl wl'"
proof -
  note eq = rr_eq_queue [OF assms(2)]
  let ?f = "\<lambda>wl. queue_count_dec (skb_ac wl (dummy_packet wl))
                    (clear_flag WL1271_FLAG_DUMMY_PACKET_PENDING wl)"
  obtain l f where "wl1 = wl\<lparr>last_wlvif := l, vifs := f\<rparr>"
    and "\<forall>v. (f v)\<lparr>last_tx_hlid := 0\<rparr> = (vifs wl v)\<lparr>last_tx_hlid := 0\<rparr>"
    using assms(2) by (auto simp: rr_eq_ex)
  then have "rr_eq (?f wl1) (?f wl)"
    by (simp add: rr_eq_def rr_erase_def queue_count_dec_def clear_flag_def emit_def Let_def skb_ac_def)
  then show ?thesis
    using assms(1) eq(5) rr_eq_trans by (auto simp: took_dummy_def)
qed

lemma deq_result_rr_eq:
  assumes "deq_result wl1 r wl'" and "rr_eq wl1 wl"
    and "\<And>v. v \<in> set (wlvif_list wl) \<Longrightarrow> idle_vif wl1 v \<Longrightarrow> idle_vif wl v"
  shows "deq_result wl r wl'"
  using assms rr_eq_queue [OF assms(2)]
  by (auto simp: deq_result_def idle_all_def split: option.splits
      intro: rr_eq_trans took_rr_eq took_dummy_rr_eq)

lemma dequeue_dummy_spec:
  "(\<exists>wl'. dequeue_dummy wl = (None, wl') \<and> wl' = wl \<and> WL1271_FLAG_DUMMY_PACKET_PENDING \<notin> wl_flags wl)
   \<or> (\<exists>wl'. dequeue_dummy wl = (Some (dummy_packet wl, system_hlid wl), wl') \<and> took_dummy wl wl')"
  by (simp add: dequeue_dummy_def took_dummy_def)

lemma dequeue_restart_spec:
  assumes ok: "queue_ok wl" "links_ok wl"
    and after: "\<forall>v\<in>set (vifs_after (last_wlvif wl) (wlvif_list wl)). idle_vif wl v"
  shows "\<exists>r wl'. dequeue_restart wl = (r, wl') \<and> deq_result wl r wl'"
proof -
  have sys: "system_hlid wl < WL12XX_MAX_LINKS" using ok by (simp add: links_ok_def)
  from ok(1) sys show ?thesis
  proof (cases rule: lnk_dequeue_cases)
    case (some p ac ps)
    then have "took wl (p, system_hlid wl) (take_head (system_hlid wl) ac wl)"
      unfolding took_def using sys by (auto intro!: exI [of _ ac])
    then show ?thesis using some(1) by (simp add: dequeue_restart_def deq_result_def)
  next
    case none
    then have idle: "idle_link wl (system_hlid wl)" by (simp add: idle_link_def)
    from new_pass_spec [OF ok, of "wlvif_list wl"] show ?thesis
    proof (elim disjE exE conjE)
      fix wl2 assume np: "new_pass (wlvif_list wl) wl = (None, wl2)" and rr: "rr_eq wl2 wl"
        and "\<forall>v\<in>set (wlvif_list wl). idle_vif wl v \<or> v \<in> set (vifs_after (last_wlvif wl) (wlvif_list wl))"
      then have vifs: "\<forall>v\<in>set (wlvif_list wl). idle_vif wl v" using after by blast
      note eq = rr_eq_queue [OF rr]
      from dequeue_dummy_spec [of wl2] show ?thesis
      proof (elim disjE exE conjE)
        fix wl' assume "dequeue_dummy wl2 = (None, wl')" "wl' = wl2"
          "WL1271_FLAG_DUMMY_PACKET_PENDING \<notin> wl_flags wl2"
        then show ?thesis
          using none(1) np rr idle vifs eq(5)
          by (simp add: dequeue_restart_def deq_result_def idle_all_def)
      next
        fix wl' assume "dequeue_dummy wl2 = (Some (dummy_packet wl2, system_hlid wl2), wl')"
          "took_dummy wl2 wl'"
        then show ?thesis
          using none(1) np took_dummy_rr_eq [OF _ rr] eq(6,7)
          by (simp add: dequeue_restart_def deq_result_def)
      qed
    next
      fix r wl' assume "new_pass (wlvif_list wl) wl = (Some r, wl')" "took wl r wl'"
      then show ?thesis using none(1) by (simp add: dequeue_restart_def deq_result_def)
    qed
  qed
qed

lemma skb_dequeue_spec:
  assumes ok: "queue_ok wl" "links_ok wl"
  shows "\<exists>r wl'. wl1271_skb_dequeue wl = (r, wl') \<and> deq_result wl r wl'"
proof -
  let ?after = "vifs_after (last_wlvif wl) (wlvif_list wl)"
  from continue_pass_spec [OF ok, of ?after] show ?thesis
  proof (elim disjE exE conjE)
    fix r wl' assume "continue_pass ?after wl = (Some r, wl')" "took wl r wl'"
    then show ?thesis by (simp add: wl1271_skb_dequeue_def deq_result_def)
  next
    fix wl1 assume cp: "continue_pass ?after wl = (None, wl1)" and rr: "rr_eq wl1 wl"
      and idle: "\<forall>v\<in>set ?after. idle_vif wl v" and last: "last_wlvif wl1 = last_wlvif wl"
    note eq = rr_eq_queue [OF rr]
    have ok1: "queue_ok wl1" "links_ok wl1"
      using ok eq(1) rr_eq_links_ok [OF rr] by simp_all
    have "\<forall>v\<in>set (vifs_after (last_wlvif wl1) (wlvif_list wl1)). idle_vif wl1 v"
      using idle last eq(8) idle_vif_rr_eq [OF rr] by simp
    from dequeue_restart_spec [OF ok1 this] obtain r wl' where
      "dequeue_restart wl1 = (r, wl')" "deq_result wl1 r wl'" by blast
    then show ?thesis
      using cp deq_result_rr_eq [OF _ rr] idle_vif_rr_eq [OF rr] by (simp add: wl1271_skb_dequeue_def)
  qed
qed

text \<open>The consequences for the accounting.\<close>

lemma took_queue:
  assumes "took wl (p, h) wl'" and "queue_ok wl"
  shows "queue_ok wl'" and "queued wl = add_mset p (queued wl')" and "h < WL12XX_MAX_LINKS"
    and "wl_flags wl' = wl_flags wl" and "log wl' = log wl" and "skbs wl' = skbs wl"
    and "dummy_packet wl' = dummy_packet wl"
proof -
  obtain ac ps where h: "h < WL12XX_MAX_LINKS" and ac: "ac < NUM_TX_QUEUES"
    and q: "tx_queue (links wl h) ac = p # ps" and rr: "rr_eq wl' (take_head h ac wl)"
    using assms(1) by (auto simp: took_def)
  note eq = rr_eq_queue [OF rr]
  show "queue_ok wl'" and "queued wl = add_mset p (queued wl')" and "h < WL12XX_MAX_LINKS"
    and "wl_flags wl' = wl_flags wl" and "log wl' = log wl" and "skbs wl' = skbs wl"
    and "dummy_packet wl' = dummy_packet wl"
    using queue_ok_take_head [OF assms(2) h ac q] h eq by simp_all
qed

lemma took_dummy_queue:
  assumes "took_dummy wl wl'" and "queue_ok wl"
  shows "queue_ok wl'" and "queued wl' = queued wl" and "log wl' = log wl" and "skbs wl' = skbs wl"
    and "dummy_packet wl' = dummy_packet wl"
    and "wl_flags wl' = wl_flags wl - {WL1271_FLAG_DUMMY_PACKET_PENDING}"
proof -
  let ?q = "skb_ac wl (dummy_packet wl)"
  let ?w = "wl\<lparr>wl_flags := wl_flags wl - {WL1271_FLAG_DUMMY_PACKET_PENDING},
               tx_queue_count := (tx_queue_count wl)(?q := tx_queue_count wl ?q - 1)\<rparr>"
  have pend: "WL1271_FLAG_DUMMY_PACKET_PENDING \<in> wl_flags wl" using assms(1) by (simp add: took_dummy_def)
  then have "0 < tx_queue_count wl ?q"
    using assms(2) by (simp add: queue_ok_def counts_ok_def dummy_count_def)
  then have rr: "rr_eq wl' ?w"
    using assms(1) by (simp add: took_dummy_def queue_count_dec_def clear_flag_def)
  have "queue_ok ?w"
    using assms(2) pend
    by (auto simp: queue_ok_def counts_ok_def well_placed_def queue_total_def dummy_count_def skb_ac_def)
  with rr_eq_queue [OF rr]
  show "queue_ok wl'" and "queued wl' = queued wl" and "log wl' = log wl" and "skbs wl' = skbs wl"
    and "dummy_packet wl' = dummy_packet wl"
    and "wl_flags wl' = wl_flags wl - {WL1271_FLAG_DUMMY_PACKET_PENDING}"
    by (simp_all add: queued_def)
qed

section \<open>The other queue operations keep the accounts\<close>

lemma add_to_queue:
  assumes "queue_ok wl" and "h < WL12XX_MAX_LINKS" and "skb_ac wl p = q"
    and "set xs = insert p (set (tx_queue (links wl h) q))"
    and "mset xs = add_mset p (mset (tx_queue (links wl h) q))"
    and "wl' = (upd_link h (\<lambda>l. l\<lparr>tx_queue := (tx_queue l)(q := xs)\<rparr>) wl)
                 \<lparr>tx_queue_count := (tx_queue_count wl)(q := tx_queue_count wl q + 1)\<rparr>"
  shows "queue_ok wl'" and "queued wl' = add_mset p (queued wl)"
proof -
  have q: "q < NUM_TX_QUEUES" using assms(3) by auto
  define wl1 where "wl1 = upd_link h (\<lambda>l. l\<lparr>tx_queue := (tx_queue l)(q := xs)\<rparr>) wl"
  have wl': "wl' = wl1\<lparr>tx_queue_count := (tx_queue_count wl)(q := tx_queue_count wl q + 1)\<rparr>"
    unfolding assms(6) wl1_def by simp
  have len: "length xs = Suc (length (tx_queue (links wl h) q))"
    using assms(5) by (metis size_add_mset size_mset)
  have tot: "queue_total wl1 r = queue_total wl r + (if r = q then 1 else 0)" for r
    using queue_total_fun_upd [OF assms(2), of q xs wl r] len by (simp add: wl1_def split: if_splits)
  have "counts_ok wl'"
    unfolding counts_ok_def
  proof (intro allI impI)
    fix r :: nat assume "r < 4"
    then have "tx_queue_count wl r = int (queue_total wl r + dummy_count wl r)"
      using assms(1) by (simp add: queue_ok_def counts_ok_def)
    moreover have "dummy_count wl1 r = dummy_count wl r" by (simp add: wl1_def)
    ultimately show "tx_queue_count wl' r = int (queue_total wl' r + dummy_count wl' r)"
      using tot [of r] by (auto simp: wl' split: if_splits)
  qed
  moreover have "well_placed wl'"
    using assms(1,3,4) by (auto simp: wl' wl1_def queue_ok_def well_placed_def)
  ultimately show "queue_ok wl'" by (simp add: queue_ok_def)
  show "queued wl' = add_mset p (queued wl)"
    using queued_fun_upd [OF assms(2) q, of xs wl] assms(5) by (simp add: wl' wl1_def)
qed

lemma queue_ok_emit [simp]: "queue_ok (emit c wl) = queue_ok wl" "queued (emit c wl) = queued wl"
  by (rule queue_ok_cong; simp add: emit_def skb_ac_def)+

lemma queue_ok_stop_queue_locked [simp]:
  "queue_ok (wlcore_stop_queue_locked wl q r) = queue_ok wl"
  "queued (wlcore_stop_queue_locked wl q r) = queued wl"
  by (rule queue_ok_cong; simp add: wlcore_stop_queue_locked_def Let_def emit_def skb_ac_def)+

lemma queue_ok_wake_queue [simp]:
  "queue_ok (wlcore_wake_queue wl q r) = queue_ok wl"
  "queued (wlcore_wake_queue wl q r) = queued wl"
  by (rule queue_ok_cong; simp add: wlcore_wake_queue_def Let_def emit_def skb_ac_def)+

lemma queue_ok_low_watermark [simp]:
  "queue_ok (wl1271_handle_tx_low_watermark wl) = queue_ok wl"
  "queued (wl1271_handle_tx_low_watermark wl) = queued wl"
proof -
  have "queue_ok (wl1271_handle_tx_low_watermark wl) = queue_ok wl
      \<and> queued (wl1271_handle_tx_low_watermark wl) = queued wl"
    unfolding wl1271_handle_tx_low_watermark_def
    by (rule fold_invariant_list) (simp_all add: low_watermark_queue_def)
  then show "queue_ok (wl1271_handle_tx_low_watermark wl) = queue_ok wl"
    "queued (wl1271_handle_tx_low_watermark wl) = queued wl" by simp_all
qed

lemma get_hlid_less:
  assumes "links_ok wl" and "\<not> wl1271_op_tx_drop wl p"
  shows "wl12xx_tx_get_hlid wl (ti_vif (skb_info (skbs wl p))) p (ti_sta (skb_info (skbs wl p)))
         < WL12XX_MAX_LINKS"
proof (cases "ti_vif (skb_info (skbs wl p))")
  case None
  then show ?thesis using assms(1) by (simp add: links_ok_def wl12xx_tx_get_hlid_def)
next
  case (Some v)
  then have "wl12xx_tx_get_hlid wl (Some v) p (ti_sta (skb_info (skbs wl p))) \<in> vif_links_map (vifs wl v)"
    using assms(2) by (simp add: wl1271_op_tx_drop_def Let_def)
  then show ?thesis using assms(1) Some by (auto simp: links_ok_def)
qed

lemma op_tx_queue:
  assumes "queue_ok wl" and "links_ok wl"
  shows "queue_ok (wl1271_op_tx wl p)"
    and "queued (wl1271_op_tx wl p)
         = (if wl1271_op_tx_drop wl p then queued wl else add_mset p (queued wl))"
proof -
  let ?q = "skb_ac wl p"
  let ?h = "wl12xx_tx_get_hlid wl (ti_vif (skb_info (skbs wl p))) p (ti_sta (skb_info (skbs wl p)))"
  let ?wl2 = "(upd_link ?h (\<lambda>l. l\<lparr>tx_queue := (tx_queue l)(?q := tx_queue l ?q @ [p])\<rparr>) wl)
                 \<lparr>tx_queue_count := (tx_queue_count wl)(?q := tx_queue_count wl ?q + 1)\<rparr>"
  have add: "queue_ok ?wl2 \<and> queued ?wl2 = add_mset p (queued wl)" if "\<not> wl1271_op_tx_drop wl p"
    using add_to_queue [OF assms(1) get_hlid_less [OF assms(2) that] refl, of "tx_queue (links wl ?h) ?q @ [p]"]
    by (simp add: upd_link_def)
  show "queue_ok (wl1271_op_tx wl p)"
    using add assms(1) by (simp add: wl1271_op_tx_def Let_def)
  show "queued (wl1271_op_tx wl p)
         = (if wl1271_op_tx_drop wl p then queued wl else add_mset p (queued wl))"
    using add by (simp add: wl1271_op_tx_def Let_def)
qed

lemma queue_head_queue:
  assumes "queue_ok wl" and "h < WL12XX_MAX_LINKS" and "p \<noteq> dummy_packet wl"
  shows "queue_ok (wl1271_skb_queue_head wl v p h)"
    and "queued (wl1271_skb_queue_head wl v p h) = add_mset p (queued wl)"
proof -
  let ?q = "skb_ac wl p"
  let ?wl2 = "(upd_link h (\<lambda>l. l\<lparr>tx_queue := (tx_queue l)(?q := p # tx_queue l ?q)\<rparr>) wl)
                 \<lparr>tx_queue_count := (tx_queue_count wl)(?q := tx_queue_count wl ?q + 1)\<rparr>"
  have add: "queue_ok ?wl2 \<and> queued ?wl2 = add_mset p (queued wl)"
    using add_to_queue [OF assms(1,2) refl, of "p # tx_queue (links wl h) ?q"]
    by (simp add: upd_link_def)
  let ?wl3 = "wl1271_skb_queue_head wl v p h"
  have "links ?wl3 = links ?wl2" "skb_ac ?wl3 = skb_ac ?wl2" "dummy_packet ?wl3 = dummy_packet ?wl2"
    "tx_queue_count ?wl3 = tx_queue_count ?wl2" "wl_flags ?wl3 = wl_flags ?wl2"
    using assms(3)
    by (cases v; simp add: wl1271_skb_queue_head_def wl12xx_is_dummy_packet_def emit_def upd_vif_def
        Let_def skb_ac_def fun_eq_iff)+
  then have "queue_ok ?wl3 = queue_ok ?wl2" "queued ?wl3 = queued ?wl2"
    by (intro queue_ok_cong; simp)+
  then show "queue_ok (wl1271_skb_queue_head wl v p h)"
    and "queued (wl1271_skb_queue_head wl v p h) = add_mset p (queued wl)"
    using add by simp_all
qed

lemma queue_head_dummy_queue:
  assumes "queue_ok wl" and "p = dummy_packet wl"
    and "WL1271_FLAG_DUMMY_PACKET_PENDING \<notin> wl_flags wl"
  shows "queue_ok (wl1271_skb_queue_head wl v p h)"
    and "queued (wl1271_skb_queue_head wl v p h) = queued wl"
proof -
  let ?q = "skb_ac wl p"
  have eq: "wl1271_skb_queue_head wl v p h
      = wl\<lparr>wl_flags := insert WL1271_FLAG_DUMMY_PACKET_PENDING (wl_flags wl),
           tx_queue_count := (tx_queue_count wl)(?q := tx_queue_count wl ?q + 1)\<rparr>" (is "_ = ?w")
    using assms(2) by (simp add: wl1271_skb_queue_head_def wl12xx_is_dummy_packet_def set_flag_def Let_def)
  have "queue_total ?w = queue_total wl" "well_placed ?w = well_placed wl" "queued ?w = queued wl"
    "dummy_count ?w r = (if r = ?q then 1 else 0)" "dummy_count wl r = 0" for r
    using assms(2,3)
    by (simp_all add: queue_total_def well_placed_def queued_def dummy_count_def skb_ac_def fun_eq_iff)
  then show "queue_ok (wl1271_skb_queue_head wl v p h)"
    and "queued (wl1271_skb_queue_head wl v p h) = queued wl"
    using assms(1) by (simp_all add: eq queue_ok_def counts_ok_def)
qed

section \<open>Dropping packets keeps the accounts\<close>

text \<open>The packets mac80211 got back, from the log.\<close>

fun returned_by :: "wl_call \<Rightarrow> skb_ptr multiset" where
  "returned_by (C_tx_status p) = {#p#}"
| "returned_by (C_free_txskb p) = {#p#}"
| "returned_by c = {#}"

definition returned :: "wl1271 \<Rightarrow> skb_ptr multiset" where
  "returned wl = (\<Sum>c\<leftarrow>log wl. returned_by c)"

lemma returned_emit [simp]: "returned (emit c wl) = returned wl + returned_by c"
  by (simp add: returned_def emit_def)

lemma returned_log: "log wl' = log wl \<Longrightarrow> returned wl' = returned wl"
  by (simp add: returned_def)

text \<open>\<open>drop_fields wl wl'\<close>: what dropping packets of link \<open>h\<close> may change.\<close>

text \<open>Stopping, waking and the watermark check touch only the stop reasons and the log.\<close>

fun queue_call :: "wl_call \<Rightarrow> bool" where
  "queue_call (C_stop_queue q) = True"
| "queue_call (C_wake_queue q) = True"
| "queue_call C_warn = True"
| "queue_call c = False"

fun handback_call :: "wl_call \<Rightarrow> bool" where
  "handback_call (C_tx_status p) = True"
| "handback_call C_warn = True"
| "handback_call c = False"

lemma returned_queue_calls: "list_all queue_call l \<Longrightarrow> (\<Sum>c\<leftarrow>l. returned_by c) = {#}"
proof (induction l)
  case (Cons c l)
  moreover have "queue_call c \<Longrightarrow> returned_by c = {#}" by (cases c) simp_all
  ultimately show ?case by simp
qed simp

definition stop_step :: "wl1271 \<Rightarrow> wl1271 \<Rightarrow> bool" where
  "stop_step wl wl' \<longleftrightarrow>
     (\<exists>r l. wl' = wl\<lparr>queue_stop_reasons := r, log := log wl @ l\<rparr>
        \<and> list_all queue_call l)"

lemma stop_stepI:
  "wl' = wl\<lparr>queue_stop_reasons := r, log := log wl @ l\<rparr> \<Longrightarrow> list_all queue_call l \<Longrightarrow>
   stop_step wl wl'"
  unfolding stop_step_def by blast

lemma stop_step_refl [simp, intro]: "stop_step wl wl"
  by (rule stop_stepI [where r = "queue_stop_reasons wl" and l = "[]"]) simp_all

lemma stop_step_trans: "stop_step a b \<Longrightarrow> stop_step b c \<Longrightarrow> stop_step a c"
  unfolding stop_step_def
proof (elim exE conjE)
  fix r l r' l'
  assume "b = a\<lparr>queue_stop_reasons := r, log := log a @ l\<rparr>" "list_all queue_call l"
    "c = b\<lparr>queue_stop_reasons := r', log := log b @ l'\<rparr>" "list_all queue_call l'"
  then show "\<exists>r l. c = a\<lparr>queue_stop_reasons := r, log := log a @ l\<rparr> \<and> list_all queue_call l"
    by (intro exI [of _ r'] exI [of _ "l @ l'"]) simp
qed

lemma stop_step_emit: "stop_step wl wl1 \<Longrightarrow> queue_call c \<Longrightarrow> stop_step wl (emit c wl1)"
  by (erule stop_step_trans, rule stop_stepI [where r = "queue_stop_reasons wl1" and l = "[c]"])
    (simp_all add: emit_def)

lemma stop_step_reasons: "stop_step wl wl1 \<Longrightarrow> stop_step wl (wl1\<lparr>queue_stop_reasons := r\<rparr>)"
  by (erule stop_step_trans, rule stop_stepI [where r = r and l = "[]"]) simp_all

lemma stop_step_stop: "stop_step wl (wlcore_stop_queue_locked wl q r)"
  unfolding wlcore_stop_queue_locked_def Let_def
  by (simp add: stop_step_emit stop_step_reasons)

lemma stop_step_wake: "stop_step wl (wlcore_wake_queue wl q r)"
  unfolding wlcore_wake_queue_def Let_def
  by (simp add: stop_step_emit stop_step_reasons)

lemma stop_step_low_watermark: "stop_step wl (wl1271_handle_tx_low_watermark wl)"
  unfolding wl1271_handle_tx_low_watermark_def
  by (rule fold_invariant_list) (auto simp: low_watermark_queue_def intro: stop_step_trans stop_step_wake)

lemma stop_step_returned: "stop_step wl wl' \<Longrightarrow> returned wl' = returned wl"
  by (auto simp: stop_step_def returned_def returned_queue_calls)

lemma queue_totals_removed:
  assumes "h < WL12XX_MAX_LINKS" and "links wl' = (links wl)(h := lnk)"
    and "\<And>q. q < NUM_TX_QUEUES \<Longrightarrow> tx_queue lnk q = []"
  shows "queued wl = queued wl' + (\<Sum>q<NUM_TX_QUEUES. mset (tx_queue (links wl h) q))"
    and "q < NUM_TX_QUEUES \<Longrightarrow> queue_total wl q = queue_total wl' q + length (tx_queue (links wl h) q)"
proof -
  have "(\<Sum>q<NUM_TX_QUEUES. mset (tx_queue (links wl' h) q)) = {#}"
    using assms(2,3) by simp
  then show "queued wl = queued wl' + (\<Sum>q<NUM_TX_QUEUES. mset (tx_queue (links wl h) q))"
    unfolding queued_def
    using sum_differ_one [OF assms(1), of "\<lambda>h. \<Sum>q<4. mset (tx_queue (links wl' h) q)"
        "\<lambda>h. \<Sum>q<4. mset (tx_queue (links wl h) q)"] assms(2) by simp
  assume "q < NUM_TX_QUEUES"
  then have "tx_queue (links wl' h) q = []" using assms(2,3) by simp
  then show "queue_total wl q = queue_total wl' q + length (tx_queue (links wl h) q)"
    unfolding queue_total_def
    using sum_differ_one [OF assms(1), of "\<lambda>h. length (tx_queue (links wl' h) q)"
        "\<lambda>h. length (tx_queue (links wl h) q)"] assms(2) by simp
qed

subsection \<open>Emptying the queues of a link\<close>

text \<open>
  \<open>drained M wl wl'\<close>: the packets \<open>M\<close>, the dummy packet excepted, were handed back, with at most their
  status changed, and no queue was stopped or woken.
\<close>

definition drained :: "skb_ptr multiset \<Rightarrow> wl1271 \<Rightarrow> wl1271 \<Rightarrow> bool" where
  "drained M wl wl' \<longleftrightarrow>
     (\<exists>sk l. wl' = wl\<lparr>skbs := sk, log := log wl @ l\<rparr>
        \<and> (\<forall>x. \<exists>i. sk x = (skbs wl x)\<lparr>skb_info := i\<rparr>) \<and> (\<forall>x. x \<notin># M \<longrightarrow> sk x = skbs wl x)
        \<and> (\<Sum>c\<leftarrow>l. returned_by c) = filter_mset (\<lambda>p. p \<noteq> dummy_packet wl) M
        \<and> list_all handback_call l)"

lemma no_queue_handback:
  "list_all handback_call l \<Longrightarrow> C_stop_queue m \<notin> set l \<and> C_wake_queue m \<notin> set l"
  by (auto simp: list_all_iff)

lemma drainedE:
  assumes "drained M wl wl'"
  obtains sk l where "wl' = wl\<lparr>skbs := sk, log := log wl @ l\<rparr>"
    and "\<And>x. \<exists>i. sk x = (skbs wl x)\<lparr>skb_info := i\<rparr>" and "\<And>x. x \<notin># M \<Longrightarrow> sk x = skbs wl x"
    and "(\<Sum>c\<leftarrow>l. returned_by c) = filter_mset (\<lambda>p. p \<noteq> dummy_packet wl) M"
    and "list_all handback_call l"
  using assms unfolding drained_def by blast

lemma drained_empty: "drained {#} wl wl"
  unfolding drained_def
  by (intro exI [of _ "skbs wl"] exI [of _ "[]"]) (simp, metis sk_buff.surjective sk_buff.update_convs(10))

lemma drained_trans:
  assumes "drained M wl wl1" and "drained N wl1 wl2"
  shows "drained (M + N) wl wl2"
proof -
  obtain sk l where 1: "wl1 = wl\<lparr>skbs := sk, log := log wl @ l\<rparr>"
    "\<And>x. \<exists>i. sk x = (skbs wl x)\<lparr>skb_info := i\<rparr>" "\<And>x. x \<notin># M \<Longrightarrow> sk x = skbs wl x"
    "(\<Sum>c\<leftarrow>l. returned_by c) = filter_mset (\<lambda>p. p \<noteq> dummy_packet wl) M"
    "list_all handback_call l"
    using assms(1) unfolding drained_def by blast
  obtain sk' l' where 2: "wl2 = wl1\<lparr>skbs := sk', log := log wl1 @ l'\<rparr>"
    "\<And>x. \<exists>i. sk' x = (skbs wl1 x)\<lparr>skb_info := i\<rparr>" "\<And>x. x \<notin># N \<Longrightarrow> sk' x = skbs wl1 x"
    "(\<Sum>c\<leftarrow>l'. returned_by c) = filter_mset (\<lambda>p. p \<noteq> dummy_packet wl1) N"
    "list_all handback_call l'"
    using assms(2) unfolding drained_def by blast
  have i: "\<exists>i. sk' x = (skbs wl x)\<lparr>skb_info := i\<rparr>" for x
  proof -
    obtain i where "sk x = (skbs wl x)\<lparr>skb_info := i\<rparr>" using 1(2) by blast
    moreover obtain j where "sk' x = (skbs wl1 x)\<lparr>skb_info := j\<rparr>" using 2(2) by blast
    ultimately have "sk' x = (skbs wl x)\<lparr>skb_info := j\<rparr>" using 1(1) by simp
    then show ?thesis ..
  qed
  show ?thesis
    unfolding drained_def
    by (intro exI [of _ sk'] exI [of _ "l @ l'"] conjI allI)
      (use 1(1,3,4,5) 2(1,3,4,5) i in simp_all)
qed

text \<open>What a link looks like when its first \<open>n\<close> queues are empty.\<close>

definition emptied :: "nat \<Rightarrow> nat \<Rightarrow> wl1271 \<Rightarrow> wl1271" where
  "emptied n h wl = wl\<lparr>links := (links wl)(h := (links wl h)\<lparr>tx_queue :=
      (\<lambda>q. if q < n then [] else tx_queue (links wl h) q)\<rparr>)\<rparr>"

lemma emptied_0: "emptied 0 h wl = wl"
  by (simp add: emptied_def)

lemma drained_links:
  assumes "drained M wl wl'"
  shows "links wl' = links wl" and "drained M (wl\<lparr>links := f\<rparr>) (wl'\<lparr>links := f\<rparr>)"
proof -
  obtain sk l where 1: "wl' = wl\<lparr>skbs := sk, log := log wl @ l\<rparr>"
    "\<And>x. \<exists>i. sk x = (skbs wl x)\<lparr>skb_info := i\<rparr>" "\<And>x. x \<notin># M \<Longrightarrow> sk x = skbs wl x"
    "(\<Sum>c\<leftarrow>l. returned_by c) = filter_mset (\<lambda>p. p \<noteq> dummy_packet wl) M"
    "list_all handback_call l"
    using assms unfolding drained_def by blast
  show "links wl' = links wl" by (simp add: 1(1))
  show "drained M (wl\<lparr>links := f\<rparr>) (wl'\<lparr>links := f\<rparr>)"
    unfolding drained_def
    by (intro exI [of _ sk] exI [of _ l] conjI allI) (use 1 in simp_all)
qed

text \<open>
  The contract of the per-packet action, met by the two actions of the driver; emptying a link then
  hands back exactly its packets and keeps the counters exact.
\<close>

locale queue_drain =
  fixes one :: "skb_ptr \<Rightarrow> wl1271 \<Rightarrow> wl1271"
  assumes one_drained: "drained {#p#} wl (one p wl)"
begin

lemma fold_drained: "drained (mset ps) wl (fold one ps wl)"
proof (induction ps arbitrary: wl)
  case (Cons p ps)
  show ?case using drained_trans [OF one_drained [of p wl] Cons.IH] by simp
qed (simp add: drained_empty)

lemma drain_queue_step:
  assumes "drained (\<Sum>q<n. mset (tx_queue (links wl h) q)) (emptied n h wl) wl1"
  shows "drained (\<Sum>q<Suc n. mset (tx_queue (links wl h) q)) (emptied (Suc n) h wl)
           (drain_queue one h n wl1)"
proof -
  have lk: "links wl1 = links (emptied n h wl)" by (rule drained_links(1) [OF assms])
  then have q: "tx_queue (links wl1 h) n = tx_queue (links wl h) n" by (simp add: emptied_def)
  have f: "(\<lambda>q. if q < n then [] else tx_queue (links wl h) q)(n := [])
      = (\<lambda>q. if q < Suc n then [] else tx_queue (links wl h) q)"
    by (auto simp: fun_eq_iff)
  have e: "upd_link h (\<lambda>l. l\<lparr>tx_queue := (tx_queue l)(n := [])\<rparr>) wl1
      = wl1\<lparr>links := links (emptied (Suc n) h wl)\<rparr>"
    unfolding upd_link_def lk by (simp add: emptied_def f)
  have "drained (\<Sum>q<n. mset (tx_queue (links wl h) q)) (emptied (Suc n) h wl)
      (wl1\<lparr>links := links (emptied (Suc n) h wl)\<rparr>)"
    using drained_links(2) [OF assms, of "links (emptied (Suc n) h wl)"] by (simp add: emptied_def)
  then show ?thesis
    unfolding drain_queue_def e q using fold_drained drained_trans by fastforce
qed

lemma drain_queues:
  "drained (\<Sum>q<n. mset (tx_queue (links wl h) q)) (emptied n h wl) (fold (drain_queue one h) [0..<n] wl)"
  by (induction n) (simp_all add: emptied_0 drained_empty drain_queue_step del: sum.lessThan_Suc)

lemma drain_link_shape:
  obtains sk l r where "drain_link one wl h = wl\<lparr>
        tx_queue_count := (\<lambda>i. if i < NUM_TX_QUEUES
            then tx_queue_count wl i - int (length (tx_queue (links wl h) i)) else tx_queue_count wl i),
        queue_stop_reasons := r, links := links (emptied NUM_TX_QUEUES h wl),
        skbs := sk, log := log wl @ l\<rparr>"
    and "\<And>x. \<exists>i. sk x = (skbs wl x)\<lparr>skb_info := i\<rparr>"
    and "\<And>x. x \<notin># (\<Sum>q<NUM_TX_QUEUES. mset (tx_queue (links wl h) q)) \<Longrightarrow> sk x = skbs wl x"
    and "(\<Sum>c\<leftarrow>l. returned_by c)
       = filter_mset (\<lambda>p. p \<noteq> dummy_packet wl) (\<Sum>q<NUM_TX_QUEUES. mset (tx_queue (links wl h) q))"
    and "list_all (\<lambda>c. handback_call c \<or> queue_call c) l"
proof -
  let ?wl1 = "fold (drain_queue one h) [0..<NUM_TX_QUEUES] wl"
  let ?c = "\<lambda>i. if i < NUM_TX_QUEUES
            then tx_queue_count wl i - int (length (tx_queue (links wl h) i)) else tx_queue_count wl i"
  obtain sk l where wl1: "?wl1 = (emptied NUM_TX_QUEUES h wl)\<lparr>skbs := sk, log := log wl @ l\<rparr>"
    and sk: "\<And>x. \<exists>i. sk x = (skbs wl x)\<lparr>skb_info := i\<rparr>"
      "\<And>x. x \<notin># (\<Sum>q<NUM_TX_QUEUES. mset (tx_queue (links wl h) q)) \<Longrightarrow> sk x = skbs wl x"
    and l: "(\<Sum>c\<leftarrow>l. returned_by c)
       = filter_mset (\<lambda>p. p \<noteq> dummy_packet wl) (\<Sum>q<NUM_TX_QUEUES. mset (tx_queue (links wl h) q))"
      "list_all handback_call l"
    using drain_queues [of wl h NUM_TX_QUEUES] by (elim drainedE) (simp add: emptied_def)
  have cnt: "tx_queue_count ?wl1 = tx_queue_count wl" by (simp add: wl1 emptied_def)
  have drain: "drain_link one wl h = wl1271_handle_tx_low_watermark (?wl1\<lparr>tx_queue_count := ?c\<rparr>)"
    unfolding drain_link_def Let_def cnt ..
  obtain r l' where w: "wl1271_handle_tx_low_watermark (?wl1\<lparr>tx_queue_count := ?c\<rparr>)
      = (?wl1\<lparr>tx_queue_count := ?c\<rparr>)\<lparr>queue_stop_reasons := r, log := log (?wl1\<lparr>tx_queue_count := ?c\<rparr>) @ l'\<rparr>"
    and l': "list_all queue_call l'"
    using stop_step_low_watermark [of "?wl1\<lparr>tx_queue_count := ?c\<rparr>"] unfolding stop_step_def by blast
  show thesis
  proof (rule that)
    show "drain_link one wl h = wl\<lparr>tx_queue_count := ?c, queue_stop_reasons := r,
        links := links (emptied NUM_TX_QUEUES h wl), skbs := sk, log := log wl @ l @ l'\<rparr>"
      by (simp only: drain w) (simp add: wl1 emptied_def)
    show "list_all (\<lambda>c. handback_call c \<or> queue_call c) (l @ l')"
      using l(2) l' by (auto simp: list_all_iff)
  qed (use sk l(1) returned_queue_calls [OF l'] in simp_all)
qed

lemma drain_link_queue:
  assumes "queue_ok wl" and "h < WL12XX_MAX_LINKS"
  shows "queue_ok (drain_link one wl h)"
    and "queued wl = queued (drain_link one wl h) + (\<Sum>q<NUM_TX_QUEUES. mset (tx_queue (links wl h) q))"
    and "returned (drain_link one wl h) = returned wl
           + filter_mset (\<lambda>p. p \<noteq> dummy_packet wl) (\<Sum>q<NUM_TX_QUEUES. mset (tx_queue (links wl h) q))"
proof -
  obtain sk l r where eq: "drain_link one wl h = wl\<lparr>
        tx_queue_count := (\<lambda>i. if i < NUM_TX_QUEUES
            then tx_queue_count wl i - int (length (tx_queue (links wl h) i)) else tx_queue_count wl i),
        queue_stop_reasons := r, links := links (emptied NUM_TX_QUEUES h wl),
        skbs := sk, log := log wl @ l\<rparr>" (is "_ = ?w")
    and sk: "\<And>x. \<exists>i. sk x = (skbs wl x)\<lparr>skb_info := i\<rparr>"
    and l: "(\<Sum>c\<leftarrow>l. returned_by c)
       = filter_mset (\<lambda>p. p \<noteq> dummy_packet wl) (\<Sum>q<NUM_TX_QUEUES. mset (tx_queue (links wl h) q))"
    by (rule drain_link_shape [of wl h]) blast
  have "skb_queue_mapping (sk x) = skb_queue_mapping (skbs wl x)" for x using sk [of x] by auto
  then have ac: "skb_ac ?w = skb_ac wl" by (simp add: skb_ac_def fun_eq_iff)
  have lk: "links ?w = (links wl)(h := (links wl h)\<lparr>tx_queue :=
            (\<lambda>q. if q < NUM_TX_QUEUES then [] else tx_queue (links wl h) q)\<rparr>)" by (simp add: emptied_def)
  note rem = queue_totals_removed [OF assms(2) lk]
  show "queued wl = queued (drain_link one wl h) + (\<Sum>q<NUM_TX_QUEUES. mset (tx_queue (links wl h) q))"
    unfolding eq by (rule rem(1)) simp
  show "returned (drain_link one wl h) = returned wl
           + filter_mset (\<lambda>p. p \<noteq> dummy_packet wl) (\<Sum>q<NUM_TX_QUEUES. mset (tx_queue (links wl h) q))"
    unfolding eq using l by (simp add: returned_def)
  have wp: "well_placed ?w"
    using assms(1) unfolding queue_ok_def well_placed_def ac lk by simp
  have tot: "queue_total wl q = queue_total ?w q + length (tx_queue (links wl h) q)" if "q < 4" for q
    using that by (intro rem(2)) simp_all
  have dc: "dummy_count ?w q = dummy_count wl q" for q
    unfolding dummy_count_def ac by simp
  have "tx_queue_count ?w q = int (queue_total ?w q + dummy_count ?w q)" if q: "q < 4" for q
    using assms(1) tot [OF q] dc [of q] q by (simp add: queue_ok_def counts_ok_def)
  with wp show "queue_ok (drain_link one wl h)" unfolding eq queue_ok_def counts_ok_def by blast
qed

lemma drain_link_frame:
  "links_map (drain_link one wl h) = links_map wl" "vifs (drain_link one wl h) = vifs wl"
  "wl_flags (drain_link one wl h) = wl_flags wl" "wl_state (drain_link one wl h) = wl_state wl"
  "tx_frames (drain_link one wl h) = tx_frames wl" "tx_frames_map (drain_link one wl h) = tx_frames_map wl"
  "tx_frames_cnt (drain_link one wl h) = tx_frames_cnt wl" "num_tx_desc (drain_link one wl h) = num_tx_desc wl"
  "dummy_packet (drain_link one wl h) = dummy_packet wl" "system_hlid (drain_link one wl h) = system_hlid wl"
  "wlvif_list (drain_link one wl h) = wlvif_list wl" "aggr_buf_size (drain_link one wl h) = aggr_buf_size wl"
  "deferred_tx_queue (drain_link one wl h) = deferred_tx_queue wl"
  by (rule drain_link_shape [of wl h]; simp)+

lemma drain_link_stop_view: "stop_view_ok wl \<Longrightarrow> stop_view_ok (drain_link one wl h)"
proof -
  assume ok: "stop_view_ok wl"
  let ?wl1 = "fold (drain_queue one h) [0..<NUM_TX_QUEUES] wl"
  obtain sk l where wl1: "?wl1 = (emptied NUM_TX_QUEUES h wl)\<lparr>skbs := sk, log := log wl @ l\<rparr>"
    and l: "list_all handback_call l"
    using drain_queues [of wl h NUM_TX_QUEUES] by (elim drainedE) (simp add: emptied_def)
  have "stop_view_ok (?wl1\<lparr>tx_queue_count := c\<rparr>)" for c
    using ok mac_stopped_other [OF no_queue_handback [OF l]]
    by (simp add: wl1 stop_view_ok_def wlcore_is_queue_stopped_def emptied_def)
  then show ?thesis by (simp add: drain_link_def Let_def stop_view_ok_low_watermark)
qed

end

lemma drained_status:
  assumes "p \<noteq> dummy_packet wl"
  shows "drained {#p#} wl (emit (C_tx_status p) (upd_skb p (\<lambda>s. s\<lparr>skb_info := f (skb_info s)\<rparr>) wl))"
  unfolding drained_def
proof (intro exI [of _ "(skbs wl)(p := (skbs wl p)\<lparr>skb_info := f (skb_info (skbs wl p))\<rparr>)"]
    exI [of _ "[C_tx_status p]"] conjI allI)
  fix x
  show "\<exists>i. ((skbs wl)(p := (skbs wl p)\<lparr>skb_info := f (skb_info (skbs wl p))\<rparr>)) x = (skbs wl x)\<lparr>skb_info := i\<rparr>"
    by (cases "x = p") (auto intro: exI [of _ "skb_info (skbs wl x)"])
qed (use assms in \<open>simp_all add: emit_def upd_skb_def\<close>)

lemma drained_dummy:
  assumes "p = dummy_packet wl"
  shows "drained {#p#} wl wl" and "drained {#p#} wl (emit C_warn wl)"
proof -
  have i: "\<exists>i. skbs wl x = (skbs wl x)\<lparr>skb_info := i\<rparr>" for x
    by (intro exI [of _ "skb_info (skbs wl x)"]) simp
  show "drained {#p#} wl wl"
    unfolding drained_def
    by (intro exI [of _ "skbs wl"] exI [of _ "[]"] conjI allI) (use assms i in simp_all)
  show "drained {#p#} wl (emit C_warn wl)"
    unfolding drained_def
    by (intro exI [of _ "skbs wl"] exI [of _ "[C_warn]"] conjI allI) (use assms i in \<open>simp_all add: emit_def\<close>)
qed

interpretation reset_drain: queue_drain drop_one
proof
  fix p wl
  show "drained {#p#} wl (drop_one p wl)"
    using drained_status [of p wl status_failed] drained_dummy(1) [of p wl]
    by (cases "p = dummy_packet wl") (simp_all add: drop_one_def wl12xx_is_dummy_packet_def)
qed

lemmas reset_link_queues = reset_drain.drain_link_queue [folded wl1271_tx_reset_link_queues_def]
lemmas reset_link_shape = reset_drain.drain_link_shape [folded wl1271_tx_reset_link_queues_def]
lemmas reset_link_queues_frame [simp] = reset_drain.drain_link_frame [folded wl1271_tx_reset_link_queues_def]
lemmas stop_view_ok_reset_link_queues = reset_drain.drain_link_stop_view [folded wl1271_tx_reset_link_queues_def]

section \<open>Fairness between the links of an interface\<close>

text \<open>How far link \<open>h\<close> is from the front of the order the next dequeue uses.\<close>

definition rr_distance :: "wl1271 \<Rightarrow> vif_ptr \<Rightarrow> nat \<Rightarrow> nat" where
  "rr_distance wl v h =
     (h + WL12XX_MAX_LINKS - (last_tx_hlid (vifs wl v) + 1) mod WL12XX_MAX_LINKS) mod WL12XX_MAX_LINKS"

lemma link_order_nth: "i < WL12XX_MAX_LINKS \<Longrightarrow> link_order l ! i = (l + 1 + i) mod WL12XX_MAX_LINKS"
  by (simp add: link_order_def Let_def mod_add_left_eq)

lemma link_order_distance:
  assumes "h < WL12XX_MAX_LINKS"
  shows "link_order (last_tx_hlid (vifs wl v)) ! rr_distance wl v h = h"
proof -
  let ?s = "(last_tx_hlid (vifs wl v) + 1) mod 12"
  have s: "?s \<le> h + 12" by (rule order_trans [of _ 12]) simp_all
  have "link_order (last_tx_hlid (vifs wl v)) ! rr_distance wl v h = (?s + (h + 12 - ?s) mod 12) mod 12"
    by (simp add: link_order_def Let_def rr_distance_def)
  also have "\<dots> = (?s + (h + 12 - ?s)) mod 12" by (rule mod_add_right_eq)
  also have "\<dots> = h" using s assms by simp
  finally show ?thesis .
qed

lemma mod_add_left_cancel_nat: "(a + b) mod n = (a + c) mod n \<Longrightarrow> b mod n = c mod (n::nat)"
proof -
  assume "(a + b) mod n = (a + c) mod n"
  then have "int (a + b) mod int n = int (a + c) mod int n" by (metis of_nat_mod)
  then have "int b mod int n = int c mod int n"
    by (metis add_diff_cancel_left' mod_diff_left_eq of_nat_add)
  then show "b mod n = c mod n" by (metis of_nat_eq_iff of_nat_mod)
qed

lemma rr_distance_after:
  assumes "d < 12" and "i < d" and "h = (l + 1 + d) mod (12::nat)" and "g = (l + 1 + i) mod 12"
  shows "(h + 12 - (g + 1) mod 12) mod 12 = d - Suc i"
proof -
  have g: "(g + 1) mod 12 = (l + 1 + i + 1) mod 12" unfolding assms(4) by (rule mod_add_left_eq)
  let ?m = "(g + 1) mod 12"
  have m: "?m \<le> h + 12" by (rule order_trans [of _ 12]) simp_all
  have "(?m + (d - Suc i)) mod 12 = (l + 1 + i + 1 + (d - Suc i)) mod 12"
    unfolding g by (rule mod_add_left_eq)
  then have "(?m + (d - Suc i)) mod 12 = (h + 12) mod 12" using assms(2,3) by simp
  moreover have "h + 12 = ?m + (h + 12 - ?m)" using m by simp
  ultimately have "(?m + (d - Suc i)) mod 12 = (?m + (h + 12 - ?m)) mod 12" by simp
  then have "(d - Suc i) mod 12 = (h + 12 - ?m) mod 12"
    by (metis mod_add_left_cancel_nat)
  then show ?thesis using assms(1) by simp
qed

lemma vif_round_robin_step:
  assumes ok: "queue_ok wl" "links_ok wl" and h: "h \<in> vif_links_map (vifs wl v)" "\<not> idle_link wl h"
  shows "\<exists>p g wl'. wl12xx_vif_skb_dequeue wl v = (Some (p, g), wl') \<and> took wl (p, g) wl'
     \<and> (g = h \<or> rr_distance wl' v h < rr_distance wl v h)"
proof -
  let ?l = "last_tx_hlid (vifs wl v)"
  let ?hs = "link_order ?l"
  have h12: "h < WL12XX_MAX_LINKS" using ok(2) h(1) by (auto simp: links_ok_def)
  have len: "length ?hs = 12" by (simp add: link_order_def Let_def)
  have "set ?hs \<subseteq> {..<WL12XX_MAX_LINKS}" by (simp add: set_link_order)
  from scan_links_spec [OF ok(1) this, of v] h h12 obtain xs g ac where
    found: "scan_found v ?hs wl xs g ac" by (auto simp: set_link_order)
  then obtain p ps where q: "tx_queue (links wl g) ac = p # ps" "ac < NUM_TX_QUEUES"
    and g: "g \<in> vif_links_map (vifs wl v)" by (auto simp: scan_found_def neq_Nil_conv)
  have r: "scan_links v ?hs wl = (Some (p, g), take_head g ac wl)"
    using found q by (simp add: scan_found_def)
  obtain ys where hs: "?hs = xs @ g # ys" using found by (auto simp: scan_found_def)
  let ?i = "length xs" and ?d = "rr_distance wl v h"
  have i: "?i < 12" using hs len by simp
  have gi: "g = (?l + 1 + ?i) mod 12" using link_order_nth [OF i, of ?l] by (simp add: hs)
  have d: "?d < 12" by (simp add: rr_distance_def)
  have hd: "h = (?l + 1 + ?d) mod 12"
    using link_order_distance [OF h12, of wl v] link_order_nth [OF d, of ?l] by simp
  have "?i \<le> ?d"
  proof (rule ccontr)
    assume "\<not> ?i \<le> ?d"
    then have "xs ! ?d = h" using link_order_distance [OF h12, of wl v] by (simp add: hs nth_append)
    then have "h \<in> set xs" using \<open>\<not> ?i \<le> ?d\<close> by (metis not_le nth_mem)
    then show False using found h by (auto simp: scan_found_def)
  qed
  define wl' where "wl' = upd_vif v (\<lambda>vf. vf\<lparr>last_tx_hlid := g\<rparr>) (take_head g ac wl)"
  have "rr_distance wl' v h = (h + 12 - (g + 1) mod 12) mod 12"
    by (simp add: rr_distance_def wl'_def upd_vif_def)
  then have "g = h \<or> rr_distance wl' v h < ?d"
    using rr_distance_after [OF d _ hd gi] gi hd \<open>?i \<le> ?d\<close> by (cases "?i = ?d") auto
  moreover have "took wl (p, g) wl'"
    unfolding took_def wl'_def using q g ok(2) by (auto simp: links_ok_def intro!: exI [of _ ac])
  moreover have "wl12xx_vif_skb_dequeue wl v = (Some (p, g), wl')"
    using r by (simp add: wl12xx_vif_skb_dequeue_def wl'_def)
  ultimately show ?thesis by blast
qed

text \<open>The links served by \<open>n\<close> dequeues in a row from one interface.\<close>

primrec vif_dequeues :: "nat \<Rightarrow> wl1271 \<Rightarrow> vif_ptr \<Rightarrow> nat list" where
  "vif_dequeues 0 wl v = []"
| "vif_dequeues (Suc n) wl v =
     (case wl12xx_vif_skb_dequeue wl v of
        (None, wl1) \<Rightarrow> []
      | (Some (p, g), wl1) \<Rightarrow> g # vif_dequeues n wl1 v)"

lemma took_links_ok: "took wl r wl' \<Longrightarrow> links_ok wl' = links_ok wl"
  by (auto simp: took_def dest!: rr_eq_links_ok) (simp_all add: links_ok_def)

lemma rr_eq_allocated: "rr_eq a b \<Longrightarrow> tx_allocated_pkts a = tx_allocated_pkts b"
  by (auto simp: rr_eq_ex)

lemma took_other_link:
  assumes "took wl (p, g) wl'" and "g \<noteq> h"
  shows "idle_link wl' h = idle_link wl h" and "vif_links_map (vifs wl' v) = vif_links_map (vifs wl v)"
proof -
  obtain ac where rr: "rr_eq wl' (take_head g ac wl)" using assms(1) by (auto simp: took_def)
  show "idle_link wl' h = idle_link wl h"
    using rr_eq_queue(3) [OF rr, of h] assms(2)
    by (simp add: idle_link_def take_head_def upd_link_def)
  show "vif_links_map (vifs wl' v) = vif_links_map (vifs wl v)"
    using rr_eq_links_map [OF rr, of v] by simp
qed

lemma vif_dequeues_serve:
  "queue_ok wl \<Longrightarrow> links_ok wl \<Longrightarrow> h \<in> vif_links_map (vifs wl v) \<Longrightarrow> \<not> idle_link wl h \<Longrightarrow>
   rr_distance wl v h < n \<Longrightarrow> h \<in> set (vif_dequeues n wl v)"
proof (induction n arbitrary: wl)
  case (Suc n)
  from vif_round_robin_step [OF Suc.prems(1-4)] obtain p g wl' where
    d: "wl12xx_vif_skb_dequeue wl v = (Some (p, g), wl')" and t: "took wl (p, g) wl'"
    and dist: "g = h \<or> rr_distance wl' v h < rr_distance wl v h" by blast
  show ?case
  proof (cases "g = h")
    case False
    have "queue_ok wl'" "links_ok wl'"
      using took_queue(1) [OF t] took_links_ok [OF t] Suc.prems by simp_all
    moreover have "h \<in> vif_links_map (vifs wl' v)" "\<not> idle_link wl' h"
      using took_other_link [OF t False] Suc.prems by simp_all
    ultimately have "h \<in> set (vif_dequeues n wl' v)"
      using Suc.IH [of wl'] dist False Suc.prems(5) by simp
    then show ?thesis using d by simp
  qed (use d in simp)
qed simp

section \<open>The best queue\<close>

lemma get_mac80211_queue_get_queue: "i < NUM_TX_QUEUES \<Longrightarrow> wl1271_tx_get_mac80211_queue (wl1271_tx_get_queue i) = i"
  by (auto simp: wl1271_tx_get_queue_def wl1271_tx_get_mac80211_queue_def dest!: less_4_cases)

text \<open>After \<open>n\<close> rounds, the best queue so far is the first minimum among the queues seen.\<close>

definition select_inv :: "wl1271 \<Rightarrow> (nat \<Rightarrow> skb_ptr list) \<Rightarrow> nat \<Rightarrow> nat option \<times> u32 \<Rightarrow> bool" where
  "select_inv wl qs n b \<longleftrightarrow>
     (\<forall>i<n. qs (wl1271_tx_get_queue i) \<noteq> [] \<longrightarrow> snd b \<le> tx_allocated_pkts wl (wl1271_tx_get_queue i))
     \<and> (\<forall>q. fst b = Some q \<longrightarrow> (\<exists>i<n. q = wl1271_tx_get_queue i \<and> qs q \<noteq> []
          \<and> snd b = tx_allocated_pkts wl q
          \<and> (\<forall>j<i. qs (wl1271_tx_get_queue j) \<noteq> [] \<longrightarrow>
               tx_allocated_pkts wl q \<noteq> tx_allocated_pkts wl (wl1271_tx_get_queue j))))"

lemma select_inv_step:
  assumes inv: "select_inv wl qs n b"
  shows "select_inv wl qs (Suc n) (select_step wl qs n b)"
proof (cases "qs (wl1271_tx_get_queue n) \<noteq> [] \<and> tx_allocated_pkts wl (wl1271_tx_get_queue n) < snd b")
  case True
  let ?a = "wl1271_tx_get_queue n"
  have "select_step wl qs n b = (Some ?a, tx_allocated_pkts wl ?a)" using True by (simp add: select_step_def Let_def)
  moreover have "\<forall>i<n. qs (wl1271_tx_get_queue i) \<noteq> [] \<longrightarrow>
      tx_allocated_pkts wl ?a < tx_allocated_pkts wl (wl1271_tx_get_queue i)"
    using inv True by (auto simp: select_inv_def)
  ultimately show ?thesis
    using True by (auto simp: select_inv_def less_Suc_eq intro!: exI [of _ n])
next
  case False
  then have "select_step wl qs n b = b" by (auto simp: select_step_def Let_def)
  moreover have "qs (wl1271_tx_get_queue n) \<noteq> [] \<longrightarrow> snd b \<le> tx_allocated_pkts wl (wl1271_tx_get_queue n)"
    using False by auto
  ultimately show ?thesis
    using inv unfolding select_inv_def by (metis less_Suc_eq)
qed

lemma select_inv_fold: "select_inv wl qs n (fold (select_step wl qs) [0..<n] (None, 0xffffffff))"
  by (induction n) (simp_all add: select_inv_step, simp add: select_inv_def)

section \<open>Properties of the queues\<close>



lemma queue_ok_nil:
  assumes "\<And>h q. tx_queue (links wl h) q = []" and "\<And>q. tx_queue_count wl q = 0"
    and "WL1271_FLAG_DUMMY_PACKET_PENDING \<notin> wl_flags wl"
  shows "queue_ok wl"
  using assms by (simp add: queue_ok_def well_placed_def counts_ok_def queue_total_def dummy_count_def)

lemma queue_ok_demo [simp]: "queue_ok demo_wl" "links_ok demo_wl"
  by (rule queue_ok_nil) (simp_all add: zeroed_defs links_ok_def)

text \<open>
  C6: taking the next packet loses nothing and warns about nothing. With correct counters, a
  dequeue that returns a packet removes exactly that packet from the queues (or clears the pending
  dummy packet), one that returns nothing changes no queue, the counters stay correct and no
  warning is printed.
\<close>

theorem dequeue_conserves:
  assumes "queue_ok wl" and "links_ok wl" and "wl1271_skb_dequeue wl = (r, wl')"
  shows "queue_ok wl' \<and> log wl' = log wl \<and>
     (case r of
        None \<Rightarrow> queued wl' = queued wl
      | Some (p, h) \<Rightarrow> h < WL12XX_MAX_LINKS \<and>
          (queued wl = add_mset p (queued wl') \<and> wl_flags wl' = wl_flags wl
           \<or> p = dummy_packet wl \<and> queued wl' = queued wl
             \<and> WL1271_FLAG_DUMMY_PACKET_PENDING \<in> wl_flags wl
             \<and> wl_flags wl' = wl_flags wl - {WL1271_FLAG_DUMMY_PACKET_PENDING}))"
proof -
  have d: "deq_result wl r wl'" using skb_dequeue_spec [OF assms(1,2)] assms(3) by auto
  show ?thesis
  proof (cases r)
    case None
    then have "rr_eq wl' wl" using d by (simp add: deq_result_def)
    from rr_eq_queue [OF this] None assms(1) show ?thesis by simp
  next
    case (Some x)
    obtain p h where x: "x = (p, h)" by (cases x)
    consider (link) "took wl (p, h) wl'"
      | (dummy) "p = dummy_packet wl" "h = system_hlid wl" "took_dummy wl wl'"
      using d Some x by (auto simp: deq_result_def)
    then show ?thesis
    proof cases
      case link
      from took_queue [OF link assms(1)] Some x show ?thesis by simp
    next
      case dummy
      from took_dummy_queue [OF dummy(3) assms(1)] dummy Some x assms(2) show ?thesis
        by (simp add: took_dummy_def links_ok_def)
    qed
  qed
qed

theorem dequeue_conserves_witness:
  "let wl = wl1271_op_tx demo_wl 9; (r, wl') = wl1271_skb_dequeue wl
   in r = Some (9, 0) \<and> queued wl = add_mset 9 (queued wl')"
proof -
  let ?wl = "wl1271_op_tx demo_wl 9"
  have ok: "queue_ok ?wl" "links_ok ?wl"
    using op_tx_queue(1) [OF queue_ok_demo, of 9] apply simp
    by (simp add: links_ok_def wl1271_op_tx_def zeroed_defs Let_def wl1271_op_tx_drop_def upd_link_def
        emit_def wlcore_stop_queue_locked_def)
  have d: "fst (wl1271_skb_dequeue ?wl) = Some (9, 0)"
    by (simp add: wl1271_op_tx_def wl1271_op_tx_drop_def zeroed_defs Let_def skb_ac_def
        wl12xx_tx_get_hlid_def upd_link_def emit_def wl1271_tx_get_queue_def
        wlcore_is_queue_stopped_def wlcore_is_queue_stopped_by_reason_def wl1271_skb_dequeue_def
        vifs_after_def dequeue_restart_def wl12xx_lnk_skb_dequeue_def wl1271_select_queue_def
        select_step_def upt_4)
  have f: "WL1271_FLAG_DUMMY_PACKET_PENDING \<notin> wl_flags ?wl"
    by (simp add: wl1271_op_tx_def zeroed_defs Let_def wl1271_op_tx_drop_def upd_link_def emit_def
        wlcore_stop_queue_locked_def)
  from dequeue_conserves [OF ok prod.collapse [symmetric]] d f
  show ?thesis by (simp add: Let_def split_beta)
qed

text \<open>
  C27: the transmit path finds every packet. When no queue counter of the firmware is saturated, a
  dequeue returns nothing only if the system link and all links of all interfaces are empty and no
  dummy packet is pending.
\<close>

theorem dequeue_complete:
  assumes "queue_ok wl" and "links_ok wl" and "\<forall>q<NUM_TX_QUEUES. tx_allocated_pkts wl q \<noteq> 0xffffffff"
    and "fst (wl1271_skb_dequeue wl) = None" and "v \<in> set (wlvif_list wl)"
    and "h \<in> insert (system_hlid wl) (vif_links_map (vifs wl v))" and "q < NUM_TX_QUEUES"
  shows "tx_queue (links wl h) q = [] \<and> WL1271_FLAG_DUMMY_PACKET_PENDING \<notin> wl_flags wl"
proof -
  have "idle_all wl"
    using skb_dequeue_spec [OF assms(1,2)] assms(4) by (auto simp: deq_result_def)
  then have "idle_link wl h" "WL1271_FLAG_DUMMY_PACKET_PENDING \<notin> wl_flags wl"
    using assms(5,6) by (auto simp: idle_all_def idle_vif_def)
  then show ?thesis using assms(3,7) by (auto simp: idle_link_def)
qed

theorem dequeue_complete_witness:
  "fst (wl1271_skb_dequeue demo_wl) = None \<and> tx_queue (links demo_wl 1) 2 = []"
proof -
  have d: "fst (wl1271_skb_dequeue demo_wl) = None"
    by (simp add: zeroed_defs upt_4 Let_def skb_ac_def wl1271_skb_dequeue_def vifs_after_def
        dequeue_restart_def dequeue_dummy_def wl12xx_lnk_skb_dequeue_def wl1271_select_queue_def
        select_step_def wl12xx_vif_skb_dequeue_def link_order_def upt_rec upd_vif_def)
  moreover have "1 \<in> set (wlvif_list demo_wl)" "1 \<in> vif_links_map (vifs demo_wl 1)"
    "\<forall>q<NUM_TX_QUEUES. tx_allocated_pkts demo_wl q \<noteq> 0xffffffff"
    by (simp_all add: zeroed_defs)
  ultimately show ?thesis using dequeue_complete [of demo_wl 1 1 2] by simp
qed

text \<open>
  C12: no link starves. A link of an interface with a packet the firmware has room for is served
  within twelve dequeues from that interface, however busy its other links are.
\<close>

theorem no_link_starves:
  assumes "queue_ok wl" and "links_ok wl" and "h \<in> vif_links_map (vifs wl v)"
    and "q < NUM_TX_QUEUES" and "tx_queue (links wl h) q \<noteq> []" and "tx_allocated_pkts wl q \<noteq> 0xffffffff"
  shows "h \<in> set (vif_dequeues WL12XX_MAX_LINKS wl v)"
proof (rule vif_dequeues_serve [OF assms(1-3)])
  show "\<not> idle_link wl h" using assms(4-6) by (auto simp: idle_link_def)
  show "rr_distance wl v h < WL12XX_MAX_LINKS" by (simp add: rr_distance_def)
qed

text \<open>Two links of interface 1 with packets: 7 of them on link 1, one on link 2.\<close>

definition demo_backlog :: wl1271 where
  "demo_backlog = demo_wl\<lparr>vifs := (\<lambda>_. vif_zeroed)(1 := demo_vif\<lparr>vif_links_map := {1, 2}\<rparr>),
     links := (\<lambda>_. link_zeroed)(1 := link_zeroed\<lparr>tx_queue := (\<lambda>q. if q = 3 then [10..<17] else [])\<rparr>,
                              2 := link_zeroed\<lparr>tx_queue := (\<lambda>q. if q = 3 then [20] else [])\<rparr>),
     tx_queue_count := (\<lambda>q. if q = 3 then 8 else 0)\<rparr>"

lemma queue_ok_demo_backlog: "queue_ok demo_backlog" "links_ok demo_backlog"
proof -
  have "queue_total demo_backlog q = (if q = 3 then 8 else 0)" for q
    by (simp add: queue_total_def demo_backlog_def zeroed_defs lessThan_nat_numeral lessThan_Suc)
  then show "queue_ok demo_backlog"
    by (auto simp: queue_ok_def counts_ok_def dummy_count_def well_placed_def skb_ac_def
        wl1271_tx_get_queue_def demo_backlog_def zeroed_defs split: if_splits)
  show "links_ok demo_backlog" by (auto simp: links_ok_def demo_backlog_def zeroed_defs)
qed

theorem no_link_starves_witness: "2 \<in> set (vif_dequeues WL12XX_MAX_LINKS demo_backlog 1)"
  by (rule no_link_starves [OF queue_ok_demo_backlog, of 2 1 3])
    (simp_all add: demo_backlog_def zeroed_defs)



text \<open>The operations that stop, wake or fill queues, as events.\<close>

datatype queue_event =
    Q_op_tx skb_ptr | Q_stop nat wlcore_queue_stop_reason | Q_wake nat wlcore_queue_stop_reason
  | Q_stop_all wlcore_queue_stop_reason | Q_wake_all wlcore_queue_stop_reason | Q_reset_stopped
  | Q_low_watermark | Q_reset_link nat

primrec queue_event_do :: "queue_event \<Rightarrow> wl1271 \<Rightarrow> wl1271" where
  "queue_event_do (Q_op_tx p) wl = wl1271_op_tx wl p"
| "queue_event_do (Q_stop q r) wl = wlcore_stop_queue wl (q mod NUM_TX_QUEUES) r"
| "queue_event_do (Q_wake q r) wl = wlcore_wake_queue wl (q mod NUM_TX_QUEUES) r"
| "queue_event_do (Q_stop_all r) wl = wlcore_stop_queues wl r"
| "queue_event_do (Q_wake_all r) wl = wlcore_wake_queues wl r"
| "queue_event_do Q_reset_stopped wl = wlcore_reset_stopped_queues wl"
| "queue_event_do Q_low_watermark wl = wl1271_handle_tx_low_watermark wl"
| "queue_event_do (Q_reset_link h) wl = wl1271_tx_reset_link_queues wl h"

lemma stop_view_ok_stop_queues: "stop_view_ok wl \<Longrightarrow> stop_view_ok (wlcore_stop_queues wl r)"
  unfolding wlcore_stop_queues_def
  by (rule fold_invariant_list) (auto simp: wlcore_stop_queue_def intro: stop_view_ok_stop)

lemma stop_view_ok_wake_queues: "stop_view_ok wl \<Longrightarrow> stop_view_ok (wlcore_wake_queues wl r)"
  unfolding wlcore_wake_queues_def by (rule fold_invariant_list) (auto intro: stop_view_ok_wake)

lemma stop_view_ok_reset_stopped: "stop_view_ok wl \<Longrightarrow> stop_view_ok (wlcore_reset_stopped_queues wl)"
  unfolding wlcore_reset_stopped_queues_def
  by (rule fold_invariant_list) (auto intro: stop_view_ok_reset)

lemmas stop_view_ok_ops =
  stop_view_ok_op_tx stop_view_ok_stop stop_view_ok_wake stop_view_ok_stop_queues
  stop_view_ok_wake_queues stop_view_ok_reset_stopped stop_view_ok_low_watermark
  stop_view_ok_reset_link_queues

lemma stop_view_ok_event: "stop_view_ok wl \<Longrightarrow> stop_view_ok (queue_event_do e wl)"
  by (cases e) (simp_all add: stop_view_ok_ops wlcore_stop_queue_def)

text \<open>
  C26: mac80211's view of a queue is the driver's. A queue is stopped in mac80211 exactly when the
  driver holds a reason to stop it, whatever sequence of packet arrivals, stops, wakes, resets and
  link resets has happened.
\<close>

theorem mac80211_view_agrees:
  assumes "stop_view_ok wl" and "q < NUM_TX_QUEUES" and "wl' = fold queue_event_do es wl"
  shows "mac_stopped (log wl') (wl1271_tx_get_mac80211_queue q) \<longleftrightarrow> wlcore_is_queue_stopped wl' q"
proof -
  have "stop_view_ok wl'"
    unfolding assms(3) using assms(1) stop_view_ok_event by (rule fold_invariant_list)
  with assms(2) show ?thesis by (simp add: stop_view_ok_def)
qed

theorem mac80211_view_agrees_witness:
  "let wl' = fold queue_event_do [Q_stop_all WLCORE_QUEUE_STOP_REASON_FLUSH, Q_op_tx 9,
                Q_wake 3 WLCORE_QUEUE_STOP_REASON_FLUSH] demo_wl
   in \<not> mac_stopped (log wl') 0 \<and> mac_stopped (log wl') 2 \<and> wlcore_is_queue_stopped wl' 0"
proof -
  have ok: "stop_view_ok demo_wl"
    by (simp add: stop_view_ok_def mac_stopped_def zeroed_defs wlcore_is_queue_stopped_def)
  show ?thesis
    using mac80211_view_agrees [OF ok, of 3 _ "[Q_stop_all WLCORE_QUEUE_STOP_REASON_FLUSH, Q_op_tx 9,
                Q_wake 3 WLCORE_QUEUE_STOP_REASON_FLUSH]"]
      mac80211_view_agrees [OF ok, of 0 _ "[Q_stop_all WLCORE_QUEUE_STOP_REASON_FLUSH, Q_op_tx 9,
                Q_wake 3 WLCORE_QUEUE_STOP_REASON_FLUSH]"]
    by (simp add: Let_def wl1271_tx_get_mac80211_queue_def wlcore_is_queue_stopped_def
        wlcore_stop_queues_def wlcore_stop_queue_def wlcore_stop_queue_locked_def upt_4
        wl1271_op_tx_def wl1271_op_tx_drop_def zeroed_defs wlcore_wake_queue_def emit_def
        wl12xx_tx_get_hlid_def wlcore_is_queue_stopped_by_reason_def skb_ac_def
        wl1271_tx_get_queue_def)
qed

end
