(* ===== verification/WlOps.thy ===== *)
theory WlOps
  imports WlQueue
begin

text \<open>
  The operations a chip driver (wl12xx or wl18xx) supplies to the core (\<open>struct wlcore_ops\<close> of
  wlcore/wlcore.h) and the wrappers of wlcore/hw_ops.h that call them. The table is an argument of
  every core function that uses it. An operation the code calls only after a null check is an
  option; for the others a null pointer is a \<open>BUG_ON\<close>, so they are always present.
\<close>

datatype wl_rx_buf_align = WLCORE_RX_BUF_ALIGNED | WLCORE_RX_BUF_UNALIGNED | WLCORE_RX_BUF_PADDED

record wlcore_ops =
  op_trigger_cmd :: "wl_env \<Rightarrow> wl1271 \<Rightarrow> nat \<Rightarrow> bytes \<Rightarrow> unit res \<times> wl1271"
  op_ack_event :: "wl_env \<Rightarrow> wl1271 \<Rightarrow> unit res \<times> wl1271"
  op_calc_tx_blocks :: "wl1271 \<Rightarrow> nat \<Rightarrow> nat \<Rightarrow> nat"
  op_set_tx_desc_blocks :: "wl1271 \<Rightarrow> wl1271_tx_hw_descr \<Rightarrow> nat \<Rightarrow> nat \<Rightarrow> wl1271_tx_hw_descr"
  op_set_tx_desc_data_len :: "wl1271 \<Rightarrow> wl1271_tx_hw_descr \<Rightarrow> sk_buff \<Rightarrow> wl1271_tx_hw_descr"
  op_get_rx_buf_align :: "wl1271 \<Rightarrow> u32 \<Rightarrow> wl_rx_buf_align"
  op_prepare_read :: "(wl_env \<Rightarrow> wl1271 \<Rightarrow> u32 \<Rightarrow> nat \<Rightarrow> unit res \<times> wl1271) option"
  op_get_rx_packet_len :: "wl1271 \<Rightarrow> bytes \<Rightarrow> nat \<Rightarrow> nat"
  op_tx_delayed_compl :: "(wl_env \<Rightarrow> wl1271 \<Rightarrow> unit res \<times> wl1271) option"
  op_tx_immediate_compl :: "(wl_env \<Rightarrow> wl1271 \<Rightarrow> wl1271) option"
  op_sta_get_ap_rate_mask :: "wl1271 \<Rightarrow> vif_ptr \<Rightarrow> u32"
  op_ap_get_mimo_wide_rate_mask :: "(wl1271 \<Rightarrow> vif_ptr \<Rightarrow> u32) option"
  op_set_tx_desc_csum :: "wl1271 \<Rightarrow> wl1271_tx_hw_descr \<Rightarrow> sk_buff \<Rightarrow> wl1271_tx_hw_descr"
  op_set_rx_csum :: "(wl1271 \<Rightarrow> bytes \<Rightarrow> sk_buff \<Rightarrow> sk_buff) option"
  op_get_spare_blocks :: "wl1271 \<Rightarrow> bool \<Rightarrow> nat"
  op_pre_pkt_send :: "(wl1271 \<Rightarrow> nat \<Rightarrow> nat \<Rightarrow> nat \<times> wl1271) option"
  op_identify_fw :: "(wl1271 \<Rightarrow> unit res \<times> wl1271) option"
  op_handle_static_data :: "(wl1271 \<Rightarrow> bytes \<Rightarrow> unit res \<times> wl1271) option"

definition wlcore_hw_prepare_read ::
  "wlcore_ops \<Rightarrow> wl_env \<Rightarrow> wl1271 \<Rightarrow> u32 \<Rightarrow> nat \<Rightarrow> unit res \<times> wl1271" where
  "wlcore_hw_prepare_read ops env wl rx_desc len =
     (case op_prepare_read ops of Some f \<Rightarrow> f env wl rx_desc len | None \<Rightarrow> (Inr (), wl))"

definition wlcore_hw_tx_delayed_compl ::
  "wlcore_ops \<Rightarrow> wl_env \<Rightarrow> wl1271 \<Rightarrow> unit res \<times> wl1271" where
  "wlcore_hw_tx_delayed_compl ops env wl =
     (case op_tx_delayed_compl ops of Some f \<Rightarrow> f env wl | None \<Rightarrow> (Inr (), wl))"

definition wlcore_hw_tx_immediate_compl :: "wlcore_ops \<Rightarrow> wl_env \<Rightarrow> wl1271 \<Rightarrow> wl1271" where
  "wlcore_hw_tx_immediate_compl ops env wl =
     (case op_tx_immediate_compl ops of Some f \<Rightarrow> f env wl | None \<Rightarrow> wl)"

definition wlcore_hw_set_rx_csum :: "wlcore_ops \<Rightarrow> wl1271 \<Rightarrow> bytes \<Rightarrow> sk_buff \<Rightarrow> sk_buff" where
  "wlcore_hw_set_rx_csum ops wl desc skb =
     (case op_set_rx_csum ops of Some f \<Rightarrow> f wl desc skb | None \<Rightarrow> skb)"

definition wlcore_hw_ap_get_mimo_wide_rate_mask :: "wlcore_ops \<Rightarrow> wl1271 \<Rightarrow> vif_ptr \<Rightarrow> u32" where
  "wlcore_hw_ap_get_mimo_wide_rate_mask ops wl v =
     (case op_ap_get_mimo_wide_rate_mask ops of Some f \<Rightarrow> f wl v | None \<Rightarrow> 0)"

definition wlcore_hw_pre_pkt_send :: "wlcore_ops \<Rightarrow> wl1271 \<Rightarrow> nat \<Rightarrow> nat \<Rightarrow> nat \<times> wl1271" where
  "wlcore_hw_pre_pkt_send ops wl buf_offset last_len =
     (case op_pre_pkt_send ops of Some f \<Rightarrow> f wl buf_offset last_len | None \<Rightarrow> (buf_offset, wl))"

definition wlcore_identify_fw :: "wlcore_ops \<Rightarrow> wl1271 \<Rightarrow> unit res \<times> wl1271" where
  "wlcore_identify_fw ops wl = (case op_identify_fw ops of Some f \<Rightarrow> f wl | None \<Rightarrow> (Inr (), wl))"

definition wlcore_handle_static_data :: "wlcore_ops \<Rightarrow> wl1271 \<Rightarrow> bytes \<Rightarrow> unit res \<times> wl1271" where
  "wlcore_handle_static_data ops wl static_data =
     (case op_handle_static_data ops of Some f \<Rightarrow> f wl static_data | None \<Rightarrow> (Inr (), wl))"

section \<open>The contract of the bus operations\<close>

text \<open>
  What the core relies on when it sends commands and reads packets: the chip's own transfers go
  through the bus layer and touch nothing else.
\<close>

locale chip_bus =
  fixes ops :: wlcore_ops
  assumes trigger_io: "io_step wl (snd (op_trigger_cmd ops env wl a b))"
    and ack_event_io: "io_step wl (snd (op_ack_event ops env wl))"
    and prepare_read_io: "op_prepare_read ops = Some f \<Longrightarrow> io_step wl (snd (f env wl d n))"
begin

lemma hw_prepare_read_io: "io_step wl (snd (wlcore_hw_prepare_read ops env wl d n))"
  by (auto simp: wlcore_hw_prepare_read_def split: option.split intro: prepare_read_io)

end

section \<open>Quiet steps and the accounts\<close>

lemma returned_quiet: "list_all quiet_call l \<Longrightarrow> (\<Sum>c\<leftarrow>l. returned_by c) = {#}"
proof (induction l)
  case (Cons c l)
  moreover have "quiet_call c \<Longrightarrow> returned_by c = {#}" by (cases c) simp_all
  ultimately show ?case by simp
qed simp

lemma mac_stopped_quiet: "list_all quiet_call l \<Longrightarrow> mac_stopped (k @ l) m = mac_stopped k m"
  by (rule mac_stopped_other) (auto simp: list_all_iff)

lemma cmd_step_accounts:
  assumes "cmd_step wl wl'"
  shows "queue_ok wl' = queue_ok wl" and "queued wl' = queued wl" and "returned wl' = returned wl"
    and "stop_view_ok wl' = stop_view_ok wl" and "links_ok wl' = links_ok wl"
proof -
  have d: "WL1271_FLAG_DUMMY_PACKET_PENDING \<in> wl_flags wl' \<longleftrightarrow> WL1271_FLAG_DUMMY_PACKET_PENDING \<in> wl_flags wl"
    by (rule cmd_step_flag [OF assms]) simp_all
  from assms obtain s l f where wl': "wl' = wl\<lparr>wl_state := s, wl_flags := f, log := log wl @ l\<rparr>"
    and q: "list_all quiet_call l" by (elim cmd_stepE)
  have d': "(WL1271_FLAG_DUMMY_PACKET_PENDING \<in> f) = (WL1271_FLAG_DUMMY_PACKET_PENDING \<in> wl_flags wl)"
    using d by (simp add: wl')
  show "queue_ok wl' = queue_ok wl" "queued wl' = queued wl"
    by (rule queue_ok_cong; simp add: wl' d' skb_ac_def)+
  show "returned wl' = returned wl" using returned_quiet [OF q] by (simp add: wl' returned_def)
  show "stop_view_ok wl' = stop_view_ok wl"
    using mac_stopped_quiet [OF q] by (simp add: wl' stop_view_ok_def wlcore_is_queue_stopped_def)
  show "links_ok wl' = links_ok wl" by (simp add: wl' links_ok_def)
qed

end
