(* ===== verification/WlCmd.thy ===== *)
theory WlCmd
  imports WlOps
begin

unbundle bit_operations_syntax

text \<open>
  The command channel to the firmware (wlcore/cmd.c): sending a command and polling for its
  completion, waiting for an event, and the commands that allocate roles and links. A command is
  its byte image, header included.

  Time is the number of milliseconds since the call: a slow poll takes at least one, a fast poll may
  take none, and the environment may add any delay (\<open>e_delay_ms\<close>). \<open>poll_count\<close> is a \<open>u16\<close> in the
  code; with these timeouts it stays far below the wrap.
\<close>

section \<open>Sending a command\<close>

abbreviation (input) CMD_CONFIGURE :: u16 where "CMD_CONFIGURE \<equiv> 2"
abbreviation (input) CMD_INTERROGATE :: u16 where "CMD_INTERROGATE \<equiv> 1"
abbreviation (input) CMD_SET_KEYS :: u16 where "CMD_SET_KEYS \<equiv> 9"
abbreviation (input) CMD_SET_PS_MODE :: u16 where "CMD_SET_PS_MODE \<equiv> 19"
abbreviation (input) CMD_ROLE_ENABLE :: u16 where "CMD_ROLE_ENABLE \<equiv> 35"
abbreviation (input) CMD_ROLE_DISABLE :: u16 where "CMD_ROLE_DISABLE \<equiv> 36"
abbreviation (input) CMD_ROLE_START :: u16 where "CMD_ROLE_START \<equiv> 37"
abbreviation (input) CMD_ROLE_STOP :: u16 where "CMD_ROLE_STOP \<equiv> 38"

abbreviation (input) CMD_STATUS_SUCCESS :: nat where "CMD_STATUS_SUCCESS \<equiv> 1"
abbreviation (input) MAX_COMMAND_STATUS :: nat where "MAX_COMMAND_STATUS \<equiv> 25"
abbreviation (input) WL1271_ACX_INTR_CMD_COMPLETE :: u32 where "WL1271_ACX_INTR_CMD_COMPLETE \<equiv> 16"
abbreviation (input) WL1271_COMMAND_TIMEOUT :: nat where "WL1271_COMMAND_TIMEOUT \<equiv> 2000"
abbreviation (input) WL1271_EVENT_TIMEOUT :: nat where "WL1271_EVENT_TIMEOUT \<equiv> 1500"
abbreviation (input) ROLE_STOP_COMPLETE_EVENT_ID :: u32 where "ROLE_STOP_COMPLETE_EVENT_ID \<equiv> 0x8000"

function cmd_poll :: "wl_env \<Rightarrow> u32 \<Rightarrow> nat \<Rightarrow> nat \<Rightarrow> wl1271 \<Rightarrow> unit res \<times> wl1271" where
  "cmd_poll env intr poll_count elapsed wl =
     (if intr AND WL1271_ACX_INTR_CMD_COMPLETE \<noteq> 0 then (Inr (), wl)
      else if WL1271_COMMAND_TIMEOUT < elapsed then (Inl ETIMEDOUT, wl)
      else
        let poll_count' = poll_count + 1;
            wl1 = emit C_delay wl;
            elapsed' = elapsed + (if poll_count' < 50 then 0 else 1) + e_delay_ms env (log wl1)
        in case wlcore_read_reg env wl1 REG_INTERRUPT_NO_CLEAR of
             (Inl e, wl2) \<Rightarrow> (Inl e, wl2)
           | (Inr intr', wl2) \<Rightarrow> cmd_poll env intr' poll_count' elapsed' wl2)"
  by pat_completeness auto

termination
  by (relation "measure (\<lambda>(env, intr, poll_count, elapsed, wl).
        (50 - poll_count) + (WL1271_COMMAND_TIMEOUT + 1 - elapsed))") auto

declare cmd_poll.simps [simp del]

text \<open>
  The command image: identifier, zero status, body. The response overwrites its first
  \<open>res_len\<close> bytes (the header alone when \<open>res_len\<close> is 0); its status is the result.
\<close>

definition cmd_image :: "u16 \<Rightarrow> bytes \<Rightarrow> bytes" where
  "cmd_image cid body = le16 cid @ le16 0 @ body"

definition wlcore_cmd_send_raw ::
  "wlcore_ops \<Rightarrow> wl_env \<Rightarrow> wl1271 \<Rightarrow> u16 \<Rightarrow> bytes \<Rightarrow> nat \<Rightarrow> (nat \<times> bytes) res \<times> wl1271" where
  "wlcore_cmd_send_raw ops env wl cid body res_len =
     (if wl_state wl = WLCORE_STATE_RESTARTING then (Inl EIO, emit C_warn wl)
      else
        let buf = cmd_image cid body;
            rlen = (if res_len = 0 then 4 else res_len);
            wl1 = (if length buf mod 4 \<noteq> 0 then emit C_warn wl else wl);
            wl2 = (if WL1271_FLAG_IN_ELP \<in> wl_flags wl1 then emit C_warn wl1 else wl1)
        in and_then (wlcore_write env wl2 (cmd_box_addr wl2) buf False) (\<lambda>_ wl3.
           and_then (op_trigger_cmd ops env wl3 (cmd_box_addr wl3) buf) (\<lambda>_ wl4.
           and_then (wlcore_read_reg env wl4 REG_INTERRUPT_NO_CLEAR) (\<lambda>intr wl5.
           and_then (cmd_poll env intr 0 0 wl5) (\<lambda>_ wl6.
           and_then (wlcore_read env wl6 (cmd_box_addr wl6) rlen False) (\<lambda>r wl7.
           and_then (wlcore_write_reg env wl7 REG_INTERRUPT_ACK WL1271_ACX_INTR_CMD_COMPLETE)
             (\<lambda>_ wl8. (Inr (unat (get_le16 2 r), r @ drop rlen buf), wl8))))))))"

definition wlcore_cmd_send_failsafe ::
  "wlcore_ops \<Rightarrow> wl_env \<Rightarrow> wl1271 \<Rightarrow> u16 \<Rightarrow> bytes \<Rightarrow> nat \<Rightarrow> nat set \<Rightarrow> (nat \<times> bytes) res \<times> wl1271" where
  "wlcore_cmd_send_failsafe ops env wl cid body res_len valid_rets =
     (case wlcore_cmd_send_raw ops env wl cid body res_len of
        (Inl e, wl1) \<Rightarrow> (Inl e, wl12xx_queue_recovery_work wl1)
      | (Inr (status, r), wl1) \<Rightarrow>
          if MAX_COMMAND_STATUS \<le> status \<or> status \<notin> insert CMD_STATUS_SUCCESS valid_rets
          then (Inl EIO, wl12xx_queue_recovery_work wl1)
          else (Inr (status, r), wl1))"

definition wl1271_cmd_send ::
  "wlcore_ops \<Rightarrow> wl_env \<Rightarrow> wl1271 \<Rightarrow> u16 \<Rightarrow> bytes \<Rightarrow> nat \<Rightarrow> bytes res \<times> wl1271" where
  "wl1271_cmd_send ops env wl cid body res_len =
     and_then (wlcore_cmd_send_failsafe ops env wl cid body res_len {})
       (\<lambda>sr wl1. (Inr (snd sr), wl1))"

text \<open>
  Information elements travel in a command whose body starts with the element's id and length.
\<close>

definition wlcore_cmd_configure_failsafe ::
  "wlcore_ops \<Rightarrow> wl_env \<Rightarrow> wl1271 \<Rightarrow> u16 \<Rightarrow> bytes \<Rightarrow> nat set \<Rightarrow> nat res \<times> wl1271" where
  "wlcore_cmd_configure_failsafe ops env wl cid acx valid_rets =
     and_then (wlcore_cmd_send_failsafe ops env wl CMD_CONFIGURE
                 (le16 cid @ le16 (of_nat (length acx)) @ acx) 0 valid_rets)
       (\<lambda>sr wl1. (Inr (fst sr), wl1))"

definition wl1271_cmd_configure ::
  "wlcore_ops \<Rightarrow> wl_env \<Rightarrow> wl1271 \<Rightarrow> u16 \<Rightarrow> bytes \<Rightarrow> unit res \<times> wl1271" where
  "wl1271_cmd_configure ops env wl cid acx =
     and_then (wlcore_cmd_configure_failsafe ops env wl cid acx {}) (\<lambda>_ wl1. (Inr (), wl1))"

text \<open>The answer of an interrogation, \<open>len\<close> bytes with all headers.\<close>

definition wl1271_cmd_interrogate ::
  "wlcore_ops \<Rightarrow> wl_env \<Rightarrow> wl1271 \<Rightarrow> u16 \<Rightarrow> nat \<Rightarrow> bytes res \<times> wl1271" where
  "wl1271_cmd_interrogate ops env wl cid len =
     wl1271_cmd_send ops env wl CMD_INTERROGATE (le16 cid @ le16 (of_nat (len - 8))) len"

text \<open>An allocation of zeroed memory may fail.\<close>

definition kzalloc :: "wl_env \<Rightarrow> nat \<Rightarrow> wl1271 \<Rightarrow> unit res \<times> wl1271" where
  "kzalloc env n wl =
     (let wl1 = emit (C_alloc n) wl in (if e_alloc env (log wl1) then Inr () else Inl ENOMEM, wl1))"

section \<open>Waiting for an event\<close>

text \<open>The result tells whether the wait timed out.\<close>

function event_poll :: "wl_env \<Rightarrow> u32 \<Rightarrow> nat \<Rightarrow> nat \<Rightarrow> wl1271 \<Rightarrow> bool res \<times> wl1271" where
  "event_poll env msk poll_count elapsed wl =
     (if WL1271_EVENT_TIMEOUT < elapsed then (Inr True, wl)
      else
        let poll_count' = poll_count + 1;
            wl1 = emit C_delay wl;
            elapsed' = elapsed + (if poll_count' < 20 then 0 else 1) + e_delay_ms env (log wl1)
        in case wlcore_read env wl1 (mbox_ptr wl1 0) 4 False of
             (Inl e, wl2) \<Rightarrow> (Inl e, wl2)
           | (Inr v0, wl2) \<Rightarrow>
           (case wlcore_read env wl2 (mbox_ptr wl2 1) 4 False of
             (Inl e, wl3) \<Rightarrow> (Inl e, wl3)
           | (Inr v1, wl3) \<Rightarrow>
               if (get_le32 0 v0 AND msk) OR (get_le32 0 v1 AND msk) \<noteq> 0 then (Inr False, wl3)
               else event_poll env msk poll_count' elapsed' wl3))"
  by pat_completeness auto

termination
  by (relation "measure (\<lambda>(env, msk, poll_count, elapsed, wl).
        (20 - poll_count) + (WL1271_EVENT_TIMEOUT + 1 - elapsed))") auto

declare event_poll.simps [simp del]

definition wl1271_cmd_wait_for_event_or_timeout ::
  "wl_env \<Rightarrow> wl1271 \<Rightarrow> u32 \<Rightarrow> bool res \<times> wl1271" where
  "wl1271_cmd_wait_for_event_or_timeout env wl msk =
     and_then (kzalloc env 4 wl) (\<lambda>_ wl1. event_poll env msk 0 0 wl1)"

definition wl1271_cmd_wait_for_event :: "wl_env \<Rightarrow> wl1271 \<Rightarrow> u32 \<Rightarrow> unit res \<times> wl1271" where
  "wl1271_cmd_wait_for_event env wl msk =
     (case wl1271_cmd_wait_for_event_or_timeout env wl msk of
        (Inl e, wl1) \<Rightarrow> (Inl e, wl12xx_queue_recovery_work wl1)
      | (Inr timeout, wl1) \<Rightarrow>
          (Inr (), if timeout then wl12xx_queue_recovery_work wl1 else wl1))"

section \<open>Roles\<close>

text \<open>The caller's \<open>role_id\<close> variable goes in by value and the new value is the result.\<close>

definition wl12xx_cmd_role_enable ::
  "wlcore_ops \<Rightarrow> wl_env \<Rightarrow> wl1271 \<Rightarrow> bytes \<Rightarrow> u8 \<Rightarrow> nat \<Rightarrow> nat res \<times> wl1271" where
  "wl12xx_cmd_role_enable ops env wl addr role_type rid_var =
     (if rid_var \<noteq> WL12XX_INVALID_ROLE_ID then (Inl EBUSY, emit C_warn wl)
      else and_then (kzalloc env 12 wl) (\<lambda>_ wl1.
        let rid = find_first_zero_bit (roles_map wl1) WL12XX_MAX_ROLES
        in if WL12XX_MAX_ROLES \<le> rid then (Inl EBUSY, wl1)
           else and_then (wl1271_cmd_send ops env wl1 CMD_ROLE_ENABLE
                            ([of_nat rid, role_type] @ addr) 0) (\<lambda>_ wl2.
             (Inr rid, wl2\<lparr>roles_map := insert rid (roles_map wl2)\<rparr>))))"

definition wl12xx_cmd_role_disable ::
  "wlcore_ops \<Rightarrow> wl_env \<Rightarrow> wl1271 \<Rightarrow> nat \<Rightarrow> nat res \<times> wl1271" where
  "wl12xx_cmd_role_disable ops env wl rid_var =
     (if rid_var = WL12XX_INVALID_ROLE_ID then (Inl ENOENT, emit C_warn wl)
      else and_then (kzalloc env 8 wl) (\<lambda>_ wl1.
        and_then (wl1271_cmd_send ops env wl1 CMD_ROLE_DISABLE [of_nat rid_var, 0, 0, 0] 0) (\<lambda>_ wl2.
          (Inr WL12XX_INVALID_ROLE_ID, wl2\<lparr>roles_map := roles_map wl2 - {rid_var}\<rparr>))))"

section \<open>Links\<close>

definition wl12xx_allocate_link :: "wl1271 \<Rightarrow> vif_ptr \<Rightarrow> nat res \<times> wl1271" where
  "wl12xx_allocate_link wl v =
     (let link = find_first_zero_bit (links_map wl) WL12XX_MAX_LINKS
      in if WL12XX_MAX_LINKS \<le> link then (Inl EBUSY, wl)
         else (Inr link, upd_vif v (\<lambda>vf. vf\<lparr>vif_links_map := insert link (vif_links_map vf)\<rparr>)
                           (wl\<lparr>links_map := insert link (links_map wl)\<rparr>)))"

text \<open>The caller's link variable is set to \<open>WL12XX_INVALID_LINK_ID\<close> in every case.\<close>

definition wl12xx_free_link :: "wl1271 \<Rightarrow> vif_ptr \<Rightarrow> nat \<Rightarrow> wl1271" where
  "wl12xx_free_link wl v hlid =
     (if hlid = WL12XX_INVALID_LINK_ID then wl
      else wl1271_tx_reset_link_queues
             (upd_vif v (\<lambda>vf. vf\<lparr>vif_links_map := vif_links_map vf - {hlid}\<rparr>)
                (wl\<lparr>links_map := links_map wl - {hlid}\<rparr>)) hlid)"

definition wl12xx_get_new_session_id :: "wl1271 \<Rightarrow> vif_ptr \<Rightarrow> nat \<times> wl1271" where
  "wl12xx_get_new_session_id wl v =
     (let c = session_counter (vifs wl v);
          c' = (if SESSION_COUNTER_MAX \<le> c then 0 else c) + 1
      in (c', upd_vif v (\<lambda>vf. vf\<lparr>session_counter := c'\<rparr>) wl))"

section \<open>Starting and stopping roles\<close>

text \<open>The members of mac80211's BSS configuration that the role commands use.\<close>

record ieee80211_bss_conf =
  bc_bssid :: bytes
  bc_dtim_period :: u8
  bc_hidden_ssid :: bool
  bc_ssid :: bytes

abbreviation (input) CONF_TX_AP_ENABLED_RATES :: u32 where "CONF_TX_AP_ENABLED_RATES \<equiv> 0x1EFF"
abbreviation (input) CONF_TX_MCS_RATES :: u32 where "CONF_TX_MCS_RATES \<equiv> 0x1FE000"
abbreviation (input) CONF_TX_CCK_RATES :: u32 where "CONF_TX_CCK_RATES \<equiv> 0x27"

definition wlcore_get_native_channel_type :: "nl80211_channel_type \<Rightarrow> u8" where
  "wlcore_get_native_channel_type t =
     (case t of NL80211_CHAN_NO_HT \<Rightarrow> 0 | NL80211_CHAN_HT20 \<Rightarrow> 1 | NL80211_CHAN_HT40MINUS \<Rightarrow> 2
      | NL80211_CHAN_HT40PLUS \<Rightarrow> 3)"

definition pad_to :: "nat \<Rightarrow> bytes \<Rightarrow> bytes" where
  "pad_to n xs = take n (xs @ replicate n 0)"

text \<open>
  The body of \<open>struct wl12xx_cmd_role_start\<close>: role, band, channel, channel type and a union of 60
  bytes.
\<close>

definition role_start_body :: "nat \<Rightarrow> u8 \<Rightarrow> nat \<Rightarrow> u8 \<Rightarrow> bytes \<Rightarrow> bytes" where
  "role_start_body rid band channel chtype u =
     [of_nat rid, band, of_nat channel, chtype] @ pad_to 60 u"

definition band_5ghz :: "ieee80211_band \<Rightarrow> u8" where
  "band_5ghz b = (if b = IEEE80211_BAND_5GHZ then 1 else 0)"

definition wl12xx_cmd_role_start_dev ::
  "wlcore_ops \<Rightarrow> wl_env \<Rightarrow> wl1271 \<Rightarrow> vif_ptr \<Rightarrow> ieee80211_band \<Rightarrow> nat \<Rightarrow> unit res \<times> wl1271" where
  "wl12xx_cmd_role_start_dev ops env wl v band channel =
     and_then (kzalloc env 68 wl) (\<lambda>_ wl1.
     and_then (if dev_hlid (vifs wl1 v) = WL12XX_INVALID_LINK_ID then
                 and_then (wl12xx_allocate_link wl1 v) (\<lambda>h wl2.
                   (Inr (), upd_vif v (\<lambda>vf. vf\<lparr>dev_hlid := h\<rparr>) wl2))
               else (Inr (), wl1)) (\<lambda>_ wl3.
       let (session, wl4) = wl12xx_get_new_session_id wl3 v; vf = vifs wl4 v;
           body = role_start_body (dev_role_id vf) (band_5ghz band) channel 0
                    [of_nat (dev_hlid vf), of_nat session]
       in case wl1271_cmd_send ops env wl4 CMD_ROLE_START body 0 of
            (Inl e, wl5) \<Rightarrow>
              (Inl e, upd_vif v (\<lambda>vf. vf\<lparr>dev_hlid := WL12XX_INVALID_LINK_ID\<rparr>)
                        (wl12xx_free_link wl5 v (dev_hlid (vifs wl5 v))))
          | (Inr _, wl5) \<Rightarrow> (Inr (), wl5)))"

definition role_stop_body :: "nat \<Rightarrow> bytes" where
  "role_stop_body rid = [of_nat rid, 0] @ le16 1"

definition wl12xx_cmd_role_stop_dev ::
  "wlcore_ops \<Rightarrow> wl_env \<Rightarrow> wl1271 \<Rightarrow> vif_ptr \<Rightarrow> unit res \<times> wl1271" where
  "wl12xx_cmd_role_stop_dev ops env wl v =
     (if dev_hlid (vifs wl v) = WL12XX_INVALID_LINK_ID then (Inl EINVAL, emit C_warn wl)
      else and_then (kzalloc env 8 wl) (\<lambda>_ wl1.
           and_then (wl1271_cmd_send ops env wl1 CMD_ROLE_STOP
                       (role_stop_body (dev_role_id (vifs wl1 v))) 0) (\<lambda>_ wl2.
           and_then (wl1271_cmd_wait_for_event env wl2 ROLE_STOP_COMPLETE_EVENT_ID) (\<lambda>_ wl3.
             (Inr (), upd_vif v (\<lambda>vf. vf\<lparr>dev_hlid := WL12XX_INVALID_LINK_ID\<rparr>)
                        (wl12xx_free_link wl3 v (dev_hlid (vifs wl3 v))))))))"

definition supported_rates :: "bool \<Rightarrow> u32 \<Rightarrow> u32" where
  "supported_rates p2p chip_mask =
     (let r = CONF_TX_AP_ENABLED_RATES OR CONF_TX_MCS_RATES OR chip_mask
      in if p2p then r AND NOT CONF_TX_CCK_RATES else r)"

definition sta_role_union ::
  "wl12xx_vif \<Rightarrow> ieee80211_bss_conf \<Rightarrow> u32 \<Rightarrow> nat \<Rightarrow> bytes" where
  "sta_role_union vf bss rates session =
     pad_to 6 (bc_bssid bss) @ [of_nat (sta_hlid vf), of_nat session] @ le32 rates
     @ le32 (basic_rate_set vf) @ le32 rates @ [2, of_nat (length (vif_ssid vf))]
     @ pad_to 32 (vif_ssid vf) @ le16 (of_nat (beacon_int vf))"

definition wl12xx_cmd_role_start_sta ::
  "wlcore_ops \<Rightarrow> wl_env \<Rightarrow> wl1271 \<Rightarrow> vif_ptr \<Rightarrow> ieee80211_bss_conf \<Rightarrow> unit res \<times> wl1271" where
  "wl12xx_cmd_role_start_sta ops env wl v bss =
     and_then (kzalloc env 68 wl) (\<lambda>_ wl1.
     and_then (if sta_hlid (vifs wl1 v) = WL12XX_INVALID_LINK_ID then
                 and_then (wl12xx_allocate_link wl1 v) (\<lambda>h wl2.
                   (Inr (), upd_vif v (\<lambda>vf. vf\<lparr>sta_hlid := h\<rparr>) wl2))
               else (Inr (), wl1)) (\<lambda>_ wl3.
       let (session, wl4) = wl12xx_get_new_session_id wl3 v; vf = vifs wl4 v;
           rates = supported_rates (vif_p2p vf) (op_sta_get_ap_rate_mask ops wl4 v);
           body = role_start_body (role_id vf) (band_5ghz (vif_band vf)) (vif_channel vf)
                    (wlcore_get_native_channel_type (vif_channel_type vf))
                    (sta_role_union vf bss rates session)
       in case wl1271_cmd_send ops env wl4 CMD_ROLE_START body 0 of
            (Inl e, wl5) \<Rightarrow>
              (Inl e, upd_vif v (\<lambda>vf. vf\<lparr>sta_hlid := WL12XX_INVALID_LINK_ID\<rparr>)
                        (wl12xx_free_link wl5 v (sta_hlid (vifs wl5 v))))
          | (Inr _, wl5) \<Rightarrow>
              (Inr (), upd_vif v (\<lambda>vf. vf\<lparr>sta_role_chan_type := vif_channel_type vf\<rparr>) wl5)))"

definition wl12xx_cmd_role_stop_sta ::
  "wlcore_ops \<Rightarrow> wl_env \<Rightarrow> wl1271 \<Rightarrow> vif_ptr \<Rightarrow> unit res \<times> wl1271" where
  "wl12xx_cmd_role_stop_sta ops env wl v =
     (if sta_hlid (vifs wl v) = WL12XX_INVALID_LINK_ID then (Inl EINVAL, emit C_warn wl)
      else and_then (kzalloc env 8 wl) (\<lambda>_ wl1.
           and_then (wl1271_cmd_send ops env wl1 CMD_ROLE_STOP
                       (role_stop_body (role_id (vifs wl1 v))) 0) (\<lambda>_ wl2.
             let (r, wl3) = (case wl1271_cmd_wait_for_event_or_timeout env wl2
                                    ROLE_STOP_COMPLETE_EVENT_ID of
                               (Inl e, wl') \<Rightarrow> (Inl e, wl12xx_queue_recovery_work wl')
                             | (Inr _, wl') \<Rightarrow> (Inr (), wl'))
             in (r, upd_vif v (\<lambda>vf. vf\<lparr>sta_hlid := WL12XX_INVALID_LINK_ID\<rparr>)
                      (wl12xx_free_link wl3 v (sta_hlid (vifs wl3 v)))))))"

definition wl12xx_cmd_role_start_ibss ::
  "wlcore_ops \<Rightarrow> wl_env \<Rightarrow> wl1271 \<Rightarrow> vif_ptr \<Rightarrow> ieee80211_bss_conf \<Rightarrow> unit res \<times> wl1271" where
  "wl12xx_cmd_role_start_ibss ops env wl v bss =
     and_then (kzalloc env 68 wl) (\<lambda>_ wl1.
     and_then (if sta_hlid (vifs wl1 v) = WL12XX_INVALID_LINK_ID then
                 and_then (wl12xx_allocate_link wl1 v) (\<lambda>h wl2.
                   (Inr (), upd_vif v (\<lambda>vf. vf\<lparr>sta_hlid := h\<rparr>) wl2))
               else (Inr (), wl1)) (\<lambda>_ wl3.
       let vf = vifs wl3 v;
           u = pad_to 6 (bc_bssid bss) @ [of_nat (sta_hlid vf), bc_dtim_period bss]
               @ le32 (rate_set vf) @ le32 (basic_rate_set vf) @ le32 (rate_set vf)
               @ [2, of_nat (length (vif_ssid vf))] @ pad_to 32 (vif_ssid vf)
               @ le16 (of_nat (beacon_int vf));
           body = role_start_body (role_id vf) (band_5ghz (vif_band vf)) (vif_channel vf) 0 u
       in case wl1271_cmd_send ops env wl3 CMD_ROLE_START body 0 of
            (Inl e, wl5) \<Rightarrow>
              (Inl e, upd_vif v (\<lambda>vf. vf\<lparr>sta_hlid := WL12XX_INVALID_LINK_ID\<rparr>)
                        (wl12xx_free_link wl5 v (sta_hlid (vifs wl5 v))))
          | (Inr _, wl5) \<Rightarrow> (Inr (), wl5)))"

definition ap_role_union ::
  "wl1271 \<Rightarrow> wl12xx_vif \<Rightarrow> ieee80211_bss_conf \<Rightarrow> u32 \<Rightarrow> bytes" where
  "ap_role_union wl vf bss rates =
     (let ssid = (if bc_hidden_ssid bss then bc_ssid bss else vif_ssid vf)
      in le16 (of_nat (cf_ap_aging_period (conf wl))) @ [20, 0]
         @ [of_nat (ap_global_hlid vf), of_nat (ap_bcast_hlid vf)] @ le16 (of_nat (beacon_int vf))
         @ le32 (basic_rate_set vf) @ le32 rates
         @ [bc_dtim_period bss, if bc_hidden_ssid bss then 1 else 0, of_nat (length ssid)]
         @ pad_to 32 ssid @ [1, if vif_wmm_enabled vf then 1 else 0])"

definition wl12xx_cmd_role_start_ap ::
  "wlcore_ops \<Rightarrow> wl_env \<Rightarrow> wl1271 \<Rightarrow> vif_ptr \<Rightarrow> ieee80211_bss_conf \<Rightarrow> unit res \<times> wl1271" where
  "wl12xx_cmd_role_start_ap ops env wl v bss =
     (if vif_ssid (vifs wl v) = [] \<and> \<not> bc_hidden_ssid bss then (Inl EINVAL, wl)
      else
        and_then (kzalloc env 68 wl) (\<lambda>_ wl1.
        and_then (wl12xx_allocate_link wl1 v) (\<lambda>gh wl2.
          let wl3 = upd_vif v (\<lambda>vf. vf\<lparr>ap_global_hlid := gh\<rparr>) wl2;
              free_global = (\<lambda>w. upd_vif v (\<lambda>vf. vf\<lparr>ap_global_hlid := WL12XX_INVALID_LINK_ID\<rparr>)
                                 (wl12xx_free_link w v (ap_global_hlid (vifs w v))));
              free_bcast = (\<lambda>w. upd_vif v (\<lambda>vf. vf\<lparr>ap_bcast_hlid := WL12XX_INVALID_LINK_ID\<rparr>)
                                 (wl12xx_free_link w v (ap_bcast_hlid (vifs w v))))
          in case wl12xx_allocate_link wl3 v of
               (Inl e, wl4) \<Rightarrow> (Inl e, free_global wl4)
             | (Inr bh, wl4) \<Rightarrow>
                 let wl5 = upd_vif v (\<lambda>vf. vf\<lparr>ap_bcast_hlid := bh\<rparr>) wl4; vf = vifs wl5 v;
                     rates = supported_rates (vif_p2p vf)
                               (wlcore_hw_ap_get_mimo_wide_rate_mask ops wl5 v);
                     body = role_start_body (role_id vf) (band_5ghz (vif_band vf)) (vif_channel vf)
                              (wlcore_get_native_channel_type (vif_channel_type vf))
                              (ap_role_union wl5 vf bss rates)
                 in case wl1271_cmd_send ops env wl5 CMD_ROLE_START body 0 of
                      (Inl e, wl6) \<Rightarrow> (Inl e, free_global (free_bcast wl6))
                    | (Inr _, wl6) \<Rightarrow> (Inr (), wl6))))"

definition wl12xx_cmd_role_stop_ap ::
  "wlcore_ops \<Rightarrow> wl_env \<Rightarrow> wl1271 \<Rightarrow> vif_ptr \<Rightarrow> unit res \<times> wl1271" where
  "wl12xx_cmd_role_stop_ap ops env wl v =
     and_then (kzalloc env 8 wl) (\<lambda>_ wl1.
     and_then (wl1271_cmd_send ops env wl1 CMD_ROLE_STOP [of_nat (role_id (vifs wl1 v)), 0, 0, 0] 0)
       (\<lambda>_ wl2.
         let wl3 = upd_vif v (\<lambda>vf. vf\<lparr>ap_bcast_hlid := WL12XX_INVALID_LINK_ID\<rparr>)
                     (wl12xx_free_link wl2 v (ap_bcast_hlid (vifs wl2 v)));
             wl4 = upd_vif v (\<lambda>vf. vf\<lparr>ap_global_hlid := WL12XX_INVALID_LINK_ID\<rparr>)
                     (wl12xx_free_link wl3 v (ap_global_hlid (vifs wl3 v)))
         in (Inr (), wl4)))"

section \<open>Other commands of the data path\<close>

text \<open>
  The key command's body (\<open>struct wl1271_cmd_set_keys\<close>): link, key id, reserved, action, size, type
  and the rest zero.
\<close>

definition wl12xx_cmd_set_default_wep_key ::
  "wlcore_ops \<Rightarrow> wl_env \<Rightarrow> wl1271 \<Rightarrow> u8 \<Rightarrow> nat \<Rightarrow> unit res \<times> wl1271" where
  "wl12xx_cmd_set_default_wep_key ops env wl key_idx hlid =
     and_then (kzalloc env 68 wl) (\<lambda>_ wl1.
     and_then (wl1271_cmd_send ops env wl1 CMD_SET_KEYS
                 ([of_nat hlid, 2, key_idx, 0] @ le16 3 @ [0, 1] @ replicate 56 0) 0) (\<lambda>_ wl2.
       (Inr (), wl2)))"

definition wl1271_cmd_ps_mode ::
  "wlcore_ops \<Rightarrow> wl_env \<Rightarrow> wl1271 \<Rightarrow> vif_ptr \<Rightarrow> u8 \<Rightarrow> u16 \<Rightarrow> unit res \<times> wl1271" where
  "wl1271_cmd_ps_mode ops env wl v ps_mode auto_ps_timeout =
     and_then (kzalloc env 8 wl) (\<lambda>_ wl1.
     and_then (wl1271_cmd_send ops env wl1 CMD_SET_PS_MODE
                 ([of_nat (role_id (vifs wl1 v)), ps_mode] @ le16 auto_ps_timeout) 0) (\<lambda>_ wl2.
       (Inr (), wl2)))"

text \<open>Information elements (wlcore/acx.c).\<close>

definition wl1271_acx_wake_up_conditions ::
  "wlcore_ops \<Rightarrow> wl_env \<Rightarrow> wl1271 \<Rightarrow> vif_ptr \<Rightarrow> u8 \<Rightarrow> u8 \<Rightarrow> unit res \<times> wl1271" where
  "wl1271_acx_wake_up_conditions ops env wl v wake_up_event listen_interval =
     and_then (kzalloc env 12 wl) (\<lambda>_ wl1.
       wl1271_cmd_configure ops env wl1 0x0000
         [of_nat (role_id (vifs wl1 v)), wake_up_event, listen_interval, 0])"

definition wl1271_acx_sleep_auth ::
  "wlcore_ops \<Rightarrow> wl_env \<Rightarrow> wl1271 \<Rightarrow> nat \<Rightarrow> unit res \<times> wl1271" where
  "wl1271_acx_sleep_auth ops env wl auth =
     and_then (kzalloc env 12 wl) (\<lambda>_ wl1.
     and_then (wl1271_cmd_configure ops env wl1 0x001D [of_nat auth, 0, 0, 0]) (\<lambda>_ wl2.
       (Inr (), wl2\<lparr>sleep_auth := auth\<rparr>)))"

definition wl1271_acx_bet_enable ::
  "wlcore_ops \<Rightarrow> wl_env \<Rightarrow> wl1271 \<Rightarrow> vif_ptr \<Rightarrow> bool \<Rightarrow> unit res \<times> wl1271" where
  "wl1271_acx_bet_enable ops env wl v enable =
     (if enable \<and> \<not> cf_bet_enable (conf wl) then (Inr (), wl)
      else and_then (kzalloc env 12 wl) (\<lambda>_ wl1.
        wl1271_cmd_configure ops env wl1 0x0029
          [of_nat (role_id (vifs wl1 v)), if enable then 1 else 0, cf_bet_max_consecutive (conf wl1), 0]))"

fun rx_streaming_loop ::
  "wlcore_ops \<Rightarrow> wl_env \<Rightarrow> vif_ptr \<Rightarrow> bool \<Rightarrow> nat list \<Rightarrow> wl1271 \<Rightarrow> unit res \<times> wl1271" where
  "rx_streaming_loop ops env v enable [] wl = (Inr (), wl)"
| "rx_streaming_loop ops env v enable (i # is) wl =
     (if \<not> bit (cf_rx_streaming_queues (conf wl)) i then rx_streaming_loop ops env v enable is wl
      else and_then (wl1271_cmd_configure ops env wl 0x000A
             [of_nat (role_id (vifs wl v)), of_nat i, if enable then push_bit i 1 else 0,
              of_nat (cf_rx_streaming_interval (conf wl)), of_nat (cf_rx_streaming_interval (conf wl)),
              0, 0, 0]) (\<lambda>_ wl1. rx_streaming_loop ops env v enable is wl1))"

definition wl1271_acx_ps_rx_streaming ::
  "wlcore_ops \<Rightarrow> wl_env \<Rightarrow> wl1271 \<Rightarrow> vif_ptr \<Rightarrow> bool \<Rightarrow> unit res \<times> wl1271" where
  "wl1271_acx_ps_rx_streaming ops env wl v enable =
     and_then (kzalloc env 16 wl) (\<lambda>_ wl1. rx_streaming_loop ops env v enable [0..<8] wl1)"

definition wl1271_acx_set_inconnection_sta ::
  "wlcore_ops \<Rightarrow> wl_env \<Rightarrow> wl1271 \<Rightarrow> bytes \<Rightarrow> unit res \<times> wl1271" where
  "wl1271_acx_set_inconnection_sta ops env wl addr =
     and_then (kzalloc env 16 wl) (\<lambda>_ wl1.
       wl1271_cmd_configure ops env wl1 0x003B (pad_to 6 addr @ [0, 0]))"

section \<open>What a command may change\<close>

lemma cmd_step_kzalloc: "cmd_step wl (snd (kzalloc env n wl))"
  by (simp add: kzalloc_def Let_def)

lemma io_step_cmd_poll: "io_step wl (snd (cmd_poll env intr n t wl))"
proof (induction env intr n t wl rule: cmd_poll.induct)
  case (1 env intr n t wl)
  let ?wl1 = "emit C_delay wl"
  have r: "io_step wl (snd (wlcore_read_reg env ?wl1 REG_INTERRUPT_NO_CLEAR))"
    by (rule io_step_trans [OF io_step_emit io_step_read_reg]) simp
  show ?case
  proof (cases "intr AND WL1271_ACX_INTR_CMD_COMPLETE \<noteq> 0 \<or> WL1271_COMMAND_TIMEOUT < t")
    case True
    then show ?thesis by (subst cmd_poll.simps) auto
  next
    case False
    obtain x wl2 where x: "wlcore_read_reg env ?wl1 REG_INTERRUPT_NO_CLEAR = (x, wl2)"
      by (cases "wlcore_read_reg env ?wl1 REG_INTERRUPT_NO_CLEAR")
    show ?thesis
    proof (cases x)
      case (Inl e)
      then show ?thesis using False x r by (subst cmd_poll.simps) simp
    next
      case (Inr intr')
      then have "io_step wl2 (snd (cmd_poll env intr' (n + 1)
          (t + (if n + 1 < 50 then 0 else 1) + e_delay_ms env (log ?wl1)) wl2))"
        using 1 False x by simp
      then have "io_step wl (snd (cmd_poll env intr' (n + 1)
          (t + (if n + 1 < 50 then 0 else 1) + e_delay_ms env (log ?wl1)) wl2))"
        using r x by (auto intro: io_step_trans)
      then show ?thesis using False x Inr by (subst cmd_poll.simps) (simp add: Let_def)
    qed
  qed
qed

lemma io_step_event_poll: "io_step wl (snd (event_poll env msk n t wl))"
proof (induction env msk n t wl rule: event_poll.induct)
  case (1 env msk n t wl)
  let ?wl1 = "emit C_delay wl"
  let ?t = "t + (if n + 1 < 20 then 0 else 1) + e_delay_ms env (log ?wl1)"
  obtain x wl2 where x: "wlcore_read env ?wl1 (mbox_ptr ?wl1 0) 4 False = (x, wl2)"
    by (cases "wlcore_read env ?wl1 (mbox_ptr ?wl1 0) 4 False")
  have r1: "io_step wl wl2"
    using io_step_trans [OF io_step_emit io_step_read, of C_delay wl env "mbox_ptr ?wl1 0" 4 False] x
    by simp
  obtain y wl3 where y: "wlcore_read env wl2 (mbox_ptr wl2 1) 4 False = (y, wl3)"
    by (cases "wlcore_read env wl2 (mbox_ptr wl2 1) 4 False")
  have r2: "io_step wl wl3"
    using io_step_trans [OF r1 io_step_read, of env "mbox_ptr wl2 1" 4 False] y by simp
  show ?case
  proof (cases "WL1271_EVENT_TIMEOUT < t")
    case True
    then show ?thesis by (subst event_poll.simps) simp
  next
    case False
    show ?thesis
    proof (cases "\<exists>v0 v1. x = Inr v0 \<and> y = Inr v1 \<and> \<not> ((get_le32 0 v0 AND msk) OR (get_le32 0 v1 AND msk) \<noteq> 0)")
      case True
      then obtain v0 v1 where v: "x = Inr v0" "y = Inr v1"
        "\<not> ((get_le32 0 v0 AND msk) OR (get_le32 0 v1 AND msk) \<noteq> 0)" by blast
      have "io_step wl3 (snd (event_poll env msk (n + 1) ?t wl3))"
        using 1 False x y v by simp
      then have "io_step wl (snd (event_poll env msk (n + 1) ?t wl3))"
        using r2 by (rule io_step_trans [rotated])
      then show ?thesis using False x y v by (subst event_poll.simps) (simp add: Let_def)
    next
      case False': False
      then show ?thesis
        using False x y r1 r2
        by (subst event_poll.simps) (auto simp: Let_def split: sum.splits)
    qed
  qed
qed

lemma cmd_step_wait_or_timeout:
  "cmd_step wl (snd (wl1271_cmd_wait_for_event_or_timeout env wl msk))"
  unfolding wl1271_cmd_wait_for_event_or_timeout_def
  by (intro cmd_step_seq cmd_step_kzalloc io_step_cmd_step io_step_event_poll)

lemma cmd_step_wait: "cmd_step wl (snd (wl1271_cmd_wait_for_event env wl msk))"
  using cmd_step_wait_or_timeout [of wl env msk]
  by (auto simp: wl1271_cmd_wait_for_event_def split: prod.splits sum.splits intro: cmd_step_trans)

context chip_bus
begin

lemma cmd_send_raw_step: "io_step wl (snd (wlcore_cmd_send_raw ops env wl cid body n))"
proof (cases "wl_state wl = WLCORE_STATE_RESTARTING")
  case True
  then show ?thesis by (simp add: wlcore_cmd_send_raw_def)
next
  case False
  define buf where "buf = cmd_image cid body"
  define wl1 where "wl1 = (if length buf mod 4 \<noteq> 0 then emit C_warn wl else wl)"
  define wl2 where "wl2 = (if WL1271_FLAG_IN_ELP \<in> wl_flags wl1 then emit C_warn wl1 else wl1)"
  have "io_step wl wl1" "io_step wl1 wl2" by (simp_all add: wl1_def wl2_def)
  then have warn: "io_step wl wl2" by (rule io_step_trans)
  have "io_step wl2 (snd (wlcore_cmd_send_raw ops env wl cid body n))"
    using False unfolding wlcore_cmd_send_raw_def Let_def
    by (simp only: buf_def [symmetric] wl1_def [symmetric] wl2_def [symmetric] if_False)
      (intro io_step_seq io_step_ops io_step_cmd_poll trigger_io, simp)
  with warn show ?thesis by (rule io_step_trans)
qed

lemma cmd_send_failsafe_step: "cmd_step wl (snd (wlcore_cmd_send_failsafe ops env wl cid body n rs))"
proof -
  obtain r wl1 where r: "wlcore_cmd_send_raw ops env wl cid body n = (r, wl1)"
    by (cases "wlcore_cmd_send_raw ops env wl cid body n")
  then have "cmd_step wl wl1" using cmd_send_raw_step [of wl env cid body n] by (simp add: io_step_cmd_step)
  then show ?thesis
    using r by (auto simp: wlcore_cmd_send_failsafe_def split: sum.splits intro: cmd_step_trans)
qed

lemma cmd_send_step: "cmd_step wl (snd (wl1271_cmd_send ops env wl cid body n))"
  unfolding wl1271_cmd_send_def by (intro cmd_step_seq cmd_send_failsafe_step) simp

lemma cmd_configure_failsafe_step: "cmd_step wl (snd (wlcore_cmd_configure_failsafe ops env wl cid acx rs))"
  unfolding wlcore_cmd_configure_failsafe_def by (intro cmd_step_seq cmd_send_failsafe_step) simp

lemma cmd_configure_step: "cmd_step wl (snd (wl1271_cmd_configure ops env wl cid acx))"
  unfolding wl1271_cmd_configure_def by (intro cmd_step_seq cmd_configure_failsafe_step) simp

lemma set_default_wep_key_step: "cmd_step wl (snd (wl12xx_cmd_set_default_wep_key ops env wl k h))"
  unfolding wl12xx_cmd_set_default_wep_key_def
  by (intro cmd_step_seq cmd_step_kzalloc cmd_send_step) simp

lemma ps_mode_step: "cmd_step wl (snd (wl1271_cmd_ps_mode ops env wl v m t))"
  unfolding wl1271_cmd_ps_mode_def by (intro cmd_step_seq cmd_step_kzalloc cmd_send_step) simp

lemma wake_up_conditions_step: "cmd_step wl (snd (wl1271_acx_wake_up_conditions ops env wl v e i))"
  unfolding wl1271_acx_wake_up_conditions_def
  by (intro cmd_step_seq cmd_step_kzalloc cmd_configure_step)

lemma bet_enable_step: "cmd_step wl (snd (wl1271_acx_bet_enable ops env wl v b))"
  unfolding wl1271_acx_bet_enable_def
  by (auto intro: cmd_step_seq cmd_step_kzalloc cmd_configure_step)

lemma rx_streaming_loop_step: "cmd_step wl (snd (rx_streaming_loop ops env v b is wl))"
proof (induction "is" arbitrary: wl)
  case (Cons i "is")
  then show ?case by (auto intro: cmd_step_seq cmd_configure_step)
qed simp

lemma ps_rx_streaming_step: "cmd_step wl (snd (wl1271_acx_ps_rx_streaming ops env wl v b))"
  unfolding wl1271_acx_ps_rx_streaming_def
  by (intro cmd_step_seq cmd_step_kzalloc rx_streaming_loop_step)

lemma inconnection_sta_step: "cmd_step wl (snd (wl1271_acx_set_inconnection_sta ops env wl a))"
  unfolding wl1271_acx_set_inconnection_sta_def
  by (intro cmd_step_seq cmd_step_kzalloc cmd_configure_step)

end

section \<open>Links as slots\<close>

definition link_alloc :: "vif_ptr \<Rightarrow> wl1271 \<Rightarrow> errno + nat \<times> wl1271" where
  "link_alloc v wl =
     (case wl12xx_allocate_link wl v of (Inl e, _) \<Rightarrow> Inl e | (Inr h, wl1) \<Rightarrow> Inr (h, wl1))"

definition link_release :: "vif_ptr \<Rightarrow> nat \<Rightarrow> wl1271 \<Rightarrow> wl1271" where
  "link_release v h wl = wl12xx_free_link wl v h"

definition links_used :: "wl1271 \<Rightarrow> nat set" where
  "links_used wl = links_map wl \<inter> {..<WL12XX_MAX_LINKS}"

lemma allocate_link_cases:
  obtains (full) "wl12xx_allocate_link wl v = (Inl EBUSY, wl)" "{..<WL12XX_MAX_LINKS} \<subseteq> links_map wl"
  | (ok) h where "wl12xx_allocate_link wl v
        = (Inr h, upd_vif v (\<lambda>vf. vf\<lparr>vif_links_map := insert h (vif_links_map vf)\<rparr>)
                    (wl\<lparr>links_map := insert h (links_map wl)\<rparr>))"
      "h < WL12XX_MAX_LINKS" "h \<notin> links_map wl" "\<forall>j<h. j \<in> links_map wl"
proof -
  let ?h = "find_first_zero_bit (links_map wl) WL12XX_MAX_LINKS"
  show thesis
  proof (cases "WL12XX_MAX_LINKS \<le> ?h")
    case True
    then show thesis
      using find_first_zero_bit_full [of WL12XX_MAX_LINKS "links_map wl"]
      by (intro full) (simp_all add: wl12xx_allocate_link_def Let_def)
  next
    case False
    then have lt: "?h < WL12XX_MAX_LINKS" by simp
    show thesis
      by (rule ok [of ?h])
        (use lt find_first_zero_bit_less [OF lt] in \<open>auto simp: wl12xx_allocate_link_def Let_def\<close>)
  qed
qed

interpretation link_slots: slot_allocator "link_alloc v" "link_release v" links_used
  "\<lambda>_. WL12XX_MAX_LINKS" for v
proof
  fix s i t
  assume "link_alloc v s = Inr (i, t)"
  then show "i < WL12XX_MAX_LINKS \<and> i \<notin> links_used s \<and> (\<forall>j<i. j \<in> links_used s)
      \<and> links_used t = insert i (links_used s) \<and> WL12XX_MAX_LINKS = WL12XX_MAX_LINKS"
    by (cases rule: allocate_link_cases [of s v])
      (auto simp: link_alloc_def links_used_def upd_vif_def)
next
  fix s e
  assume "link_alloc v s = Inl e"
  then show "e = EBUSY \<and> {..<WL12XX_MAX_LINKS} \<subseteq> links_used s"
    by (cases rule: allocate_link_cases [of s v]) (auto simp: link_alloc_def links_used_def)
next
  fix i s
  show "links_used (link_release v i s) = links_used s - {i}"
    by (auto simp: link_release_def links_used_def wl12xx_free_link_def upd_vif_def)
qed simp

section \<open>The polling loops are bounded\<close>

lemma transfers_emit [simp]: "transfers (emit c wl) = transfers wl + (if is_transfer c then 1 else 0)"
  by (simp add: transfers_def emit_def)

lemma transfers_set_flag [simp]: "transfers (set_flag f wl) = transfers wl"
  by (simp add: transfers_def set_flag_def)

lemma transfers_read_reg: "transfers (snd (wlcore_read_reg env wl r)) \<le> Suc (transfers wl)"
  by (simp add: wlcore_read_reg_def wlcore_read32_def wlcore_raw_read32_def wlcore_raw_read_def
      wlcore_translate_addr_def Let_def split: option.split sum.split)

lemma cmd_poll_transfers:
  "transfers (snd (cmd_poll env intr n t wl)) \<le> transfers wl + (50 - n) + (2001 - t)"
proof (induction env intr n t wl rule: cmd_poll.induct)
  case (1 env intr n t wl)
  let ?wl1 = "emit C_delay wl"
  let ?t = "t + (if n + 1 < 50 then 0 else 1) + e_delay_ms env (log ?wl1)"
  obtain x wl2 where x: "wlcore_read_reg env ?wl1 REG_INTERRUPT_NO_CLEAR = (x, wl2)"
    by (cases "wlcore_read_reg env ?wl1 REG_INTERRUPT_NO_CLEAR")
  have r: "transfers wl2 \<le> Suc (transfers wl)"
    using transfers_read_reg [of env ?wl1 REG_INTERRUPT_NO_CLEAR] x by simp
  show ?case
  proof (cases "intr AND WL1271_ACX_INTR_CMD_COMPLETE \<noteq> 0 \<or> WL1271_COMMAND_TIMEOUT < t")
    case True
    then show ?thesis by (subst cmd_poll.simps) auto
  next
    case False
    show ?thesis
    proof (cases x)
      case (Inl e)
      then show ?thesis using False x r by (subst cmd_poll.simps) (simp, linarith)
    next
      case (Inr intr')
      then have "transfers (snd (cmd_poll env intr' (n + 1) ?t wl2))
          \<le> transfers wl2 + (50 - (n + 1)) + (2001 - ?t)"
        using 1 False x by simp
      moreover have "(50 - (n + 1)) + (2001 - ?t) < (50 - n) + (2001 - t)"
        using False by auto
      ultimately have "transfers (snd (cmd_poll env intr' (n + 1) ?t wl2))
          \<le> transfers wl + (50 - n) + (2001 - t)"
        using r by linarith
      then show ?thesis using False x Inr by (subst cmd_poll.simps) (simp add: Let_def)
    qed
  qed
qed

section \<open>Properties of the command channel\<close>

text \<open>
  C35: a command never hangs the driver. Whatever the firmware answers, the completion poll ends
  after at most 2051 reads of the interrupt register.
\<close>

theorem command_poll_bounded:
  "transfers (snd (cmd_poll env intr 0 0 wl)) \<le> transfers wl + 2051"
  using cmd_poll_transfers [of env intr 0 0 wl] by simp

text \<open>
  C34: link numbers are handed out soundly. Several requests in a row give distinct links, none of
  them in use before, and all requests are served until the twelve links are taken.
\<close>

theorem link_allocation:
  assumes "links_map wl \<subseteq> {..<WL12XX_MAX_LINKS}"
  shows "distinct (fst (link_slots.take_n v n wl))
     \<and> set (fst (link_slots.take_n v n wl)) \<inter> links_map wl = {}
     \<and> length (fst (link_slots.take_n v n wl)) = min n (WL12XX_MAX_LINKS - card (links_map wl))"
proof -
  have used: "links_used wl = links_map wl" using assms by (auto simp: links_used_def)
  have fin: "finite (links_used wl)" by (simp add: links_used_def)
  show ?thesis
    using link_slots.take_n_distinct [of v n wl "fst (link_slots.take_n v n wl)"
        "snd (link_slots.take_n v n wl)"] link_slots.take_n_length [OF fin, of v n] assms
    by (simp add: used)
qed

theorem link_allocation_witness:
  "links_map demo_wl = {0, 1} \<and> length (fst (link_slots.take_n 1 20 demo_wl)) = 10"
proof -
  have "links_map demo_wl = {0, 1}" by (simp add: zeroed_defs)
  with link_allocation [of demo_wl 1 20] show ?thesis by simp
qed

text \<open>
  A timeout while waiting for an event is reported as success: when the firmware's event never
  arrives, \<open>wl1271_cmd_wait_for_event\<close> requests a recovery and still returns 0, so its callers go on
  as if the role had been stopped.
\<close>

lemma wait_for_event_timeout_ok:
  assumes "wl1271_cmd_wait_for_event_or_timeout env wl msk = (Inr True, wl1)"
  shows "wl1271_cmd_wait_for_event env wl msk = (Inr (), wl12xx_queue_recovery_work wl1)"
  using assms by (simp add: wl1271_cmd_wait_for_event_def)

lemma wait_for_event_timeout_example:
  "let env = quiet_env\<lparr>e_delay_ms := (\<lambda>_. 2000)\<rparr>
   in fst (wl1271_cmd_wait_for_event env demo_wl ROLE_STOP_COMPLETE_EVENT_ID) = Inr ()
      \<and> wl_state (snd (wl1271_cmd_wait_for_event env demo_wl ROLE_STOP_COMPLETE_EVENT_ID))
        = WLCORE_STATE_RESTARTING"
proof -
  let ?env = "quiet_env\<lparr>e_delay_ms := (\<lambda>_. 2000)\<rparr>"
  let ?wl = "emit (C_alloc 4) demo_wl"
  have late: "event_poll ?env m 1 2000 w = (Inr True, w)" for m w
    by (subst event_poll.simps) simp
  have "\<exists>wl1. event_poll ?env ROLE_STOP_COMPLETE_EVENT_ID 0 0 ?wl = (Inr True, wl1) \<and> wl_state wl1 = WLCORE_STATE_ON"
    by (subst event_poll.simps)
      (simp add: wl_io_defs translate_addr_def in_window_def zeroed_defs wl_upd_defs
        get_le32_def byte_at_def Let_def late [simplified zeroed_defs, simplified])
  then obtain wl1 where p: "event_poll ?env ROLE_STOP_COMPLETE_EVENT_ID 0 0 ?wl = (Inr True, wl1)"
    and on: "wl_state wl1 = WLCORE_STATE_ON" by blast
  have "wl1271_cmd_wait_for_event_or_timeout ?env demo_wl ROLE_STOP_COMPLETE_EVENT_ID = (Inr True, wl1)"
    using p by (simp add: wl1271_cmd_wait_for_event_or_timeout_def kzalloc_def Let_def quiet_env_def)
  from wait_for_event_timeout_ok [OF this] on show ?thesis
    by (simp add: wl12xx_queue_recovery_work_def Let_def wl_upd_defs)
qed

end
