(* ===== verification/WlPs.thy ===== *)
theory WlPs
  imports WlCmd
begin

unbundle bit_operations_syntax

text \<open>
  Power save (wlcore/ps.c): the extremely-low-power mode of the chip, with the first half of the
  interrupt handler that completes a wake-up (\<open>wl12xx_hardirq\<close> of wlcore/main.c), the power-save
  mode of a station interface, and the power-save state of the stations of an access point. Wake
  locks (\<open>CONFIG_HAS_WAKELOCK\<close>) are not compiled in.
\<close>

section \<open>The low-power mode of the chip\<close>

abbreviation (input) HW_ACCESS_ELP_CTRL_REG :: nat where "HW_ACCESS_ELP_CTRL_REG \<equiv> 0x1FFFC"
abbreviation (input) ELPCTRL_SLEEP :: u32 where "ELPCTRL_SLEEP \<equiv> 0"
abbreviation (input) ELPCTRL_WAKE_UP :: u32 where "ELPCTRL_WAKE_UP \<equiv> 1"
abbreviation (input) ELP_ENTRY_DELAY :: nat where "ELP_ENTRY_DELAY \<equiv> 30"
abbreviation (input) WL1271_PSM_CAM :: nat where "WL1271_PSM_CAM \<equiv> 0"
abbreviation (input) WL1271_PSM_ELP :: nat where "WL1271_PSM_ELP \<equiv> 2"

text \<open>An interface that keeps the chip awake: an access point, or one in use and not in power save.\<close>

definition vif_active :: "wl12xx_vif \<Rightarrow> bool" where
  "vif_active vf \<longleftrightarrow> vif_bss_type vf = BSS_TYPE_AP_BSS
     \<or> WLVIF_FLAG_IN_PS \<notin> vif_flags vf \<and> WLVIF_FLAG_IN_USE \<in> vif_flags vf"

definition wl1271_elp_work :: "wl_env \<Rightarrow> wl1271 \<Rightarrow> wl1271" where
  "wl1271_elp_work env wl =
     (if wl_state wl \<noteq> WLCORE_STATE_ON then wl
      else if WL1271_FLAG_ELP_REQUESTED \<notin> wl_flags wl then wl
      else if WL1271_FLAG_IN_ELP \<in> wl_flags wl then wl
      else if list_ex (\<lambda>v. vif_active (vifs wl v)) (wlvif_list wl) then wl
      else case wlcore_raw_write32 env wl HW_ACCESS_ELP_CTRL_REG ELPCTRL_SLEEP of
             (Inl e, wl1) \<Rightarrow> wl12xx_queue_recovery_work wl1
           | (Inr _, wl1) \<Rightarrow> set_flag WL1271_FLAG_IN_ELP wl1)"

definition wl1271_ps_elp_sleep :: "wl1271 \<Rightarrow> wl1271" where
  "wl1271_ps_elp_sleep wl =
     (if sleep_auth wl \<noteq> WL1271_PSM_ELP then wl
      else if WL1271_FLAG_ELP_REQUESTED \<in> wl_flags wl then emit C_warn wl
      else
        let wl1 = set_flag WL1271_FLAG_ELP_REQUESTED wl
        in if list_ex (\<lambda>v. vif_active (vifs wl1 v)) (wlvif_list wl1) then wl1
           else emit (C_queue_delayed_work ELP_WORK ELP_ENTRY_DELAY) wl1)"

text \<open>
  The hard interrupt handler completes a waiting wake-up; the result tells whether the handler thread
  is woken. With the device suspended the interrupt is only marked as pending.
\<close>

definition wl12xx_hardirq :: "wl1271 \<Rightarrow> bool \<times> wl1271" where
  "wl12xx_hardirq wl =
     (let wl1 = set_flag WL1271_FLAG_IRQ_RUNNING wl;
          wl2 = (if elp_compl wl1 then (emit C_complete_elp wl1)\<lparr>elp_compl := False\<rparr> else wl1)
      in if WL1271_FLAG_SUSPENDED \<in> wl_flags wl2
         then (False, emit C_irq_disable (set_flag WL1271_FLAG_PENDING_WORK wl2))
         else (True, wl2))"

text \<open>
  While the wake-up waits (at most 500 ms) only the hard interrupt handler runs, since the caller
  holds the mutex; the environment decides whether the interrupt arrives in time.
  \<open>wait_for_completion_timeout\<close> returns an unsigned number, so the branch for a negative result
  is dead.
\<close>

definition wl1271_ps_elp_wakeup :: "wl_env \<Rightarrow> wl1271 \<Rightarrow> unit res \<times> wl1271" where
  "wl1271_ps_elp_wakeup env wl =
     (if WL1271_FLAG_ELP_REQUESTED \<notin> wl_flags wl then (Inr (), wl)
      else
        let wl1 = emit (C_cancel_work ELP_WORK) (clear_flag WL1271_FLAG_ELP_REQUESTED wl)
        in if WL1271_FLAG_IN_ELP \<notin> wl_flags wl1 then (Inr (), wl1)
           else
             let pending = WL1271_FLAG_IRQ_RUNNING \<in> wl_flags wl1;
                 wl2 = (if pending then wl1 else wl1\<lparr>elp_compl := True\<rparr>)
             in case wlcore_raw_write32 env wl2 HW_ACCESS_ELP_CTRL_REG ELPCTRL_WAKE_UP of
                  (Inl e, wl3) \<Rightarrow> (Inl e, (wl12xx_queue_recovery_work wl3)\<lparr>elp_compl := False\<rparr>)
                | (Inr _, wl3) \<Rightarrow>
                    if pending then (Inr (), clear_flag WL1271_FLAG_IN_ELP wl3)
                    else if e_elp_completed env (log wl3)
                    then (Inr (), clear_flag WL1271_FLAG_IN_ELP (snd (wl12xx_hardirq wl3)))
                    else (Inl ETIMEDOUT, (wl12xx_queue_recovery_work wl3)\<lparr>elp_compl := False\<rparr>))"

section \<open>Power save of a station\<close>

abbreviation (input) STATION_AUTO_PS_MODE :: u8 where "STATION_AUTO_PS_MODE \<equiv> 0"
abbreviation (input) STATION_ACTIVE_MODE :: u8 where "STATION_ACTIVE_MODE \<equiv> 1"
abbreviation (input) STATION_POWER_SAVE_MODE :: u8 where "STATION_POWER_SAVE_MODE \<equiv> 2"
abbreviation (input) CONF_HW_BIT_RATE_9MBPS :: u32 where "CONF_HW_BIT_RATE_9MBPS \<equiv> 0x10"

definition bet_relevant :: "wl12xx_vif \<Rightarrow> bool" where
  "bet_relevant vf \<longleftrightarrow> vif_band vf = IEEE80211_BAND_2GHZ \<and> basic_rate vf < CONF_HW_BIT_RATE_9MBPS"

definition wl1271_ps_set_mode ::
  "wlcore_ops \<Rightarrow> wl_env \<Rightarrow> wl1271 \<Rightarrow> vif_ptr \<Rightarrow> u8 \<Rightarrow> unit res \<times> wl1271" where
  "wl1271_ps_set_mode ops env wl v mode =
     (let timeout = cf_dynamic_ps_timeout (conf wl)
      in if mode = STATION_AUTO_PS_MODE \<or> mode = STATION_POWER_SAVE_MODE then
           and_then (wl1271_acx_wake_up_conditions ops env wl v (cf_wake_up_event (conf wl))
                       (cf_listen_interval (conf wl))) (\<lambda>_ wl1.
           and_then (wl1271_cmd_ps_mode ops env wl1 v mode timeout) (\<lambda>_ wl2.
             let wl3 = upd_vif v (\<lambda>vf. vf\<lparr>vif_flags := insert WLVIF_FLAG_IN_PS (vif_flags vf)\<rparr>) wl2
             in if bet_relevant (vifs wl3 v) then wl1271_acx_bet_enable ops env wl3 v True
                else (Inr (), wl3)))
         else if mode = STATION_ACTIVE_MODE then
           and_then (if bet_relevant (vifs wl v) then wl1271_acx_bet_enable ops env wl v False
                     else (Inr (), wl)) (\<lambda>_ wl1.
           and_then (wl1271_cmd_ps_mode ops env wl1 v mode 0) (\<lambda>_ wl2.
             (Inr (), upd_vif v (\<lambda>vf. vf\<lparr>vif_flags := vif_flags vf - {WLVIF_FLAG_IN_PS}\<rparr>) wl2)))
         else (Inl EINVAL, wl))"

section \<open>Power save of an access point's stations\<close>

definition status_filtered :: "ieee80211_tx_info \<Rightarrow> ieee80211_tx_info" where
  "status_filtered info =
     info\<lparr>ti_flags := insert IEEE80211_TX_STAT_TX_FILTERED (ti_flags info), st_rate_idx := -1\<rparr>"

definition filter_one :: "skb_ptr \<Rightarrow> wl1271 \<Rightarrow> wl1271" where
  "filter_one p wl =
     (if wl12xx_is_dummy_packet wl p then emit C_warn wl
      else emit (C_tx_status p)
             (upd_skb p (\<lambda>s. s\<lparr>skb_info := status_filtered (skb_info s)\<rparr>) wl))"

definition wl1271_ps_filter_frames :: "wl1271 \<Rightarrow> nat \<Rightarrow> wl1271" where
  "wl1271_ps_filter_frames wl hlid = drain_link filter_one wl hlid"

definition wl12xx_ps_link_start :: "wl_env \<Rightarrow> wl1271 \<Rightarrow> vif_ptr \<Rightarrow> nat \<Rightarrow> bool \<Rightarrow> wl1271" where
  "wl12xx_ps_link_start env wl v hlid clean_queues =
     (if hlid \<in> ap_ps_map wl then wl
      else if \<not> e_find_sta env (log wl) v (lnk_addr (links wl hlid)) then wl
      else
        let wl1 = emit (C_sta_ps_transition v (lnk_addr (links wl hlid)) True) wl;
            wl2 = (if clean_queues then wl1271_ps_filter_frames wl1 hlid else wl1)
        in wl2\<lparr>ap_ps_map := insert hlid (ap_ps_map wl2)\<rparr>)"

definition wl12xx_ps_link_end :: "wl_env \<Rightarrow> wl1271 \<Rightarrow> vif_ptr \<Rightarrow> nat \<Rightarrow> wl1271" where
  "wl12xx_ps_link_end env wl v hlid =
     (if hlid \<notin> ap_ps_map wl then wl
      else
        let wl1 = wl\<lparr>ap_ps_map := ap_ps_map wl - {hlid}\<rparr>
        in if e_find_sta env (log wl1) v (lnk_addr (links wl1 hlid))
           then emit (C_sta_ps_transition v (lnk_addr (links wl1 hlid)) False) wl1 else wl1)"

interpretation filter_drain: queue_drain filter_one
proof
  fix p wl
  show "drained {#p#} wl (filter_one p wl)"
    using drained_status [of p wl status_filtered] drained_dummy(2) [of p wl]
    by (cases "p = dummy_packet wl") (simp_all add: filter_one_def wl12xx_is_dummy_packet_def)
qed

lemmas filter_frames_queues = filter_drain.drain_link_queue [folded wl1271_ps_filter_frames_def]
lemmas filter_frames_shape = filter_drain.drain_link_shape [folded wl1271_ps_filter_frames_def]
lemmas filter_frames_frame [simp] = filter_drain.drain_link_frame [folded wl1271_ps_filter_frames_def]
lemmas filter_frames_stop_view = filter_drain.drain_link_stop_view [folded wl1271_ps_filter_frames_def]

section \<open>Waking the chip\<close>

text \<open>
  While the driver is running, a chip that sleeps was asked to: the request flag is only cleared by
  waking the chip up, and a wake-up that fails takes the driver out of operation.
\<close>

definition elp_ok :: "wl1271 \<Rightarrow> bool" where
  "elp_ok wl \<longleftrightarrow> wl_state wl = WLCORE_STATE_ON \<longrightarrow> WL1271_FLAG_IN_ELP \<in> wl_flags wl \<longrightarrow>
     WL1271_FLAG_ELP_REQUESTED \<in> wl_flags wl"

lemma cmd_step_elp_ok: "cmd_step wl wl' \<Longrightarrow> elp_ok wl \<Longrightarrow> elp_ok wl'"
  by (auto simp: elp_ok_def elim!: cmd_stepE)

lemma recovery_not_on: "wl_state (wl12xx_queue_recovery_work wl) \<noteq> WLCORE_STATE_ON"
  by (simp add: wl12xx_queue_recovery_work_def Let_def emit_def set_flag_def)

lemma hardirq_flags:
  "wl_flags (snd (wl12xx_hardirq wl)) \<subseteq> wl_flags wl \<union> {WL1271_FLAG_IRQ_RUNNING, WL1271_FLAG_PENDING_WORK}"
  "wl_flags wl \<subseteq> wl_flags (snd (wl12xx_hardirq wl))" "wl_state (snd (wl12xx_hardirq wl)) = wl_state wl"
  by (auto simp: wl12xx_hardirq_def Let_def emit_def set_flag_def)

lemma elp_ok_hardirq: "elp_ok wl \<Longrightarrow> elp_ok (snd (wl12xx_hardirq wl))"
  using hardirq_flags [of wl] by (auto simp: elp_ok_def)

lemma elp_ok_sleep: "elp_ok wl \<Longrightarrow> elp_ok (wl1271_ps_elp_sleep wl)"
  by (simp add: wl1271_ps_elp_sleep_def elp_ok_def Let_def emit_def set_flag_def)

lemma elp_ok_work: "elp_ok wl \<Longrightarrow> elp_ok (wl1271_elp_work env wl)"
proof -
  assume ok: "elp_ok wl"
  obtain r wl1 where w: "wlcore_raw_write32 env wl HW_ACCESS_ELP_CTRL_REG ELPCTRL_SLEEP = (r, wl1)"
    by (cases "wlcore_raw_write32 env wl HW_ACCESS_ELP_CTRL_REG ELPCTRL_SLEEP")
  have io: "io_step wl wl1"
    using io_step_raw_write32 [of wl env HW_ACCESS_ELP_CTRL_REG ELPCTRL_SLEEP] w by simp
  then have "elp_ok wl1" by (rule cmd_step_elp_ok [OF io_step_cmd_step _, OF _ ok])
  moreover have "WL1271_FLAG_ELP_REQUESTED \<in> wl_flags wl1"
    if "WL1271_FLAG_ELP_REQUESTED \<in> wl_flags wl"
    using io_step_flag [OF io, of WL1271_FLAG_ELP_REQUESTED] that by simp
  ultimately show ?thesis
    using ok w recovery_not_on [of wl1]
    by (cases r) (auto simp: wl1271_elp_work_def elp_ok_def set_flag_def)
qed

text \<open>The two ways a wake-up ends: the chip is awake, or a recovery was requested.\<close>

lemma elp_wakeup_ends:
  assumes "elp_ok wl" and "wl1271_ps_elp_wakeup env wl = (r, wl')"
  shows "wl_state wl' = WLCORE_STATE_ON \<longrightarrow> WL1271_FLAG_IN_ELP \<notin> wl_flags wl' \<and> r = Inr ()"
proof -
  consider (idle) "WL1271_FLAG_ELP_REQUESTED \<notin> wl_flags wl"
    | (awake) "WL1271_FLAG_ELP_REQUESTED \<in> wl_flags wl" "WL1271_FLAG_IN_ELP \<notin> wl_flags wl"
    | (asleep) "WL1271_FLAG_ELP_REQUESTED \<in> wl_flags wl" "WL1271_FLAG_IN_ELP \<in> wl_flags wl"
    by blast
  then show ?thesis
  proof cases
    case idle
    then show ?thesis using assms by (auto simp: wl1271_ps_elp_wakeup_def elp_ok_def)
  next
    case awake
    then show ?thesis
      using assms(2) by (auto simp: wl1271_ps_elp_wakeup_def Let_def emit_def clear_flag_def)
  next
    case asleep
  define wl1 where "wl1 = emit (C_cancel_work ELP_WORK) (clear_flag WL1271_FLAG_ELP_REQUESTED wl)"
  define wl2 where "wl2 = (if WL1271_FLAG_IRQ_RUNNING \<in> wl_flags wl1 then wl1 else wl1\<lparr>elp_compl := True\<rparr>)"
  obtain x wl3 where w: "wlcore_raw_write32 env wl2 HW_ACCESS_ELP_CTRL_REG ELPCTRL_WAKE_UP = (x, wl3)"
    by (cases "wlcore_raw_write32 env wl2 HW_ACCESS_ELP_CTRL_REG ELPCTRL_WAKE_UP")
  have in_elp: "WL1271_FLAG_IN_ELP \<in> wl_flags wl1" using asleep by (simp add: wl1_def emit_def clear_flag_def)
  show ?thesis
    using assms(2) asleep in_elp recovery_not_on [of wl3]
    unfolding wl1271_ps_elp_wakeup_def Let_def wl1_def [symmetric] wl2_def [symmetric] w
    by (cases x) (auto simp: clear_flag_def split: if_splits)
  qed
qed

lemma elp_ok_wakeup: "elp_ok wl \<Longrightarrow> elp_ok (snd (wl1271_ps_elp_wakeup env wl))"
  using elp_wakeup_ends [of wl env] by (cases "wl1271_ps_elp_wakeup env wl") (simp add: elp_ok_def)

datatype elp_event = Elp_sleep | Elp_work | Elp_wakeup | Elp_hardirq | Elp_irq_done

primrec elp_event_do :: "wl_env \<Rightarrow> elp_event \<Rightarrow> wl1271 \<Rightarrow> wl1271" where
  "elp_event_do env Elp_sleep wl = wl1271_ps_elp_sleep wl"
| "elp_event_do env Elp_work wl = wl1271_elp_work env wl"
| "elp_event_do env Elp_wakeup wl = snd (wl1271_ps_elp_wakeup env wl)"
| "elp_event_do env Elp_hardirq wl = snd (wl12xx_hardirq wl)"
| "elp_event_do env Elp_irq_done wl = clear_flag WL1271_FLAG_IRQ_RUNNING wl"

lemma elp_ok_event: "elp_ok wl \<Longrightarrow> elp_ok (elp_event_do env e wl)"
  by (cases e)
    (simp_all add: elp_ok_sleep elp_ok_work elp_ok_wakeup elp_ok_hardirq,
      simp add: elp_ok_def clear_flag_def)



section \<open>Stations asleep\<close>

text \<open>
  \<open>sta_asleep l v a\<close>: after the calls \<open>l\<close>, mac80211 holds the station with address \<open>a\<close> of interface \<open>v\<close>
  for asleep.
\<close>

definition ps_effect :: "vif_ptr \<Rightarrow> bytes \<Rightarrow> wl_call \<Rightarrow> bool \<Rightarrow> bool" where
  "ps_effect v a c b = (case c of C_sta_ps_transition w x s \<Rightarrow> if w = v \<and> x = a then s else b | _ \<Rightarrow> b)"

definition sta_asleep :: "wl_call list \<Rightarrow> vif_ptr \<Rightarrow> bytes \<Rightarrow> bool" where
  "sta_asleep l v a = fold (ps_effect v a) l False"

lemma sta_asleep_snoc: "sta_asleep (l @ [c]) v a = ps_effect v a c (sta_asleep l v a)"
  by (simp add: sta_asleep_def)

lemma sta_asleep_append:
  "(\<And>w x s. C_sta_ps_transition w x s \<notin> set k) \<Longrightarrow> sta_asleep (l @ k) v a = sta_asleep l v a"
proof (induction k rule: rev_induct)
  case (snoc c k)
  have "ps_effect v a c b = b" for b
    using snoc.prems by (cases c) (auto simp: ps_effect_def)
  with snoc show ?case by (simp add: sta_asleep_snoc append_assoc [symmetric] del: append_assoc)
qed simp

text \<open>The stations of one interface have distinct addresses.\<close>

definition ps_view_ok :: "vif_ptr \<Rightarrow> nat set \<Rightarrow> wl1271 \<Rightarrow> bool" where
  "ps_view_ok v H wl \<longleftrightarrow>
     (\<forall>h\<in>H. sta_asleep (log wl) v (lnk_addr (links wl h)) \<longleftrightarrow> h \<in> ap_ps_map wl)
     \<and> inj_on (\<lambda>h. lnk_addr (links wl h)) H"

datatype ps_event = Ps_start nat bool | Ps_end nat

primrec ps_event_do :: "wl_env \<Rightarrow> vif_ptr \<Rightarrow> ps_event \<Rightarrow> wl1271 \<Rightarrow> wl1271" where
  "ps_event_do env v (Ps_start h clean) wl = wl12xx_ps_link_start env wl v h clean"
| "ps_event_do env v (Ps_end h) wl = wl12xx_ps_link_end env wl v h"


definition ps_event_link :: "ps_event \<Rightarrow> nat" where
  "ps_event_link e = (case e of Ps_start h _ \<Rightarrow> h | Ps_end h \<Rightarrow> h)"

lemma ps_view_okI:
  assumes "\<And>h. h \<in> H \<Longrightarrow> lnk_addr (links wl' h) = lnk_addr (links wl h)"
    and "\<And>h. h \<in> H \<Longrightarrow> sta_asleep (log wl') v (lnk_addr (links wl h)) \<longleftrightarrow> h \<in> ap_ps_map wl'"
    and "ps_view_ok v H wl"
  shows "ps_view_ok v H wl'"
  using assms unfolding ps_view_ok_def inj_on_def by simp

lemma ps_view_ok_end:
  assumes ok: "ps_view_ok v H wl" and h: "h \<in> H" and known: "\<And>l a. e_find_sta env l v a"
  shows "ps_view_ok v H (wl12xx_ps_link_end env wl v h)"
proof (rule ps_view_okI [OF _ _ ok])
  fix g assume g: "g \<in> H"
  show "lnk_addr (links (wl12xx_ps_link_end env wl v h) g) = lnk_addr (links wl g)"
    by (simp add: wl12xx_ps_link_end_def Let_def emit_def)
  have "lnk_addr (links wl g) = lnk_addr (links wl h) \<longleftrightarrow> g = h"
    using ok g h unfolding ps_view_ok_def inj_on_def by blast
  then show "sta_asleep (log (wl12xx_ps_link_end env wl v h)) v (lnk_addr (links wl g))
      \<longleftrightarrow> g \<in> ap_ps_map (wl12xx_ps_link_end env wl v h)"
    using ok g h known unfolding ps_view_ok_def
    by (simp add: wl12xx_ps_link_end_def Let_def emit_def sta_asleep_snoc ps_effect_def eq_commute)
qed


lemma filter_frames_view:
  "lnk_addr (links (wl1271_ps_filter_frames wl h) g) = lnk_addr (links wl g)"
  "ap_ps_map (wl1271_ps_filter_frames wl h) = ap_ps_map wl"
  "sta_asleep (log (wl1271_ps_filter_frames wl h)) v a = sta_asleep (log wl) v a"
proof -
  obtain sk l r where w: "wl1271_ps_filter_frames wl h = wl\<lparr>
        tx_queue_count := (\<lambda>i. if i < NUM_TX_QUEUES
            then tx_queue_count wl i - int (length (tx_queue (links wl h) i)) else tx_queue_count wl i),
        queue_stop_reasons := r, links := links (emptied NUM_TX_QUEUES h wl),
        skbs := sk, log := log wl @ l\<rparr>" and l: "list_all (\<lambda>c. handback_call c \<or> queue_call c) l"
    by (rule filter_frames_shape [of wl h]) blast
  show "lnk_addr (links (wl1271_ps_filter_frames wl h) g) = lnk_addr (links wl g)"
    and "ap_ps_map (wl1271_ps_filter_frames wl h) = ap_ps_map wl"
    by (simp_all add: w emptied_def)
  show "sta_asleep (log (wl1271_ps_filter_frames wl h)) v a = sta_asleep (log wl) v a"
    using l by (simp add: w) (rule sta_asleep_append, auto simp: list_all_iff)
qed

lemma ps_view_ok_start:
  assumes ok: "ps_view_ok v H wl" and h: "h \<in> H" and known: "\<And>l a. e_find_sta env l v a"
  shows "ps_view_ok v H (wl12xx_ps_link_start env wl v h clean)"
proof (rule ps_view_okI [OF _ _ ok])
  fix g assume g: "g \<in> H"
  show "lnk_addr (links (wl12xx_ps_link_start env wl v h clean) g) = lnk_addr (links wl g)"
    by (simp add: wl12xx_ps_link_start_def Let_def filter_frames_view) (simp add: emit_def)
  have "lnk_addr (links wl g) = lnk_addr (links wl h) \<longleftrightarrow> g = h"
    using ok g h unfolding ps_view_ok_def inj_on_def by blast
  then show "sta_asleep (log (wl12xx_ps_link_start env wl v h clean)) v (lnk_addr (links wl g))
      \<longleftrightarrow> g \<in> ap_ps_map (wl12xx_ps_link_start env wl v h clean)"
    using ok g h known unfolding ps_view_ok_def
    by (simp add: wl12xx_ps_link_start_def Let_def filter_frames_view)
      (simp add: emit_def sta_asleep_snoc ps_effect_def eq_commute)
qed


end
