(* ===== verification/WlTx.thy ===== *)
theory WlTx
  imports WlPs
begin

unbundle bit_operations_syntax

text \<open>
  Preparing a packet for the chip (wlcore/tx.c): descriptor numbers, firmware blocks, the hardware
  descriptor in front of the frame, the regulation of a link whose station sleeps, and the copy into
  the aggregation buffer; with the rate-set conversions of the same file.
\<close>

section \<open>Descriptor numbers\<close>

definition wl1271_alloc_tx_id :: "wl1271 \<Rightarrow> skb_ptr \<Rightarrow> nat res \<times> wl1271" where
  "wl1271_alloc_tx_id wl skb =
     (let i = find_first_zero_bit (tx_frames_map wl) (num_tx_desc wl)
      in if num_tx_desc wl \<le> i then (Inl EBUSY, wl)
         else (Inr i, wl\<lparr>tx_frames_map := insert i (tx_frames_map wl),
                         tx_frames := (tx_frames wl)(i := Some skb),
                         tx_frames_cnt := tx_frames_cnt wl + 1\<rparr>))"

definition wl1271_free_tx_id :: "wl1271 \<Rightarrow> nat \<Rightarrow> wl1271" where
  "wl1271_free_tx_id wl i =
     (if i \<in> tx_frames_map wl then
        (let wl1 = wl\<lparr>tx_frames_map := tx_frames_map wl - {i}\<rparr>;
             wl2 = (if tx_frames_cnt wl1 = int (num_tx_desc wl1)
                    then clear_flag WL1271_FLAG_FW_TX_BUSY wl1 else wl1)
         in wl2\<lparr>tx_frames := (tx_frames wl2)(i := None), tx_frames_cnt := tx_frames_cnt wl2 - 1\<rparr>)
      else wl)"

section \<open>Before a frame is sent\<close>

definition wl1271_set_default_wep_key ::
  "wlcore_ops \<Rightarrow> wl_env \<Rightarrow> wl1271 \<Rightarrow> vif_ptr \<Rightarrow> u8 \<Rightarrow> unit res \<times> wl1271" where
  "wl1271_set_default_wep_key ops env wl v key_id =
     (if vif_bss_type (vifs wl v) = BSS_TYPE_AP_BSS
      then wl12xx_cmd_set_default_wep_key ops env wl key_id (ap_bcast_hlid (vifs wl v))
      else wl12xx_cmd_set_default_wep_key ops env wl key_id (sta_hlid (vifs wl v)))"

text \<open>The header follows the descriptor; the result of the command is ignored.\<close>

definition wl1271_tx_ap_update_inconnection_sta ::
  "wlcore_ops \<Rightarrow> wl_env \<Rightarrow> wl1271 \<Rightarrow> skb_ptr \<Rightarrow> wl1271" where
  "wl1271_tx_ap_update_inconnection_sta ops env wl p =
     (if ieee80211_is_auth (frame_control_at TX_DESC_LEN (skbs wl p))
      then snd (wl1271_acx_set_inconnection_sta ops env wl
                  (buf_read (TX_DESC_LEN + 4) 6 (skb_bytes (skbs wl p))))
      else wl)"

definition wl1271_tx_regulate_link :: "wl_env \<Rightarrow> wl1271 \<Rightarrow> vif_ptr \<Rightarrow> nat \<Rightarrow> wl1271" where
  "wl1271_tx_regulate_link env wl v hlid =
     (if hlid \<notin> vif_links_map (vifs wl v) then emit C_warn wl
      else
        let fw_ps = bit (ap_fw_ps_map wl) hlid;
            tx_pkts = allocated_pkts (links wl hlid);
            single_sta = (active_sta_count wl = 1)
        in if \<not> single_sta \<and> fw_ps \<and> WL1271_PS_STA_MAX_PACKETS \<le> unat tx_pkts
           then wl12xx_ps_link_start env wl v hlid True else wl)"

definition wl12xx_rearm_tx_watchdog_locked :: "wl1271 \<Rightarrow> wl1271" where
  "wl12xx_rearm_tx_watchdog_locked wl =
     (if tx_allocated_blocks wl = 0 then wl
      else emit (C_queue_delayed_work TX_WATCHDOG_WORK (cf_tx_watchdog_timeout (conf wl)))
             (emit (C_cancel_work TX_WATCHDOG_WORK) wl))"

abbreviation (input) WL1271_TX_ALIGN_TO :: nat where "WL1271_TX_ALIGN_TO \<equiv> 4"
abbreviation (input) WL12XX_BUS_BLOCK_SIZE :: nat where "WL12XX_BUS_BLOCK_SIZE \<equiv> 256"
abbreviation (input) WL1271_EXTRA_SPACE_TKIP :: nat where "WL1271_EXTRA_SPACE_TKIP \<equiv> 4"

definition wlcore_calc_packet_alignment :: "wl1271 \<Rightarrow> nat \<Rightarrow> nat" where
  "wlcore_calc_packet_alignment wl packet_length =
     (if WLCORE_QUIRK_TX_PAD_LAST_FRAME \<in> wl_quirks wl
         \<or> WLCORE_QUIRK_TX_BLOCKSIZE_ALIGN \<notin> wl_quirks wl
      then ALIGN packet_length WL1271_TX_ALIGN_TO else ALIGN packet_length WL12XX_BUS_BLOCK_SIZE)"

section \<open>Firmware memory for a packet\<close>

text \<open>
  The success branch of the allocation: push the headers, write the block counts and the descriptor
  number, account for the blocks and the packet. Pushing more than the head room of the packet is a
  kernel panic (\<open>skb_under_panic\<close>).
\<close>

definition tx_push_desc ::
  "wlcore_ops \<Rightarrow> wl1271 \<Rightarrow> skb_ptr \<Rightarrow> nat \<Rightarrow> nat \<Rightarrow> nat \<Rightarrow> nat \<Rightarrow> wl1271" where
  "tx_push_desc ops wl p extra i total_blocks spare_blocks =
     (let wl1 = (if skb_data (skbs wl p) < TX_DESC_LEN + extra then emit C_oops wl else wl)
      in upd_skb p (\<lambda>s. let s1 = skb_push (TX_DESC_LEN + extra) s in
           skb_set_desc ((op_set_tx_desc_blocks ops wl1 (skb_desc s1) total_blocks spare_blocks)
                           \<lparr>d_id := of_nat i\<rparr>) s1) wl1)"

definition tx_take_blocks :: "wl1271 \<Rightarrow> skb_ptr \<Rightarrow> nat \<Rightarrow> wl1271" where
  "tx_take_blocks wl p total_blocks =
     (let wl1 = wl\<lparr>tx_blocks_available := tx_blocks_available wl - of_nat total_blocks,
                    tx_allocated_blocks := tx_allocated_blocks wl + of_nat total_blocks\<rparr>;
          wl2 = (if tx_allocated_blocks wl1 = of_nat total_blocks
                 then wl12xx_rearm_tx_watchdog_locked wl1 else wl1);
          ac = skb_ac wl2 p
      in wl2\<lparr>tx_allocated_pkts := (tx_allocated_pkts wl2)(ac := tx_allocated_pkts wl2 ac + 1)\<rparr>)"

definition tx_count_sta :: "wl1271 \<Rightarrow> vif_ptr option \<Rightarrow> skb_ptr \<Rightarrow> nat \<Rightarrow> wl1271" where
  "tx_count_sta wl wlvif p hlid =
     (case wlvif of
        Some v \<Rightarrow>
          if \<not> wl12xx_is_dummy_packet wl p \<and> vif_bss_type (vifs wl v) = BSS_TYPE_AP_BSS
             \<and> hlid \<in> ap_sta_hlid_map (vifs wl v)
          then upd_link hlid (\<lambda>l. l\<lparr>allocated_pkts := allocated_pkts l + 1\<rparr>) wl else wl
      | None \<Rightarrow> wl)"

definition tx_allocated ::
  "wlcore_ops \<Rightarrow> wl1271 \<Rightarrow> vif_ptr option \<Rightarrow> skb_ptr \<Rightarrow> nat \<Rightarrow> nat \<Rightarrow> nat \<Rightarrow> nat \<Rightarrow> nat \<Rightarrow> wl1271" where
  "tx_allocated ops wl wlvif p extra hlid i total_blocks spare_blocks =
     tx_count_sta (tx_take_blocks (tx_push_desc ops wl p extra i total_blocks spare_blocks)
                     p total_blocks) wlvif p hlid"

definition wl1271_tx_allocate ::
  "wlcore_ops \<Rightarrow> wl1271 \<Rightarrow> vif_ptr option \<Rightarrow> skb_ptr \<Rightarrow> nat \<Rightarrow> nat \<Rightarrow> nat \<Rightarrow> bool \<Rightarrow> unit res \<times> wl1271" where
  "wl1271_tx_allocate ops wl wlvif p extra buf_offset hlid is_gem =
     (let total_len = skb_len (skbs wl p) + TX_DESC_LEN + extra
      in if aggr_buf_size wl < buf_offset + total_len then (Inl EAGAIN, wl)
         else
           let spare_blocks = op_get_spare_blocks ops wl is_gem
           in and_then (wl1271_alloc_tx_id wl p) (\<lambda>i wl1.
                let total_blocks = op_calc_tx_blocks ops wl1 total_len spare_blocks
                in if total_blocks \<le> unat (tx_blocks_available wl1)
                   then (Inr (), tx_allocated ops wl1 wlvif p extra hlid i total_blocks spare_blocks)
                   else (Inl EBUSY, wl1271_free_tx_id wl1 i)))"

section \<open>The hardware descriptor\<close>

abbreviation (input) TX_HW_MGMT_PKT_LIFETIME_TU :: u16 where "TX_HW_MGMT_PKT_LIFETIME_TU \<equiv> 2000"
abbreviation (input) TX_HW_AP_MODE_PKT_LIFETIME_TU :: u16 where "TX_HW_AP_MODE_PKT_LIFETIME_TU \<equiv> 8000"
abbreviation (input) TX_HW_ATTR_SESSION_COUNTER :: u16 where "TX_HW_ATTR_SESSION_COUNTER \<equiv> 0x1C"
abbreviation (input) TX_HW_ATTR_TX_DUMMY_REQ :: u16 where "TX_HW_ATTR_TX_DUMMY_REQ \<equiv> 0x2000"
abbreviation (input) TX_HW_ATTR_HOST_ENCRYPT :: u16 where "TX_HW_ATTR_HOST_ENCRYPT \<equiv> 0x4000"
abbreviation (input) TX_HW_ATTR_OFST_SESSION_COUNTER :: nat where "TX_HW_ATTR_OFST_SESSION_COUNTER \<equiv> 2"
abbreviation (input) TX_HW_ATTR_OFST_RATE_POLICY :: nat where "TX_HW_ATTR_OFST_RATE_POLICY \<equiv> 5"

text \<open>\<open>ETH_P_PAE\<close> in network byte order, as the packet holds it on a little-endian host.\<close>

abbreviation (input) ETH_P_PAE_be :: u16 where "ETH_P_PAE_be \<equiv> 0x8E88"

definition tx_rate_idx :: "wl1271 \<Rightarrow> vif_ptr option \<Rightarrow> skb_ptr \<Rightarrow> u16 \<Rightarrow> nat \<Rightarrow> nat" where
  "tx_rate_idx wl wlvif p fc hlid =
     (case wlvif of
        None \<Rightarrow> 0
      | Some v \<Rightarrow>
          let vf = vifs wl v; pae = (skb_protocol (skbs wl p) = ETH_P_PAE_be)
          in if wl12xx_is_dummy_packet wl p then 0
             else if vif_bss_type vf \<noteq> BSS_TYPE_AP_BSS then
               (if pae then sta_basic_rate_idx vf
                else if IEEE80211_TX_CTL_NO_CCK_RATE \<in> ti_flags (skb_info (skbs wl p))
                     then sta_p2p_rate_idx vf
                else if ieee80211_is_data fc then sta_ap_rate_idx vf
                else sta_basic_rate_idx vf)
             else
               (if hlid = ap_global_hlid vf then ap_mgmt_rate_idx vf
                else if hlid = ap_bcast_hlid vf \<or> pae \<or> \<not> ieee80211_is_data fc
                     then ap_bcast_rate_idx vf
                else ap_ucast_rate_idx vf (skb_ac wl p)))"

definition tx_attr_base :: "wl1271 \<Rightarrow> vif_ptr option \<Rightarrow> skb_ptr \<Rightarrow> u16" where
  "tx_attr_base wl wlvif p =
     (if wl12xx_is_dummy_packet wl p then
        (push_bit TX_HW_ATTR_OFST_SESSION_COUNTER (of_nat SESSION_COUNTER_INVALID)
           AND TX_HW_ATTR_SESSION_COUNTER) OR TX_HW_ATTR_TX_DUMMY_REQ
      else case wlvif of
             Some v \<Rightarrow> push_bit TX_HW_ATTR_OFST_SESSION_COUNTER (of_nat (session_counter (vifs wl v)))
           | None \<Rightarrow> 0)"

text \<open>
  Filling the descriptor. With extra space for a security header the 802.11 header is first moved to
  the start of the frame. Time is the environment's clock in nanoseconds.
\<close>

definition tx_relocate :: "nat \<Rightarrow> u16 \<Rightarrow> sk_buff \<Rightarrow> sk_buff" where
  "tx_relocate extra fc s =
     (if extra = 0 then s
      else (skb_write TX_DESC_LEN
              (buf_read (TX_DESC_LEN + extra) (ieee80211_hdrlen fc) (skb_bytes s)) s)
             \<lparr>skb_network_header := skb_network_header s + extra\<rparr>)"

definition wl1271_tx_fill_hdr ::
  "wlcore_ops \<Rightarrow> wl_env \<Rightarrow> wl1271 \<Rightarrow> vif_ptr option \<Rightarrow> skb_ptr \<Rightarrow> nat \<Rightarrow> nat \<Rightarrow> wl1271" where
  "wl1271_tx_fill_hdr ops env wl wlvif p extra hlid =
     (let fc = frame_control_at (TX_DESC_LEN + extra) (skbs wl p);
          wl1 = emit C_gettime (upd_skb p (tx_relocate extra fc) wl);
          hosttime = drop_bit 10 (e_time_ns env (log wl1));
          is_dummy = wl12xx_is_dummy_packet wl1 p;
          mgmt_life = (is_dummy \<or> (case wlvif of None \<Rightarrow> True
                        | Some v \<Rightarrow> vif_bss_type (vifs wl1 v) \<noteq> BSS_TYPE_AP_BSS));
          attr = tx_attr_base wl1 wlvif p
                 OR push_bit TX_HW_ATTR_OFST_RATE_POLICY (of_nat (tx_rate_idx wl1 wlvif p fc hlid));
          attr' = (if ieee80211_is_auth fc \<and> ieee80211_has_protected fc
                   then attr OR TX_HW_ATTR_HOST_ENCRYPT else attr);
          s = skbs wl1 p;
          d = (skb_desc s)\<lparr>d_start_time := of_int (hosttime - time_offset wl1),
                d_life_time := (if mgmt_life then TX_HW_MGMT_PKT_LIFETIME_TU
                                else TX_HW_AP_MODE_PKT_LIFETIME_TU),
                d_tid := ucast (skb_priority s), d_hlid := of_nat hlid, d_tx_attr := attr'\<rparr>;
          d' = op_set_tx_desc_data_len ops wl1 (op_set_tx_desc_csum ops wl1 d s) s
      in upd_skb p (skb_set_desc d') wl1)"

section \<open>Preparing a frame\<close>

text \<open>
  The key of the packet: the extra header space, and a WEP key that is not the interface's default
  one, which is set first. The code reads \<open>wlvif->default_key\<close> without checking the pointer. The
  result is the extra space and whether the cipher is GEM.
\<close>

definition tx_extra :: "wl1271 \<Rightarrow> ieee80211_key_conf option \<Rightarrow> nat" where
  "tx_extra wl key =
     (case key of
        Some k \<Rightarrow> if WLCORE_QUIRK_TKIP_HEADER_SPACE \<in> wl_quirks wl
                     \<and> cipher k = WLAN_CIPHER_SUITE_TKIP then WL1271_EXTRA_SPACE_TKIP else 0
      | None \<Rightarrow> 0)"

definition tx_is_wep :: "ieee80211_key_conf \<Rightarrow> bool" where
  "tx_is_wep k \<longleftrightarrow> cipher k = WLAN_CIPHER_SUITE_WEP40 \<or> cipher k = WLAN_CIPHER_SUITE_WEP104"

definition tx_select_key ::
  "wlcore_ops \<Rightarrow> wl_env \<Rightarrow> wl1271 \<Rightarrow> vif_ptr option \<Rightarrow> ieee80211_key_conf option \<Rightarrow> unit res \<times> wl1271" where
  "tx_select_key ops env wl wlvif key =
     (case key of
        None \<Rightarrow> (Inr (), wl)
      | Some k \<Rightarrow>
          if \<not> tx_is_wep k then (Inr (), wl)
          else case wlvif of
                 None \<Rightarrow> (Inr (), emit C_oops wl)
               | Some v \<Rightarrow>
                   if default_key (vifs wl v) = ucast (hw_key_idx k) then (Inr (), wl)
                   else and_then (wl1271_set_default_wep_key ops env (emit C_warn wl) v (hw_key_idx k))
                          (\<lambda>_ wl1. (Inr (), upd_vif v (\<lambda>vf. vf\<lparr>default_key := ucast (hw_key_idx k)\<rparr>) wl1)))"

definition tx_is_gem :: "ieee80211_key_conf option \<Rightarrow> bool" where
  "tx_is_gem key = (case key of Some k \<Rightarrow> cipher k = WL1271_CIPHER_SUITE_GEM | None \<Rightarrow> False)"

definition tx_copy_aggr :: "wl1271 \<Rightarrow> skb_ptr \<Rightarrow> nat \<Rightarrow> nat \<times> wl1271" where
  "tx_copy_aggr wl p buf_offset =
     (let s = skbs wl p; total_len = wlcore_calc_packet_alignment wl (skb_len s)
      in (total_len, wl\<lparr>aggr_buf := buf_write buf_offset
                (skb_bytes s @ replicate (total_len - skb_len s) 0) (aggr_buf wl)\<rparr>))"

definition tx_finish_frame ::
  "wlcore_ops \<Rightarrow> wl_env \<Rightarrow> wl1271 \<Rightarrow> vif_ptr option \<Rightarrow> skb_ptr \<Rightarrow> nat \<Rightarrow> nat \<Rightarrow> nat \<Rightarrow> nat \<times> wl1271" where
  "tx_finish_frame ops env wl wlvif p extra buf_offset hlid =
     (let is_dummy = wl12xx_is_dummy_packet wl p;
          wl1 = wl1271_tx_fill_hdr ops env wl wlvif p extra hlid;
          wl2 = (case wlvif of
                   Some v \<Rightarrow>
                     if \<not> is_dummy \<and> vif_bss_type (vifs wl1 v) = BSS_TYPE_AP_BSS
                     then wl1271_tx_regulate_link env
                            (wl1271_tx_ap_update_inconnection_sta ops env wl1 p) v hlid
                     else wl1
                 | None \<Rightarrow> wl1);
          (total_len, wl3) = tx_copy_aggr wl2 p buf_offset
      in (total_len, if is_dummy then upd_skb p (skb_pull TX_DESC_LEN) wl3 else wl3))"

definition wl1271_prepare_tx_frame ::
  "wlcore_ops \<Rightarrow> wl_env \<Rightarrow> wl1271 \<Rightarrow> vif_ptr option \<Rightarrow> skb_ptr \<Rightarrow> nat \<Rightarrow> nat \<Rightarrow> nat res \<times> wl1271" where
  "wl1271_prepare_tx_frame ops env wl wlvif p buf_offset hlid =
     (if hlid = WL12XX_INVALID_LINK_ID then (Inl EINVAL, wl)
      else
        let key = ti_hw_key (skb_info (skbs wl p)); extra = tx_extra wl key
        in and_then (tx_select_key ops env wl wlvif key) (\<lambda>_ wl1.
           and_then (wl1271_tx_allocate ops wl1 wlvif p extra buf_offset hlid (tx_is_gem key)) (\<lambda>_ wl2.
             let (total_len, wl3) = tx_finish_frame ops env wl2 wlvif p extra buf_offset hlid
             in (Inr total_len, wl3))))"

section \<open>Rate sets\<close>

text \<open>
  The rates a band supports, in the order of mac80211's rate indices (\<open>wl1271_rates\<close>,
  \<open>wl1271_rates_5ghz\<close> of wlcore/main.c); the device has no third band.
\<close>

definition band_hw_values :: "ieee80211_band \<Rightarrow> u32 list" where
  "band_hw_values b =
     (case b of
        IEEE80211_BAND_2GHZ \<Rightarrow> [0x1, 0x2, 0x4, 0x20, 0x8, 0x10, 0x40, 0x80, 0x200, 0x400, 0x800, 0x1000]
      | IEEE80211_BAND_5GHZ \<Rightarrow> [0x8, 0x10, 0x40, 0x80, 0x200, 0x400, 0x800, 0x1000]
      | IEEE80211_BAND_60GHZ \<Rightarrow> [])"

abbreviation (input) HW_HT_RATES_OFFSET :: nat where "HW_HT_RATES_OFFSET \<equiv> 16"
abbreviation (input) CONF_HW_BIT_RATE_MCS_0 :: u32 where "CONF_HW_BIT_RATE_MCS_0 \<equiv> 0x2000"

fun collect_rates :: "u32 list \<Rightarrow> u32 \<Rightarrow> u32 \<Rightarrow> u32 \<times> u32" where
  "collect_rates [] rset enabled = (rset, enabled)"
| "collect_rates (r # rs) rset enabled =
     collect_rates rs (drop_bit 1 rset) (if bit rset 0 then enabled OR r else enabled)"

definition wl1271_tx_enabled_rates_get :: "u32 \<Rightarrow> ieee80211_band \<Rightarrow> u32" where
  "wl1271_tx_enabled_rates_get rset rate_band =
     (let values = band_hw_values rate_band;
          (rest, enabled) = collect_rates values rset 0;
          rest' = drop_bit (HW_HT_RATES_OFFSET - length values) rest
      in snd (collect_rates (map (\<lambda>b. push_bit b CONF_HW_BIT_RATE_MCS_0) [0..<16]) rest' enabled))"

text \<open>The lowest rate of a set, \<open>BIT(__ffs(rate_set))\<close>.\<close>

definition wl1271_tx_min_rate_get :: "wl1271 \<Rightarrow> u32 \<Rightarrow> u32 \<times> wl1271" where
  "wl1271_tx_min_rate_get wl rates =
     (if rates = 0 then (0, emit C_warn wl)
      else (push_bit (find_first_bit {i. bit rates i} 32) 1, wl))"

section \<open>Accounting for packets in the chip\<close>

text \<open>
  A packet given to the driver is in a queue, in the firmware under a descriptor number, waiting to
  be handed back, or handed back. The dummy packet belongs to the driver and is not counted.
\<close>

definition in_flight :: "wl1271 \<Rightarrow> skb_ptr multiset" where
  "in_flight wl = (\<Sum>i<num_tx_desc wl. case tx_frames wl i of Some p \<Rightarrow> {#p#} | None \<Rightarrow> {#})"

definition ids_ok :: "wl1271 \<Rightarrow> bool" where
  "ids_ok wl \<longleftrightarrow> tx_frames_map wl \<subseteq> {..<num_tx_desc wl}
     \<and> (\<forall>i<num_tx_desc wl. i \<in> tx_frames_map wl \<longleftrightarrow> tx_frames wl i \<noteq> None)
     \<and> tx_frames_cnt wl = int (card (tx_frames_map wl))"

definition owned :: "wl1271 \<Rightarrow> skb_ptr multiset" where
  "owned wl = filter_mset (\<lambda>p. p \<noteq> dummy_packet wl) (queued wl + in_flight wl) + mset (deferred_tx_queue wl)"

definition accounted :: "wl1271 \<Rightarrow> skb_ptr multiset" where
  "accounted wl = owned wl + returned wl"

definition tx_ok :: "wl1271 \<Rightarrow> bool" where
  "tx_ok wl \<longleftrightarrow> queue_ok wl \<and> links_ok wl \<and> ids_ok wl \<and> dummy_packet wl \<notin># queued wl"

text \<open>Steps that move no packet: the accounts and the invariants do not see them.\<close>

definition quiet_step :: "wl1271 \<Rightarrow> wl1271 \<Rightarrow> bool" where
  "quiet_step wl wl' \<longleftrightarrow>
     (\<forall>h. tx_queue (links wl' h) = tx_queue (links wl h)) \<and> tx_queue_count wl' = tx_queue_count wl
     \<and> (\<forall>p. skb_queue_mapping (skbs wl' p) = skb_queue_mapping (skbs wl p))
     \<and> dummy_packet wl' = dummy_packet wl
     \<and> (WL1271_FLAG_DUMMY_PACKET_PENDING \<in> wl_flags wl' \<longleftrightarrow> WL1271_FLAG_DUMMY_PACKET_PENDING \<in> wl_flags wl)
     \<and> tx_frames wl' = tx_frames wl \<and> tx_frames_map wl' = tx_frames_map wl
     \<and> tx_frames_cnt wl' = tx_frames_cnt wl \<and> num_tx_desc wl' = num_tx_desc wl
     \<and> deferred_tx_queue wl' = deferred_tx_queue wl \<and> system_hlid wl' = system_hlid wl
     \<and> (\<forall>v. vif_links_map (vifs wl' v) = vif_links_map (vifs wl v))
     \<and> queue_stop_reasons wl' = queue_stop_reasons wl \<and> aggr_buf_size wl' = aggr_buf_size wl
     \<and> (wl_state wl' = WLCORE_STATE_OFF \<longleftrightarrow> wl_state wl = WLCORE_STATE_OFF)
     \<and> (\<exists>l. log wl' = log wl @ l \<and> list_all quiet_call l)"

lemma quiet_stepI:
  assumes "\<And>h. tx_queue (links wl' h) = tx_queue (links wl h)" "tx_queue_count wl' = tx_queue_count wl"
    "\<And>p. skb_queue_mapping (skbs wl' p) = skb_queue_mapping (skbs wl p)"
    "dummy_packet wl' = dummy_packet wl"
    "WL1271_FLAG_DUMMY_PACKET_PENDING \<in> wl_flags wl' \<longleftrightarrow> WL1271_FLAG_DUMMY_PACKET_PENDING \<in> wl_flags wl"
    "tx_frames wl' = tx_frames wl" "tx_frames_map wl' = tx_frames_map wl"
    "tx_frames_cnt wl' = tx_frames_cnt wl" "num_tx_desc wl' = num_tx_desc wl"
    "deferred_tx_queue wl' = deferred_tx_queue wl" "system_hlid wl' = system_hlid wl"
    "\<And>v. vif_links_map (vifs wl' v) = vif_links_map (vifs wl v)"
    "queue_stop_reasons wl' = queue_stop_reasons wl" "aggr_buf_size wl' = aggr_buf_size wl"
    "wl_state wl' = WLCORE_STATE_OFF \<longleftrightarrow> wl_state wl = WLCORE_STATE_OFF"
    "log wl' = log wl @ l" "list_all quiet_call l"
  shows "quiet_step wl wl'"
  using assms unfolding quiet_step_def by blast

lemma quiet_step_refl [simp, intro]: "quiet_step wl wl"
  by (rule quiet_stepI [where l = "[]"]) simp_all

lemma quiet_step_trans: "quiet_step a b \<Longrightarrow> quiet_step b c \<Longrightarrow> quiet_step a c"
proof -
  assume 1: "quiet_step a b" and 2: "quiet_step b c"
  obtain l where l: "log b = log a @ l" "list_all quiet_call l" using 1 unfolding quiet_step_def by blast
  obtain m where m: "log c = log b @ m" "list_all quiet_call m" using 2 unfolding quiet_step_def by blast
  show ?thesis
    by (rule quiet_stepI [where l = "l @ m"]) (use 1 2 l m in \<open>simp_all add: quiet_step_def\<close>)
qed

lemma cmd_step_quiet: "cmd_step wl wl' \<Longrightarrow> quiet_step wl wl'"
proof -
  assume c: "cmd_step wl wl'"
  have d: "WL1271_FLAG_DUMMY_PACKET_PENDING \<in> wl_flags wl' \<longleftrightarrow> WL1271_FLAG_DUMMY_PACKET_PENDING \<in> wl_flags wl"
    by (rule cmd_step_flag [OF c]) simp_all
  from c obtain s l f where "wl' = wl\<lparr>wl_state := s, wl_flags := f, log := log wl @ l\<rparr>"
    "list_all quiet_call l"
    "s = wl_state wl \<or> wl_state wl = WLCORE_STATE_ON \<and> s = WLCORE_STATE_RESTARTING"
    by (elim cmd_stepE)
  then show ?thesis using d by (intro quiet_stepI [where l = l]) auto
qed

lemma quiet_step_emit: "quiet_call c \<Longrightarrow> quiet_step wl (emit c wl)"
  by (intro cmd_step_quiet cmd_step_emit)

lemma quiet_step_flag:
  "f \<noteq> WL1271_FLAG_DUMMY_PACKET_PENDING \<Longrightarrow> quiet_step wl (set_flag f wl)"
  "f \<noteq> WL1271_FLAG_DUMMY_PACKET_PENDING \<Longrightarrow> quiet_step wl (clear_flag f wl)"
  by (rule quiet_stepI [where l = "[]"]; auto simp: set_flag_def clear_flag_def)+

lemma quiet_step_skb:
  "(\<And>s. skb_queue_mapping (f s) = skb_queue_mapping s) \<Longrightarrow> quiet_step wl (upd_skb p f wl)"
  by (rule quiet_stepI [where l = "[]"]) (simp_all add: upd_skb_def)

lemma quiet_step_vif:
  "(\<And>x. vif_links_map (f x) = vif_links_map x) \<Longrightarrow> quiet_step wl (upd_vif v f wl)"
  by (rule quiet_stepI [where l = "[]"]) (simp_all add: upd_vif_def)

lemma quiet_step_link: "(\<And>x. tx_queue (f x) = tx_queue x) \<Longrightarrow> quiet_step wl (upd_link h f wl)"
  by (rule quiet_stepI [where l = "[]"]) (simp_all add: upd_link_def)

lemma quiet_step_accounts:
  assumes q: "quiet_step wl wl'"
  shows "queue_ok wl' = queue_ok wl" and "queued wl' = queued wl" and "returned wl' = returned wl"
    and "stop_view_ok wl' = stop_view_ok wl" and "links_ok wl' = links_ok wl"
    and "ids_ok wl' = ids_ok wl" and "in_flight wl' = in_flight wl" and "owned wl' = owned wl"
    and "accounted wl' = accounted wl" and "tx_ok wl' = tx_ok wl" and "skb_ac wl' = skb_ac wl"
proof -
  obtain l where l: "log wl' = log wl @ l" "list_all quiet_call l" using q unfolding quiet_step_def by blast
  show ac: "skb_ac wl' = skb_ac wl" using q by (simp add: quiet_step_def skb_ac_def fun_eq_iff)
  show ok: "queue_ok wl' = queue_ok wl" and qd: "queued wl' = queued wl"
    by (rule queue_ok_cong; use q ac in \<open>simp add: quiet_step_def\<close>)+
  show r: "returned wl' = returned wl" using returned_quiet [OF l(2)] l(1) by (simp add: returned_def)
  show "stop_view_ok wl' = stop_view_ok wl"
    using mac_stopped_quiet [OF l(2)] l(1) q
    by (simp add: stop_view_ok_def wlcore_is_queue_stopped_def quiet_step_def)
  show lk: "links_ok wl' = links_ok wl" using q by (simp add: links_ok_def quiet_step_def)
  show "ids_ok wl' = ids_ok wl" using q by (simp add: ids_ok_def quiet_step_def)
  then show "tx_ok wl' = tx_ok wl" using ok lk qd q by (simp add: tx_ok_def quiet_step_def)
  show "in_flight wl' = in_flight wl" using q by (simp add: in_flight_def quiet_step_def)
  then show "owned wl' = owned wl" using qd q by (simp add: owned_def quiet_step_def)
  then show "accounted wl' = accounted wl" using r by (simp add: accounted_def)
qed

section \<open>Descriptor numbers as slots\<close>

lemma alloc_tx_id_cases:
  obtains (full) "wl1271_alloc_tx_id wl p = (Inl EBUSY, wl)" "{..<num_tx_desc wl} \<subseteq> tx_frames_map wl"
  | (ok) i where "wl1271_alloc_tx_id wl p = (Inr i, wl\<lparr>tx_frames_map := insert i (tx_frames_map wl),
        tx_frames := (tx_frames wl)(i := Some p), tx_frames_cnt := tx_frames_cnt wl + 1\<rparr>)"
      "i < num_tx_desc wl" "i \<notin> tx_frames_map wl" "\<forall>j<i. j \<in> tx_frames_map wl"
proof -
  let ?i = "find_first_zero_bit (tx_frames_map wl) (num_tx_desc wl)"
  show thesis
  proof (cases "num_tx_desc wl \<le> ?i")
    case True
    then show thesis
      using find_first_zero_bit_full [of "num_tx_desc wl" "tx_frames_map wl"]
      by (intro full) (simp_all add: wl1271_alloc_tx_id_def Let_def)
  next
    case False
    then have lt: "?i < num_tx_desc wl" by simp
    show thesis
      by (rule ok [of ?i])
        (use lt find_first_zero_bit_less [OF lt] in \<open>auto simp: wl1271_alloc_tx_id_def Let_def\<close>)
  qed
qed

definition tx_id_alloc :: "skb_ptr \<Rightarrow> wl1271 \<Rightarrow> errno + nat \<times> wl1271" where
  "tx_id_alloc p wl = (case wl1271_alloc_tx_id wl p of (Inl e, _) \<Rightarrow> Inl e | (Inr i, wl1) \<Rightarrow> Inr (i, wl1))"

definition tx_id_release :: "nat \<Rightarrow> wl1271 \<Rightarrow> wl1271" where
  "tx_id_release i wl = wl1271_free_tx_id wl i"

lemma free_tx_id_simps [simp]:
  "tx_frames_map (wl1271_free_tx_id wl i) = tx_frames_map wl - {i}"
  "num_tx_desc (wl1271_free_tx_id wl i) = num_tx_desc wl"
  "tx_frames (wl1271_free_tx_id wl i) = (if i \<in> tx_frames_map wl then (tx_frames wl)(i := None) else tx_frames wl)"
  "tx_frames_cnt (wl1271_free_tx_id wl i) = tx_frames_cnt wl - (if i \<in> tx_frames_map wl then 1 else 0)"
  by (simp_all add: wl1271_free_tx_id_def Let_def clear_flag_def)

interpretation tx_ids: slot_allocator "tx_id_alloc p" tx_id_release tx_frames_map num_tx_desc for p
proof
  fix s i t
  assume "tx_id_alloc p s = Inr (i, t)"
  then show "i < num_tx_desc s \<and> i \<notin> tx_frames_map s \<and> (\<forall>j<i. j \<in> tx_frames_map s)
      \<and> tx_frames_map t = insert i (tx_frames_map s) \<and> num_tx_desc t = num_tx_desc s"
    by (cases rule: alloc_tx_id_cases [of s p]) (auto simp: tx_id_alloc_def)
next
  fix s e
  assume "tx_id_alloc p s = Inl e"
  then show "e = EBUSY \<and> {..<num_tx_desc s} \<subseteq> tx_frames_map s"
    by (cases rule: alloc_tx_id_cases [of s p]) (auto simp: tx_id_alloc_def)
next
  fix i s
  show "tx_frames_map (tx_id_release i s) = tx_frames_map s - {i}"
    and "num_tx_desc (tx_id_release i s) = num_tx_desc s"
    by (simp_all add: tx_id_release_def)
qed

text \<open>An update of the descriptor table at one free or one used number.\<close>

lemma in_flight_upd:
  assumes "i < num_tx_desc wl" and "num_tx_desc wl' = num_tx_desc wl"
    and "tx_frames wl' = (tx_frames wl)(i := x)"
  shows "in_flight wl' + (case tx_frames wl i of Some p \<Rightarrow> {#p#} | None \<Rightarrow> {#})
         = in_flight wl + (case x of Some p \<Rightarrow> {#p#} | None \<Rightarrow> {#})"
  unfolding in_flight_def assms(2,3)
  using sum_differ_one [OF assms(1), of "\<lambda>j. case ((tx_frames wl)(i := x)) j of Some p \<Rightarrow> {#p#} | None \<Rightarrow> {#}"
      "\<lambda>j. case tx_frames wl j of Some p \<Rightarrow> {#p#} | None \<Rightarrow> {#}"]
  by simp

lemma alloc_tx_id_Inr:
  assumes "wl1271_alloc_tx_id wl p = (Inr i, wl')"
  shows "wl' = wl\<lparr>tx_frames_map := insert i (tx_frames_map wl),
        tx_frames := (tx_frames wl)(i := Some p), tx_frames_cnt := tx_frames_cnt wl + 1\<rparr>
    \<and> i < num_tx_desc wl \<and> i \<notin> tx_frames_map wl"
proof (cases rule: alloc_tx_id_cases [of wl p])
  case full
  then show ?thesis using assms by simp
next
  case (ok j)
  have "(Inr i :: nat res, wl') = (Inr j, wl\<lparr>tx_frames_map := insert j (tx_frames_map wl),
        tx_frames := (tx_frames wl)(j := Some p), tx_frames_cnt := tx_frames_cnt wl + 1\<rparr>)"
    by (rule trans [OF assms [symmetric] ok(1)])
  then have "i = j" "wl' = wl\<lparr>tx_frames_map := insert j (tx_frames_map wl),
        tx_frames := (tx_frames wl)(j := Some p), tx_frames_cnt := tx_frames_cnt wl + 1\<rparr>"
    by (simp_all only: prod.inject sum.inject)
  then show ?thesis using ok(2,3) by blast
qed

lemma alloc_tx_id_accounts:
  assumes "ids_ok wl" and "wl1271_alloc_tx_id wl p = (Inr i, wl')"
  shows "ids_ok wl'" and "in_flight wl' = add_mset p (in_flight wl)" and "tx_frames wl' i = Some p"
    and "i < num_tx_desc wl" and "i \<in> tx_frames_map wl'"
proof -
  have wl': "wl' = wl\<lparr>tx_frames_map := insert i (tx_frames_map wl),
        tx_frames := (tx_frames wl)(i := Some p), tx_frames_cnt := tx_frames_cnt wl + 1\<rparr>"
    and i: "i < num_tx_desc wl" "i \<notin> tx_frames_map wl"
    using alloc_tx_id_Inr [OF assms(2)] by blast+
  have fin: "finite (tx_frames_map wl)" using assms(1) finite_subset unfolding ids_ok_def by blast
  have free: "tx_frames wl i = None" using assms(1) i by (auto simp: ids_ok_def)
  show "ids_ok wl'" using assms(1) i fin by (auto simp: wl' ids_ok_def)
  show "in_flight wl' = add_mset p (in_flight wl)"
    using in_flight_upd [OF i(1), of wl' "Some p"] free by (simp add: wl')
  show "tx_frames wl' i = Some p" "i < num_tx_desc wl" "i \<in> tx_frames_map wl'"
    using i by (simp_all add: wl')
qed

lemma free_tx_id_accounts:
  assumes "ids_ok wl"
  shows "ids_ok (wl1271_free_tx_id wl i)"
    and "i < num_tx_desc wl \<Longrightarrow> in_flight (wl1271_free_tx_id wl i)
           + (case tx_frames wl i of Some p \<Rightarrow> {#p#} | None \<Rightarrow> {#}) = in_flight wl"
proof -
  have fin: "finite (tx_frames_map wl)" using assms finite_subset unfolding ids_ok_def by blast
  have card: "i \<in> tx_frames_map wl \<Longrightarrow> int (card (tx_frames_map wl - {i})) = int (card (tx_frames_map wl)) - 1"
    using fin card_Suc_Diff1 [of "tx_frames_map wl" i] by simp
  show "ids_ok (wl1271_free_tx_id wl i)"
    using assms card by (auto simp: ids_ok_def)
  show "in_flight (wl1271_free_tx_id wl i) + (case tx_frames wl i of Some p \<Rightarrow> {#p#} | None \<Rightarrow> {#})
      = in_flight wl" if i: "i < num_tx_desc wl"
  proof (cases "i \<in> tx_frames_map wl")
    case True
    then show ?thesis using in_flight_upd [OF i, of "wl1271_free_tx_id wl i" None] by simp
  next
    case False
    then have "tx_frames wl i = None" using assms i by (auto simp: ids_ok_def)
    then show ?thesis using False by (simp add: in_flight_def)
  qed
qed

text \<open>Everything else is left alone by the two operations.\<close>

lemma free_tx_id_frame:
  "queue_ok (wl1271_free_tx_id wl i) = queue_ok wl" "queued (wl1271_free_tx_id wl i) = queued wl"
  "links_ok (wl1271_free_tx_id wl i) = links_ok wl" "returned (wl1271_free_tx_id wl i) = returned wl"
  "stop_view_ok (wl1271_free_tx_id wl i) = stop_view_ok wl" "skbs (wl1271_free_tx_id wl i) = skbs wl"
  "deferred_tx_queue (wl1271_free_tx_id wl i) = deferred_tx_queue wl"
  "dummy_packet (wl1271_free_tx_id wl i) = dummy_packet wl" "log (wl1271_free_tx_id wl i) = log wl"
  "vifs (wl1271_free_tx_id wl i) = vifs wl" "links (wl1271_free_tx_id wl i) = links wl"
proof -
  show "skbs (wl1271_free_tx_id wl i) = skbs wl" "deferred_tx_queue (wl1271_free_tx_id wl i) = deferred_tx_queue wl"
    "dummy_packet (wl1271_free_tx_id wl i) = dummy_packet wl" "log (wl1271_free_tx_id wl i) = log wl"
    "vifs (wl1271_free_tx_id wl i) = vifs wl" "links (wl1271_free_tx_id wl i) = links wl"
    by (simp_all add: wl1271_free_tx_id_def Let_def clear_flag_def)
  show "queue_ok (wl1271_free_tx_id wl i) = queue_ok wl" "queued (wl1271_free_tx_id wl i) = queued wl"
    by (rule queue_ok_cong; auto simp: wl1271_free_tx_id_def Let_def clear_flag_def skb_ac_def)+
  show "links_ok (wl1271_free_tx_id wl i) = links_ok wl" "returned (wl1271_free_tx_id wl i) = returned wl"
    "stop_view_ok (wl1271_free_tx_id wl i) = stop_view_ok wl"
    by (simp_all add: wl1271_free_tx_id_def Let_def clear_flag_def links_ok_def returned_def
        stop_view_ok_def wlcore_is_queue_stopped_def)
qed

lemma alloc_tx_id_frame:
  assumes "wl1271_alloc_tx_id wl p = (Inr i, wl')"
  shows "queue_ok wl' = queue_ok wl" "queued wl' = queued wl" "links_ok wl' = links_ok wl"
    "returned wl' = returned wl" "stop_view_ok wl' = stop_view_ok wl" "skbs wl' = skbs wl"
    "deferred_tx_queue wl' = deferred_tx_queue wl" "dummy_packet wl' = dummy_packet wl"
    "log wl' = log wl" "vifs wl' = vifs wl" "links wl' = links wl"
proof -
  have wl': "wl' = wl\<lparr>tx_frames_map := insert i (tx_frames_map wl),
        tx_frames := (tx_frames wl)(i := Some p), tx_frames_cnt := tx_frames_cnt wl + 1\<rparr>"
    using alloc_tx_id_Inr [OF assms] by blast
  show "queue_ok wl' = queue_ok wl" "queued wl' = queued wl"
    by (rule queue_ok_cong; simp add: wl' skb_ac_def)+
  show "links_ok wl' = links_ok wl" "returned wl' = returned wl" "stop_view_ok wl' = stop_view_ok wl"
    "skbs wl' = skbs wl" "deferred_tx_queue wl' = deferred_tx_queue wl" "dummy_packet wl' = dummy_packet wl"
    "log wl' = log wl" "vifs wl' = vifs wl" "links wl' = links wl"
    by (simp_all add: wl' links_ok_def returned_def stop_view_ok_def wlcore_is_queue_stopped_def)
qed

section \<open>Preparing a frame and the accounts\<close>

text \<open>What a packet is apart from mac80211's control block.\<close>

definition skb_body :: "sk_buff \<Rightarrow> sk_buff" where
  "skb_body s = s\<lparr>skb_info := info_zeroed\<rparr>"

declare quiet_step_trans [trans]

lemma quiet_step_rearm: "quiet_step wl (wl12xx_rearm_tx_watchdog_locked wl)"
proof -
  have "quiet_step wl (emit c (emit d wl))" if "quiet_call c" "quiet_call d" for c d
    using that by (intro quiet_step_trans [OF quiet_step_emit quiet_step_emit])
  then show ?thesis by (simp add: wl12xx_rearm_tx_watchdog_locked_def)
qed

lemma skb_push_mapping [simp]: "skb_queue_mapping (skb_push n s) = skb_queue_mapping s"
  by (simp add: skb_push_def)

lemma skb_pull_mapping [simp]: "skb_queue_mapping (skb_pull n s) = skb_queue_mapping s"
  by (simp add: skb_pull_def)

lemma tx_relocate_mapping [simp]: "skb_queue_mapping (tx_relocate x fc s) = skb_queue_mapping s"
  by (simp add: tx_relocate_def skb_write_def)

lemma quiet_step_seq: "quiet_step a b \<Longrightarrow> (\<And>x. quiet_step x (f x)) \<Longrightarrow> quiet_step a (f b)"
  by (rule quiet_step_trans)

lemma quiet_step_blocks:
  "quiet_step wl (wl\<lparr>tx_blocks_available := a, tx_allocated_blocks := b\<rparr>)"
  "quiet_step wl (wl\<lparr>tx_allocated_pkts := c\<rparr>)" "quiet_step wl (wl\<lparr>aggr_buf := d\<rparr>)"
  "quiet_step wl (wl\<lparr>ap_ps_map := m\<rparr>)"
  by (rule quiet_stepI [where l = "[]"]; simp)+

lemma quiet_step_push_desc: "quiet_step wl (tx_push_desc ops wl p x i t s)"
proof -
  let ?wl1 = "if skb_data (skbs wl p) < TX_DESC_LEN + x then emit C_oops wl else wl"
  have "quiet_step wl ?wl1" by (simp add: quiet_step_emit)
  then show ?thesis
    unfolding tx_push_desc_def Let_def by (rule quiet_step_trans) (rule quiet_step_skb, simp)
qed

lemma quiet_step_take_blocks: "quiet_step wl (tx_take_blocks wl p t)"
proof -
  define wl1 where "wl1 = wl\<lparr>tx_blocks_available := tx_blocks_available wl - of_nat t,
      tx_allocated_blocks := tx_allocated_blocks wl + of_nat t\<rparr>"
  define wl2 where "wl2 = (if tx_allocated_blocks wl1 = of_nat t then wl12xx_rearm_tx_watchdog_locked wl1 else wl1)"
  have "quiet_step wl wl1" unfolding wl1_def by (rule quiet_step_blocks)
  also have "quiet_step wl1 wl2" by (simp add: wl2_def quiet_step_rearm)
  finally show ?thesis
    unfolding tx_take_blocks_def Let_def wl1_def [symmetric] wl2_def [symmetric]
    by (rule quiet_step_trans) (rule quiet_step_blocks)
qed

lemma quiet_step_tx_allocated: "quiet_step wl (tx_allocated ops wl wlvif p x h i t s)"
proof -
  have "quiet_step w (tx_count_sta w wlvif p h)" for w
    by (auto simp: tx_count_sta_def split: option.split intro: quiet_step_link)
  then show ?thesis
    unfolding tx_allocated_def
    by (rule quiet_step_trans [OF quiet_step_trans [OF quiet_step_push_desc quiet_step_take_blocks]])
qed

lemma quiet_step_fill_hdr: "quiet_step wl (wl1271_tx_fill_hdr ops env wl wlvif p x h)"
proof -
  let ?wl1 = "emit C_gettime (upd_skb p (tx_relocate x (frame_control_at (TX_DESC_LEN + x) (skbs wl p))) wl)"
  have "quiet_step wl ?wl1"
    by (rule quiet_step_trans [OF quiet_step_skb quiet_step_emit]) simp_all
  then show ?thesis
    unfolding wl1271_tx_fill_hdr_def Let_def
    by (rule quiet_step_trans) (rule quiet_step_skb, simp)
qed

lemma quiet_step_copy_aggr: "quiet_step wl (snd (tx_copy_aggr wl p off))"
  by (simp add: tx_copy_aggr_def Let_def quiet_step_blocks)

text \<open>Entering power save hands the link's packets back.\<close>

lemma owned_drain:
  assumes "queued wl = queued wl' + M" and "in_flight wl' = in_flight wl"
    and "deferred_tx_queue wl' = deferred_tx_queue wl" and "dummy_packet wl' = dummy_packet wl"
    and "returned wl' = returned wl + filter_mset (\<lambda>p. p \<noteq> dummy_packet wl) M"
  shows "accounted wl' = accounted wl" and "owned wl = owned wl' + filter_mset (\<lambda>p. p \<noteq> dummy_packet wl) M"
  using assms by (simp_all add: accounted_def owned_def ac_simps)

text \<open>
  \<open>drain_step X wl wl'\<close>: packets were at most handed back from the queues, and the packets in \<open>X\<close> kept
  their contents.
\<close>

definition drain_step :: "skb_ptr set \<Rightarrow> wl1271 \<Rightarrow> wl1271 \<Rightarrow> bool" where
  "drain_step X wl wl' \<longleftrightarrow> tx_ok wl \<longrightarrow>
     tx_ok wl' \<and> accounted wl' = accounted wl \<and> queued wl' \<subseteq># queued wl \<and> owned wl' \<subseteq># owned wl
     \<and> in_flight wl' = in_flight wl \<and> dummy_packet wl' = dummy_packet wl
     \<and> aggr_buf_size wl' = aggr_buf_size wl \<and> system_hlid wl' = system_hlid wl
     \<and> (wl_state wl' = WLCORE_STATE_OFF \<longleftrightarrow> wl_state wl = WLCORE_STATE_OFF)
     \<and> (WL1271_FLAG_DUMMY_PACKET_PENDING \<in> wl_flags wl' \<longleftrightarrow> WL1271_FLAG_DUMMY_PACKET_PENDING \<in> wl_flags wl)
     \<and> (stop_view_ok wl \<longrightarrow> stop_view_ok wl') \<and> (\<forall>x\<in>X. skb_body (skbs wl' x) = skb_body (skbs wl x))"

lemma drain_step_refl [simp, intro]: "drain_step X wl wl"
  by (simp add: drain_step_def)

lemma drain_step_trans [trans]: "drain_step X a b \<Longrightarrow> drain_step X b c \<Longrightarrow> drain_step X a c"
proof -
  assume 1: "drain_step X a b" and 2: "drain_step X b c"
  show "drain_step X a c"
    unfolding drain_step_def
  proof (intro impI)
    assume "tx_ok a"
    note b = 1 [unfolded drain_step_def, rule_format, OF this]
    note c = 2 [unfolded drain_step_def, rule_format, OF b [THEN conjunct1]]
    from b c have "queued c \<subseteq># queued a" "owned c \<subseteq># owned a" by (meson subset_mset.order_trans)+
    with b c show "tx_ok c \<and> accounted c = accounted a \<and> queued c \<subseteq># queued a \<and> owned c \<subseteq># owned a
     \<and> in_flight c = in_flight a \<and> dummy_packet c = dummy_packet a
     \<and> aggr_buf_size c = aggr_buf_size a \<and> system_hlid c = system_hlid a
     \<and> (wl_state c = WLCORE_STATE_OFF \<longleftrightarrow> wl_state a = WLCORE_STATE_OFF)
     \<and> (WL1271_FLAG_DUMMY_PACKET_PENDING \<in> wl_flags c \<longleftrightarrow> WL1271_FLAG_DUMMY_PACKET_PENDING \<in> wl_flags a)
     \<and> (stop_view_ok a \<longrightarrow> stop_view_ok c) \<and> (\<forall>x\<in>X. skb_body (skbs c x) = skb_body (skbs a x))"
      by simp
  qed
qed

lemma quiet_drain_step:
  assumes "quiet_step wl wl'" and "\<And>x. x \<in> X \<Longrightarrow> skb_body (skbs wl' x) = skb_body (skbs wl x)"
  shows "drain_step X wl wl'"
  using quiet_step_accounts [OF assms(1)] assms unfolding drain_step_def
  by (simp add: quiet_step_def)

lemma cmd_step_drain: "cmd_step wl wl' \<Longrightarrow> drain_step X wl wl'"
  by (rule quiet_drain_step) (auto simp: cmd_step_quiet elim!: cmd_stepE)

context queue_drain
begin

lemma drain_link_body: "skb_body (skbs (drain_link one wl h) x) = skb_body (skbs wl x)"
proof -
  obtain sk l r where w: "drain_link one wl h = wl\<lparr>
        tx_queue_count := (\<lambda>i. if i < NUM_TX_QUEUES
            then tx_queue_count wl i - int (length (tx_queue (links wl h) i)) else tx_queue_count wl i),
        queue_stop_reasons := r, links := links (emptied NUM_TX_QUEUES h wl),
        skbs := sk, log := log wl @ l\<rparr>" and sk: "\<And>x. \<exists>i. sk x = (skbs wl x)\<lparr>skb_info := i\<rparr>"
    by (rule drain_link_shape [of wl h]) blast
  obtain i where "sk x = (skbs wl x)\<lparr>skb_info := i\<rparr>" using sk by blast
  then show ?thesis by (simp add: w skb_body_def)
qed

lemma drain_link_accounts:
  assumes "tx_ok wl" and "h < WL12XX_MAX_LINKS" and "wl' = drain_link one wl h"
  shows "tx_ok wl'" and "accounted wl' = accounted wl" and "owned wl' \<subseteq># owned wl"
    and "queued wl' \<subseteq># queued wl" and "in_flight wl' = in_flight wl" and "skb_body (skbs wl' x) = skb_body (skbs wl x)"
proof -
  have q: "queue_ok wl" and l: "links_ok wl" and i: "ids_ok wl" using assms(1) by (simp_all add: tx_ok_def)
  note ff = drain_link_queue [OF q assms(2), folded assms(3)]
  have fl: "in_flight wl' = in_flight wl" by (simp add: assms(3) in_flight_def drain_link_frame)
  have lk: "links_ok wl'" "ids_ok wl'" using l i by (simp_all add: assms(3) links_ok_def ids_ok_def drain_link_frame)
  have d: "deferred_tx_queue wl' = deferred_tx_queue wl"
    by (simp add: assms(3) drain_link_frame)
  have b: "skb_body (skbs wl' x) = skb_body (skbs wl x)" for x
    unfolding assms(3) by (rule drain_link_body)
  have dm: "dummy_packet wl' = dummy_packet wl" by (simp add: assms(3) drain_link_frame)
  have "dummy_packet wl' \<notin># queued wl'" using assms(1) ff(2) dm by (simp add: tx_ok_def)
  then show "tx_ok wl'" using ff(1) lk by (simp add: tx_ok_def)
  show "accounted wl' = accounted wl" by (rule owned_drain(1) [OF ff(2) fl d dm ff(3)])
  show "owned wl' \<subseteq># owned wl" using owned_drain(2) [OF ff(2) fl d dm ff(3)] by simp
  show "queued wl' \<subseteq># queued wl" using ff(2) by simp
  show "in_flight wl' = in_flight wl" by (rule fl)
  show "skb_body (skbs wl' x) = skb_body (skbs wl x)" by (rule b)
qed

lemma drain_link_step:
  "h < WL12XX_MAX_LINKS \<Longrightarrow> drain_step X wl (drain_link one wl h)"
  using drain_link_accounts [of wl h] drain_link_stop_view [of wl h]
  unfolding drain_step_def by (simp add: drain_link_frame)

end

lemmas drain_step_filter = filter_drain.drain_link_step [folded wl1271_ps_filter_frames_def]
lemmas drain_step_reset = reset_drain.drain_link_step [folded wl1271_tx_reset_link_queues_def]

lemma drain_step_ps_link_start:
  assumes "h < WL12XX_MAX_LINKS"
  shows "drain_step X wl (wl12xx_ps_link_start env wl v h clean)"
proof -
  let ?wl1 = "emit (C_sta_ps_transition v (lnk_addr (links wl h)) True) wl"
  define wl2 where "wl2 = (if clean then wl1271_ps_filter_frames ?wl1 h else ?wl1)"
  have "drain_step X wl ?wl1" by (rule cmd_step_drain) simp
  also have "drain_step X ?wl1 wl2" by (simp add: wl2_def drain_step_filter assms)
  also have "drain_step X wl2 (wl2\<lparr>ap_ps_map := insert h (ap_ps_map wl2)\<rparr>)"
    by (rule quiet_drain_step) (simp_all add: quiet_step_blocks)
  finally show ?thesis
    unfolding wl12xx_ps_link_start_def Let_def wl2_def by simp
qed

lemma drain_step_regulate:
  assumes "links_ok wl"
  shows "drain_step X wl (wl1271_tx_regulate_link env wl v h)"
proof (cases "h \<in> vif_links_map (vifs wl v)")
  case True
  then have "h < WL12XX_MAX_LINKS" using assms unfolding links_ok_def by blast
  then show ?thesis using True by (simp add: wl1271_tx_regulate_link_def Let_def drain_step_ps_link_start)
next
  case False
  then show ?thesis by (simp add: wl1271_tx_regulate_link_def cmd_step_drain)
qed

text \<open>Packets other than the one being sent keep their contents.\<close>

lemma skbs_rearm [simp]: "skbs (wl12xx_rearm_tx_watchdog_locked wl) = skbs wl"
  by (simp add: wl12xx_rearm_tx_watchdog_locked_def emit_def)

lemma tx_allocated_skbs:
  "skbs (tx_allocated ops wl wlvif p e h i t s) = skbs (tx_push_desc ops wl p e i t s)"
  "x \<noteq> p \<Longrightarrow> skbs (tx_push_desc ops wl p e i t s) x = skbs wl x"
proof -
  have "skbs (tx_count_sta w wlvif p h) = skbs w" for w by (simp add: tx_count_sta_def split: option.split)
  moreover have "skbs (tx_take_blocks w p t) = skbs w" for w by (simp add: tx_take_blocks_def Let_def)
  ultimately show "skbs (tx_allocated ops wl wlvif p e h i t s) = skbs (tx_push_desc ops wl p e i t s)"
    by (simp add: tx_allocated_def)
  show "skbs (tx_push_desc ops wl p e i t s) x = skbs wl x" if "x \<noteq> p"
    using that by (simp add: tx_push_desc_def Let_def upd_skb_def emit_def)
qed

lemma fill_hdr_skbs: "x \<noteq> p \<Longrightarrow> skbs (wl1271_tx_fill_hdr ops env wl wlvif p e h) x = skbs wl x"
  by (simp add: wl1271_tx_fill_hdr_def Let_def emit_def upd_skb_def)

lemma copy_aggr_skbs: "skbs (snd (tx_copy_aggr wl p off)) = skbs wl"
  by (simp add: tx_copy_aggr_def Let_def)

context chip_bus
begin

lemma select_key_step:
  "quiet_step wl (snd (tx_select_key ops env wl wlvif key))"
  "skbs (snd (tx_select_key ops env wl wlvif key)) = skbs wl"
proof -
  have step: "cmd_step wl (snd (wl1271_set_default_wep_key ops env (emit C_warn wl) v k))" for v k
    unfolding wl1271_set_default_wep_key_def
    by (simp add: cmd_step_trans [OF cmd_step_emit set_default_wep_key_step])
  have sk: "cmd_step wl w \<Longrightarrow> skbs w = skbs wl" for w by (auto elim: cmd_stepE)
  have "quiet_step wl (snd (tx_select_key ops env wl wlvif key)) \<and> skbs (snd (tx_select_key ops env wl wlvif key)) = skbs wl"
  proof (cases "\<exists>k v. key = Some k \<and> wlvif = Some v \<and> tx_is_wep k \<and> default_key (vifs wl v) \<noteq> ucast (hw_key_idx k)")
    case True
    then obtain k v where kv: "key = Some k" "wlvif = Some v" "tx_is_wep k" "default_key (vifs wl v) \<noteq> ucast (hw_key_idx k)"
      by blast
    obtain r wl1 where m: "wl1271_set_default_wep_key ops env (emit C_warn wl) v (hw_key_idx k) = (r, wl1)"
      by (cases "wl1271_set_default_wep_key ops env (emit C_warn wl) v (hw_key_idx k)")
    have c: "cmd_step wl wl1" using step [of v "hw_key_idx k"] m by simp
    have "quiet_step wl (upd_vif v (\<lambda>vf. vf\<lparr>default_key := ucast (hw_key_idx k)\<rparr>) wl1)"
      by (rule quiet_step_trans [OF cmd_step_quiet [OF c] quiet_step_vif]) simp
    then show ?thesis
      using kv m sk [OF c] cmd_step_quiet [OF c]
      by (cases r) (simp_all add: tx_select_key_def upd_vif_def)
  next
    case False
    then show ?thesis
      by (auto simp: tx_select_key_def quiet_step_emit emit_def [symmetric] split: option.split)
        (simp_all add: quiet_step_emit emit_def)
  qed
  then show "quiet_step wl (snd (tx_select_key ops env wl wlvif key))"
    "skbs (snd (tx_select_key ops env wl wlvif key)) = skbs wl" by blast+
qed

end

text \<open>An allocation that is undone leaves nothing behind.\<close>

lemma free_alloc_quiet:
  assumes "ids_ok wl" and "wl1271_alloc_tx_id wl p = (Inr i, wl1)"
  shows "quiet_step wl (wl1271_free_tx_id wl1 i)"
proof -
  have wl1: "wl1 = wl\<lparr>tx_frames_map := insert i (tx_frames_map wl),
        tx_frames := (tx_frames wl)(i := Some p), tx_frames_cnt := tx_frames_cnt wl + 1\<rparr>"
    and i: "i < num_tx_desc wl" "i \<notin> tx_frames_map wl"
    using alloc_tx_id_Inr [OF assms(2)] by blast+
  have free: "tx_frames wl i = None" using assms(1) i by (auto simp: ids_ok_def)
  have "tx_frames (wl1271_free_tx_id wl1 i) = tx_frames wl"
    "tx_frames_map (wl1271_free_tx_id wl1 i) = tx_frames_map wl"
    "tx_frames_cnt (wl1271_free_tx_id wl1 i) = tx_frames_cnt wl"
    using i free by (auto simp: wl1)
  then show ?thesis
    by (intro quiet_stepI [where l = "[]"])
      (auto simp: wl1 wl1271_free_tx_id_def Let_def clear_flag_def)
qed

definition tx_frame_len :: "wl1271 \<Rightarrow> skb_ptr \<Rightarrow> nat" where
  "tx_frame_len wl p = skb_len (skbs wl p) + TX_DESC_LEN + tx_extra wl (ti_hw_key (skb_info (skbs wl p)))"

lemma tx_allocate_cases:
  assumes ids: "ids_ok wl" and res: "wl1271_tx_allocate ops wl wlvif p extra off h g = (r, wl')"
  obtains (full) "r = Inl EAGAIN" "wl' = wl" "aggr_buf_size wl < off + (skb_len (skbs wl p) + TX_DESC_LEN + extra)"
  | (busy) "r = Inl EBUSY" "quiet_step wl wl'" "skbs wl' = skbs wl"
  | (sent) i wl1 t s where "r = Inr ()" "wl1271_alloc_tx_id wl p = (Inr i, wl1)"
      "wl' = tx_allocated ops wl1 wlvif p extra h i t s"
      "off + (skb_len (skbs wl p) + TX_DESC_LEN + extra) \<le> aggr_buf_size wl"
      "s = op_get_spare_blocks ops wl g"
      "t = op_calc_tx_blocks ops wl1 (skb_len (skbs wl p) + TX_DESC_LEN + extra) s"
      "t \<le> unat (tx_blocks_available wl1)"
proof (cases "aggr_buf_size wl < off + (skb_len (skbs wl p) + TX_DESC_LEN + extra)")
  case True
  then show thesis using res full by (simp add: wl1271_tx_allocate_def Let_def)
next
  case fits: False
  show thesis
  proof (cases "wl1271_alloc_tx_id wl p")
    case (Pair x wl1)
    show thesis
    proof (cases x)
      case (Inl e)
      then have "e = EBUSY" "wl1 = wl"
        using Pair by (cases rule: alloc_tx_id_cases [of wl p]; simp)+
      then show thesis using res fits Pair Inl busy by (simp add: wl1271_tx_allocate_def Let_def)
    next
      case (Inr i)
      then have a: "wl1271_alloc_tx_id wl p = (Inr i, wl1)" using Pair by simp
      define s where "s = op_get_spare_blocks ops wl g"
      define t where "t = op_calc_tx_blocks ops wl1 (skb_len (skbs wl p) + TX_DESC_LEN + extra) s"
      have eq: "wl1271_tx_allocate ops wl wlvif p extra off h g = (if t \<le> unat (tx_blocks_available wl1)
          then (Inr (), tx_allocated ops wl1 wlvif p extra h i t s) else (Inl EBUSY, wl1271_free_tx_id wl1 i))"
        using fits a by (simp add: wl1271_tx_allocate_def Let_def s_def t_def)
      show thesis
      proof (cases "t \<le> unat (tx_blocks_available wl1)")
        case True
        then have "r = Inr ()" "wl' = tx_allocated ops wl1 wlvif p extra h i t s" using eq res by simp_all
        then show thesis using sent [of i wl1 t s] a fits True by (simp add: s_def t_def)
      next
        case False
        then have "r = Inl EBUSY" "wl' = wl1271_free_tx_id wl1 i" using eq res by simp_all
        moreover have "skbs (wl1271_free_tx_id wl1 i) = skbs wl"
          using alloc_tx_id_frame(6) [OF a] free_tx_id_frame(6) by simp
        ultimately show thesis using busy free_alloc_quiet [OF ids a] by simp
      qed
    qed
  qed
qed

text \<open>\<open>sent p wl wl'\<close>: packet \<open>p\<close>, taken from the queues before, went to the firmware.\<close>

definition sent :: "skb_ptr \<Rightarrow> wl1271 \<Rightarrow> wl1271 \<Rightarrow> bool" where
  "sent p wl wl' \<longleftrightarrow>
     tx_ok wl' \<and> accounted wl' = accounted wl + filter_mset (\<lambda>x. x \<noteq> dummy_packet wl) {#p#}
     \<and> queued wl' \<subseteq># queued wl \<and> owned wl' \<subseteq># owned wl + filter_mset (\<lambda>x. x \<noteq> dummy_packet wl) {#p#}
     \<and> in_flight wl' = add_mset p (in_flight wl) \<and> dummy_packet wl' = dummy_packet wl
     \<and> aggr_buf_size wl' = aggr_buf_size wl \<and> system_hlid wl' = system_hlid wl
     \<and> (wl_state wl' = WLCORE_STATE_OFF \<longleftrightarrow> wl_state wl = WLCORE_STATE_OFF)
     \<and> (WL1271_FLAG_DUMMY_PACKET_PENDING \<in> wl_flags wl' \<longleftrightarrow> WL1271_FLAG_DUMMY_PACKET_PENDING \<in> wl_flags wl)
     \<and> (stop_view_ok wl \<longrightarrow> stop_view_ok wl')
     \<and> (\<forall>x. x \<noteq> p \<longrightarrow> skb_body (skbs wl' x) = skb_body (skbs wl x))"

lemma alloc_sent:
  assumes "tx_ok wl" and "wl1271_alloc_tx_id wl p = (Inr i, wl1)"
  shows "sent p wl wl1"
proof -
  note fr = alloc_tx_id_frame [OF assms(2)]
  have ids: "ids_ok wl" using assms(1) by (simp add: tx_ok_def)
  note ac = alloc_tx_id_accounts [OF ids assms(2)]
  have "wl_flags wl1 = wl_flags wl" "aggr_buf_size wl1 = aggr_buf_size wl" "system_hlid wl1 = system_hlid wl"
    "wl_state wl1 = wl_state wl" using alloc_tx_id_Inr [OF assms(2)] by simp_all
  then show ?thesis
    using assms(1) fr ac(1,2) by (simp add: sent_def tx_ok_def accounted_def owned_def)
qed

lemma sent_drain:
  assumes "sent p wl wl1" and "drain_step (- {p}) wl1 wl2"
  shows "sent p wl wl2"
proof -
  have ok: "tx_ok wl1" using assms(1) by (simp add: sent_def)
  with assms(2) have d: "tx_ok wl2" "accounted wl2 = accounted wl1" "queued wl2 \<subseteq># queued wl1"
    "owned wl2 \<subseteq># owned wl1" "in_flight wl2 = in_flight wl1" "dummy_packet wl2 = dummy_packet wl1"
    "WL1271_FLAG_DUMMY_PACKET_PENDING \<in> wl_flags wl2 \<longleftrightarrow> WL1271_FLAG_DUMMY_PACKET_PENDING \<in> wl_flags wl1"
    "stop_view_ok wl1 \<longrightarrow> stop_view_ok wl2" "\<forall>x. x \<noteq> p \<longrightarrow> skb_body (skbs wl2 x) = skb_body (skbs wl1 x)"
    "aggr_buf_size wl2 = aggr_buf_size wl1" "system_hlid wl2 = system_hlid wl1"
    "wl_state wl2 = WLCORE_STATE_OFF \<longleftrightarrow> wl_state wl1 = WLCORE_STATE_OFF"
    by (simp_all add: drain_step_def)
  show ?thesis
    using assms(1) d(1,2,5-12) subset_mset.order_trans [OF d(3)] subset_mset.order_trans [OF d(4)]
    unfolding sent_def by simp
qed


context chip_bus
begin

lemma inconnection_step: "cmd_step wl (wl1271_tx_ap_update_inconnection_sta ops env wl p)"
  by (simp add: wl1271_tx_ap_update_inconnection_sta_def inconnection_sta_step)

text \<open>What happens after the descriptor number is taken moves no packet but those of a sleeping link.\<close>

lemma finish_frame_drain:
  assumes "tx_ok wl"
  shows "drain_step (- {p}) wl (snd (tx_finish_frame ops env wl wlvif p e off h))"
proof -
  define wl1 where "wl1 = wl1271_tx_fill_hdr ops env wl wlvif p e h"
  define wl2 where "wl2 = (case wlvif of Some v \<Rightarrow>
        if \<not> wl12xx_is_dummy_packet wl p \<and> vif_bss_type (vifs wl1 v) = BSS_TYPE_AP_BSS
        then wl1271_tx_regulate_link env (wl1271_tx_ap_update_inconnection_sta ops env wl1 p) v h
        else wl1 | None \<Rightarrow> wl1)"
  define wl3 where "wl3 = snd (tx_copy_aggr wl2 p off)"
  have 1: "drain_step (- {p}) wl wl1"
    unfolding wl1_def by (rule quiet_drain_step [OF quiet_step_fill_hdr]) (simp add: fill_hdr_skbs)
  have lk: "links_ok wl1"
    using quiet_step_accounts(5) [OF quiet_step_fill_hdr] assms by (simp add: wl1_def tx_ok_def)
  have 2: "drain_step (- {p}) wl1 wl2"
  proof -
    let ?c = "wl1271_tx_ap_update_inconnection_sta ops env wl1 p"
    have c: "cmd_step wl1 ?c" by (rule inconnection_step)
    have "links_ok ?c" using quiet_step_accounts(5) [OF cmd_step_quiet [OF c]] lk by simp
    then have "drain_step (- {p}) wl1 (wl1271_tx_regulate_link env ?c v h)" for v
      by (rule drain_step_trans [OF cmd_step_drain [OF c] drain_step_regulate])
    then show ?thesis by (simp add: wl2_def split: option.split)
  qed
  have 3: "drain_step (- {p}) wl2 wl3"
    unfolding wl3_def by (rule quiet_drain_step [OF quiet_step_copy_aggr]) (simp add: copy_aggr_skbs)
  have 4: "drain_step (- {p}) wl3 (upd_skb p (skb_pull TX_DESC_LEN) wl3)"
    by (rule quiet_drain_step [OF quiet_step_skb]) (simp_all add: upd_skb_def)
  have "snd (tx_finish_frame ops env wl wlvif p e off h)
      = (if wl12xx_is_dummy_packet wl p then upd_skb p (skb_pull TX_DESC_LEN) wl3 else wl3)"
    by (simp add: tx_finish_frame_def Let_def wl1_def [symmetric] wl2_def [symmetric] wl3_def split_beta)
  then show ?thesis
    using drain_step_trans [OF drain_step_trans [OF 1 2] 3] 4 by (auto intro: drain_step_trans)
qed

lemma sent_quiet_before: "quiet_step wl wl1 \<Longrightarrow> skbs wl1 = skbs wl \<Longrightarrow> sent p wl1 wl2 \<Longrightarrow> sent p wl wl2"
  using quiet_step_accounts [of wl wl1] unfolding sent_def by (simp add: quiet_step_def)

lemma prepare_cases:
  assumes ok: "tx_ok wl" and res: "wl1271_prepare_tx_frame ops env wl wlvif p off h = (r, wl')"
  obtains (failed) e where "r = Inl e" "quiet_step wl wl'" "skbs wl' = skbs wl"
  | (sent) n where "r = Inr n" "sent p wl wl'"
proof (cases "h = WL12XX_INVALID_LINK_ID")
  case True
  then show thesis using res failed [of EINVAL] by (simp add: wl1271_prepare_tx_frame_def)
next
  case False
  define key where "key = ti_hw_key (skb_info (skbs wl p))"
  obtain k wl1 where k: "tx_select_key ops env wl wlvif key = (k, wl1)" by (cases "tx_select_key ops env wl wlvif key")
  have q1: "quiet_step wl wl1" "skbs wl1 = skbs wl"
    using select_key_step [where wl = wl and env = env and wlvif = wlvif and key = key] k by simp_all
  have ok1: "tx_ok wl1" using quiet_step_accounts(10) [OF q1(1)] ok by simp
  then have ids1: "ids_ok wl1" by (simp add: tx_ok_def)
  show thesis
  proof (cases k)
    case (Inl e)
    then have "r = Inl e" "wl' = wl1"
      using res False k by (simp_all add: wl1271_prepare_tx_frame_def Let_def key_def)
    then show thesis using failed q1 by blast
  next
    case (Inr u)
    obtain a wl2 where a: "wl1271_tx_allocate ops wl1 wlvif p (tx_extra wl key) off h (tx_is_gem key) = (a, wl2)"
      by (cases "wl1271_tx_allocate ops wl1 wlvif p (tx_extra wl key) off h (tx_is_gem key)")
    show thesis
    proof (cases a)
      case (Inl e)
      then have rw: "r = Inl e" "wl' = wl2"
        using res False k Inr a by (simp_all add: wl1271_prepare_tx_frame_def Let_def key_def)
      from ids1 a have "quiet_step wl1 wl2 \<and> skbs wl2 = skbs wl1"
        by (cases rule: tx_allocate_cases) (use Inl in simp_all)
      then show thesis using failed [of e] rw q1 quiet_step_trans [OF q1(1)] by simp
    next
      case a': (Inr u')
      from ids1 a obtain i wl1' t s where al: "wl1271_alloc_tx_id wl1 p = (Inr i, wl1')"
        and wl2: "wl2 = tx_allocated ops wl1' wlvif p (tx_extra wl key) h i t s"
        by (cases rule: tx_allocate_cases) (use a' in simp_all)
      have s1: "sent p wl wl1'" by (rule sent_quiet_before [OF q1 alloc_sent [OF ok1 al]])
      have "drain_step (- {p}) wl1' wl2"
        unfolding wl2 by (rule quiet_drain_step [OF quiet_step_tx_allocated]) (simp add: tx_allocated_skbs)
      then have s2: "sent p wl wl2" by (rule sent_drain [OF s1])
      then have "tx_ok wl2" by (simp add: sent_def)
      from sent_drain [OF s2 finish_frame_drain [OF this]]
      have s3: "sent p wl (snd (tx_finish_frame ops env wl2 wlvif p (tx_extra wl key) off h))" .
      have "(r, wl') = (Inr (fst (tx_finish_frame ops env wl2 wlvif p (tx_extra wl key) off h)),
          snd (tx_finish_frame ops env wl2 wlvif p (tx_extra wl key) off h))"
        using res False k Inr a a'
        by (simp add: wl1271_prepare_tx_frame_def Let_def key_def [symmetric] split_beta)
      then show thesis using sent s3 by blast
    qed
  qed
qed

end

end
