(* ===== verification/WlTxWork.thy ===== *)
theory WlTxWork
  imports WlTx
begin

unbundle bit_operations_syntax

text \<open>
  The transmit work (wlcore/tx.c): frames are taken from the queues, collected in the aggregation
  buffer and written to the chip until the queues are empty, the firmware has no room, or something
  fails. The loop has no bound in the code; it is a partial function here, and its termination is a
  theorem.
\<close>

section \<open>The loop\<close>

definition wl1271_tx_is_data_present :: "sk_buff \<Rightarrow> bool" where
  "wl1271_tx_is_data_present skb = ieee80211_is_data_present (frame_control_at 0 skb)"

definition rearm_rx_streaming_vif :: "nat set \<Rightarrow> vif_ptr \<Rightarrow> wl1271 \<Rightarrow> wl1271" where
  "rearm_rx_streaming_vif active_hlids v wl =
     (if list_ex (\<lambda>h. h \<in> vif_links_map (vifs wl v)) (set_bits_upto active_hlids WL12XX_MAX_LINKS) then
        (let wl1 = (if WLVIF_FLAG_RX_STREAMING_STARTED \<notin> vif_flags (vifs wl v)
                    then emit (C_queue_work (RX_STREAMING_ENABLE_WORK v)) wl else wl)
         in emit (C_mod_timer v (cf_rx_streaming_duration (conf wl1))) wl1)
      else wl)"

definition wl12xx_rearm_rx_streaming :: "wl1271 \<Rightarrow> nat set \<Rightarrow> wl1271" where
  "wl12xx_rearm_rx_streaming wl active_hlids =
     (if cf_rx_streaming_interval (conf wl) = 0 then wl
      else if \<not> cf_rx_streaming_always (conf wl) \<and> WL1271_FLAG_SOFT_GEMINI \<notin> wl_flags wl then wl
      else fold (rearm_rx_streaming_vif active_hlids) (wlvifs_of_type BSS_TYPE_STA_BSS wl) wl)"

text \<open>The local variables of the loop.\<close>

record tx_locals =
  tl_buf_offset :: nat
  tl_last_len :: nat
  tl_sent_packets :: bool
  tl_n_aggr :: nat
  tl_active_hlids :: "nat set"

text \<open>\<open>goto out\<close> with a bus error, or \<open>goto out_ack\<close>; the end of the queues is the latter too.\<close>

datatype tx_exit = Tx_out errno | Tx_out_ack

definition upd_reason :: "nat \<Rightarrow> (wlcore_aggr_reason \<Rightarrow> wlcore_aggr_reason) \<Rightarrow> wl1271 \<Rightarrow> wl1271" where
  "upd_reason n f wl = wl\<lparr>aggr_pkts_reason := (aggr_pkts_reason wl)(n := f (aggr_pkts_reason wl n))\<rparr>"

definition tx_wlvif :: "wl1271 \<Rightarrow> skb_ptr \<Rightarrow> vif_ptr option" where
  "tx_wlvif wl p = (if wl12xx_is_dummy_packet wl p then None else ti_vif (skb_info (skbs wl p)))"

text \<open>Writing the collected frames.\<close>

definition tx_flush_aggr ::
  "wlcore_ops \<Rightarrow> wl_env \<Rightarrow> wl1271 \<Rightarrow> nat \<Rightarrow> nat \<Rightarrow> unit res \<times> wl1271" where
  "tx_flush_aggr ops env wl buf_offset last_len =
     (let (len, wl1) = wlcore_hw_pre_pkt_send ops wl buf_offset last_len
      in wlcore_write_data env wl1 REG_SLV_MEM_DATA (buf_read 0 len (aggr_buf wl1)) True)"

text \<open>What the loop does with a frame that could not be prepared.\<close>

definition tx_frame_failed ::
  "wlcore_ops \<Rightarrow> wl_env \<Rightarrow> tx_locals \<Rightarrow> wl1271 \<Rightarrow> skb_ptr \<Rightarrow> vif_ptr option \<Rightarrow> nat \<Rightarrow> errno \<Rightarrow>
   (tx_exit \<times> tx_locals \<times> wl1271) + (tx_locals \<times> wl1271)" where
  "tx_frame_failed ops env st wl p wlvif hlid e =
     (if e = EAGAIN then
        case tx_flush_aggr ops env (wl1271_skb_queue_head wl wlvif p hlid) (tl_buf_offset st) (tl_last_len st) of
          (Inl b, wl1) \<Rightarrow> Inl (Tx_out b, st, wl1)
        | (Inr _, wl1) \<Rightarrow>
            Inr (st\<lparr>tl_sent_packets := True, tl_buf_offset := 0\<rparr>,
                 upd_reason (tl_n_aggr st) (\<lambda>r. r\<lparr>ar_buffer_full := ar_buffer_full r + 1\<rparr>) wl1)
      else if e = EBUSY then
        Inl (Tx_out_ack, st,
             upd_reason (tl_n_aggr st) (\<lambda>r. r\<lparr>ar_fw_buffer_full := ar_fw_buffer_full r + 1\<rparr>)
               (set_flag WL1271_FLAG_FW_TX_BUSY (wl1271_skb_queue_head wl wlvif p hlid)))
      else
        Inl (Tx_out_ack, st,
             upd_reason (tl_n_aggr st) (\<lambda>r. r\<lparr>ar_other := ar_other r + 1\<rparr>)
               (if wl12xx_is_dummy_packet wl p then wl1271_skb_queue_head wl wlvif p hlid
                else emit (C_free_txskb p) wl)))"

definition tx_frame_sent :: "tx_locals \<Rightarrow> wl1271 \<Rightarrow> skb_ptr \<Rightarrow> bool \<Rightarrow> nat \<Rightarrow> tx_locals \<times> wl1271" where
  "tx_frame_sent st wl p has_data len =
     (st\<lparr>tl_last_len := len, tl_buf_offset := tl_buf_offset st + len,
         tl_n_aggr := (if tl_n_aggr st < aggr_pkts_reason_num wl - 1 then tl_n_aggr st + 1 else tl_n_aggr st),
         tl_active_hlids := (if has_data then insert (unat (d_hlid (skb_desc (skbs wl p)))) (tl_active_hlids st)
                             else tl_active_hlids st)\<rparr>,
      wl\<lparr>tx_packets_count := tx_packets_count wl + 1\<rparr>)"

text \<open>One iteration: \<open>Inl\<close> leaves the loop.\<close>

definition tx_iter ::
  "wlcore_ops \<Rightarrow> wl_env \<Rightarrow> tx_locals \<Rightarrow> wl1271 \<Rightarrow> (tx_exit \<times> tx_locals \<times> wl1271) + (tx_locals \<times> wl1271)" where
  "tx_iter ops env st wl =
     (case wl1271_skb_dequeue wl of
        (None, wl1) \<Rightarrow>
          Inl (Tx_out_ack, st,
               if tl_buf_offset st \<noteq> 0
               then upd_reason (tl_n_aggr st) (\<lambda>r. r\<lparr>ar_no_data := ar_no_data r + 1\<rparr>) wl1 else wl1)
      | (Some (p, h), wl1) \<Rightarrow>
          let wlvif = tx_wlvif wl1 p;
              hlid = (if wlvif = None then system_hlid wl1 else h);
              has_data = (wlvif \<noteq> None \<and> wl1271_tx_is_data_present (skbs wl1 p))
          in case wl1271_prepare_tx_frame ops env wl1 wlvif p (tl_buf_offset st) hlid of
               (Inl e, wl2) \<Rightarrow> tx_frame_failed ops env st wl2 p wlvif hlid e
             | (Inr len, wl2) \<Rightarrow> Inr (tx_frame_sent st wl2 p has_data len))"

partial_function (option) tx_loop ::
  "wlcore_ops \<Rightarrow> wl_env \<Rightarrow> tx_locals \<Rightarrow> wl1271 \<Rightarrow> (tx_exit \<times> tx_locals \<times> wl1271) option" where
  "tx_loop ops env st wl =
     (case tx_iter ops env st wl of
        Inl r \<Rightarrow> Some r
      | Inr next_st \<Rightarrow> tx_loop ops env (fst next_st) (snd next_st))"

section \<open>The work\<close>

abbreviation (input) WL12XX_HOST_WR_ACCESS :: nat where "WL12XX_HOST_WR_ACCESS \<equiv> 0x3009F8"

definition tx_out_ack ::
  "wlcore_ops \<Rightarrow> wl_env \<Rightarrow> tx_locals \<Rightarrow> wl1271 \<Rightarrow> unit res \<times> wl1271" where
  "tx_out_ack ops env st wl =
     and_then (if tl_buf_offset st \<noteq> 0
               then and_then (tx_flush_aggr ops env wl (tl_buf_offset st) (tl_last_len st)) (\<lambda>_ wl1. (Inr True, wl1))
               else (Inr (tl_sent_packets st), wl)) (\<lambda>sent wl1.
     and_then (if sent then
                 and_then (if WLCORE_QUIRK_END_OF_TRANSACTION \<in> wl_quirks wl1
                           then wlcore_write32 env wl1 WL12XX_HOST_WR_ACCESS (tx_packets_count wl1)
                           else (Inr (), wl1)) (\<lambda>_ wl2. (Inr (), wl1271_handle_tx_low_watermark wl2))
               else (Inr (), wl1)) (\<lambda>_ wl3.
       (Inr (), wl12xx_rearm_rx_streaming wl3 (tl_active_hlids st))))"

definition tx_locals_init :: tx_locals where
  "tx_locals_init = \<lparr>tl_buf_offset = 0, tl_last_len = 0, tl_sent_packets = False, tl_n_aggr = 0,
     tl_active_hlids = {}\<rparr>"

definition wlcore_tx_work_locked ::
  "wlcore_ops \<Rightarrow> wl_env \<Rightarrow> wl1271 \<Rightarrow> (unit res \<times> wl1271) option" where
  "wlcore_tx_work_locked ops env wl =
     (if wl_state wl \<noteq> WLCORE_STATE_ON then Some (Inr (), wl)
      else case tx_loop ops env tx_locals_init wl of
             None \<Rightarrow> None
           | Some (Tx_out e, st, wl1) \<Rightarrow> Some (Inl e, wl1)
           | Some (Tx_out_ack, st, wl1) \<Rightarrow> Some (tx_out_ack ops env st wl1))"

definition wl1271_tx_work :: "wlcore_ops \<Rightarrow> wl_env \<Rightarrow> wl1271 \<Rightarrow> wl1271 option" where
  "wl1271_tx_work ops env wl =
     (case wl1271_ps_elp_wakeup env wl of
        (Inl e, wl1) \<Rightarrow> Some wl1
      | (Inr _, wl1) \<Rightarrow>
          (case wlcore_tx_work_locked ops env wl1 of
             None \<Rightarrow> None
           | Some (Inl e, wl2) \<Rightarrow> Some (wl12xx_queue_recovery_work wl2)
           | Some (Inr _, wl2) \<Rightarrow> Some (wl1271_ps_elp_sleep wl2)))"

section \<open>The contract of a chip for transmission\<close>

text \<open>
  A failed bus access is remembered, so an access that failed with \<open>EAGAIN\<close> is not taken for a full
  aggregation buffer: the next write fails.
\<close>

definition again_final :: "'a res \<times> wl1271 \<Rightarrow> bool" where
  "again_final m \<longleftrightarrow> (fst m = Inl EAGAIN \<longrightarrow> WL1271_FLAG_IO_FAILED \<in> wl_flags (snd m))"

lemma again_final_Inr [simp]: "again_final (Inr x, wl)"
  by (simp add: again_final_def)

lemma again_final_Inl [simp]: "e \<noteq> EAGAIN \<Longrightarrow> again_final (Inl e, wl)"
  by (simp add: again_final_def)

lemma io_step_state: "io_step wl wl' \<Longrightarrow> wl_state wl' = wl_state wl"
  by (auto elim: io_stepE)

lemma again_final_seq:
  assumes "wl_state wl \<noteq> WLCORE_STATE_OFF" and "io_step wl (snd m)" and "again_final m"
    and "\<And>x wl'. wl_state wl' \<noteq> WLCORE_STATE_OFF \<Longrightarrow> again_final (f x wl')"
  shows "again_final (and_then m f)"
  using assms io_step_state [OF assms(2)] by (cases m, cases "fst m") (auto simp: again_final_def)

lemma again_final_raw_write: "wl_state wl \<noteq> WLCORE_STATE_OFF \<Longrightarrow> again_final (wlcore_raw_write env wl a b f)"
  by (simp add: wlcore_raw_write_def again_final_def Let_def emit_def set_flag_def split: option.split)

lemma again_final_raw_read: "wl_state wl \<noteq> WLCORE_STATE_OFF \<Longrightarrow> again_final (wlcore_raw_read env wl a n f)"
  by (simp add: wlcore_raw_read_def again_final_def Let_def emit_def set_flag_def split: sum.split)

lemma state_translate [simp]: "wl_state (snd (wlcore_translate_addr wl a)) = wl_state wl"
  by (simp add: wlcore_translate_addr_def emit_def split: option.split)

lemma state_translate': "wlcore_translate_addr wl a = (x, wl') \<Longrightarrow> wl_state wl' = wl_state wl"
  using state_translate [of wl a] by simp

lemma again_final_write: "wl_state wl \<noteq> WLCORE_STATE_OFF \<Longrightarrow> again_final (wlcore_write env wl a b f)"
  by (simp add: wlcore_write_def split_beta again_final_raw_write)

lemma again_final_read: "wl_state wl \<noteq> WLCORE_STATE_OFF \<Longrightarrow> again_final (wlcore_read env wl a n f)"
  by (simp add: wlcore_read_def split_beta again_final_raw_read)

lemma again_final_write_reg: "wl_state wl \<noteq> WLCORE_STATE_OFF \<Longrightarrow> again_final (wlcore_write_reg env wl r v)"
  by (simp add: wlcore_write_reg_def wlcore_write32_def wlcore_raw_write32_def split_beta again_final_raw_write)

lemma again_final_read_reg: "wl_state wl \<noteq> WLCORE_STATE_OFF \<Longrightarrow> again_final (wlcore_read_reg env wl r)"
  using again_final_raw_read [of "snd (wlcore_translate_addr wl (rtable wl r))" env
      "fst (wlcore_translate_addr wl (rtable wl r))" 4 False]
  by (cases "wlcore_translate_addr wl (rtable wl r)")
    (auto simp: wlcore_read_reg_def wlcore_read32_def wlcore_raw_read32_def again_final_def
      dest: state_translate' split: prod.splits sum.splits)

lemma again_final_cmd_poll:
  "wl_state wl \<noteq> WLCORE_STATE_OFF \<Longrightarrow> again_final (cmd_poll env intr n t wl)"
proof (induction env intr n t wl rule: cmd_poll.induct)
  case (1 env intr n t wl)
  let ?wl1 = "emit C_delay wl"
  have s1: "wl_state ?wl1 \<noteq> WLCORE_STATE_OFF" using 1 by (simp add: emit_def)
  obtain x wl2 where x: "wlcore_read_reg env ?wl1 REG_INTERRUPT_NO_CLEAR = (x, wl2)"
    by (cases "wlcore_read_reg env ?wl1 REG_INTERRUPT_NO_CLEAR")
  have s2: "wl_state wl2 \<noteq> WLCORE_STATE_OFF"
    using io_step_state [OF io_step_read_reg [of ?wl1 env REG_INTERRUPT_NO_CLEAR]] x s1 by simp
  show ?case
  proof (cases "intr AND WL1271_ACX_INTR_CMD_COMPLETE \<noteq> 0 \<or> WL1271_COMMAND_TIMEOUT < t")
    case True
    then show ?thesis by (subst cmd_poll.simps) auto
  next
    case False
    then show ?thesis
      using 1 x s2 again_final_read_reg [OF s1, of env REG_INTERRUPT_NO_CLEAR]
      by (subst cmd_poll.simps) (cases x, simp_all add: again_final_def Let_def)
  qed
qed

locale chip_tx = chip_bus +
  assumes trigger_again: "wl_state wl \<noteq> WLCORE_STATE_OFF \<Longrightarrow> again_final (op_trigger_cmd ops env wl a b)"
    and pre_send: "op_pre_pkt_send ops = Some f \<Longrightarrow>
      \<exists>b l. snd (f wl off len) = wl\<lparr>aggr_buf := b, log := log wl @ l\<rparr> \<and> list_all quiet_call l"
begin

lemma again_final_cmd_send_raw:
  assumes "wl_state wl \<noteq> WLCORE_STATE_OFF"
  shows "again_final (wlcore_cmd_send_raw ops env wl cid body n)"
proof (cases "wl_state wl = WLCORE_STATE_RESTARTING")
  case True
  then show ?thesis by (simp add: wlcore_cmd_send_raw_def)
next
  case False
  define buf where "buf = cmd_image cid body"
  define wl1 where "wl1 = (if length buf mod 4 \<noteq> 0 then emit C_warn wl else wl)"
  define wl2 where "wl2 = (if WL1271_FLAG_IN_ELP \<in> wl_flags wl1 then emit C_warn wl1 else wl1)"
  have s2: "wl_state wl2 \<noteq> WLCORE_STATE_OFF" using assms by (simp add: wl2_def wl1_def emit_def)
  show ?thesis
    using False unfolding wlcore_cmd_send_raw_def Let_def
    by (simp only: buf_def [symmetric] wl1_def [symmetric] wl2_def [symmetric] if_False)
      (rule again_final_seq [OF s2 io_step_write again_final_write [OF s2]],
        rule again_final_seq [OF _ trigger_io trigger_again], assumption+,
        rule again_final_seq [OF _ io_step_read_reg again_final_read_reg], assumption+,
        rule again_final_seq [OF _ io_step_cmd_poll again_final_cmd_poll], assumption+,
        rule again_final_seq [OF _ io_step_read again_final_read], assumption+,
        rule again_final_seq [OF _ io_step_write_reg again_final_write_reg], assumption+,
        rule again_final_Inr)
qed

end

lemma recovery_flags: "wl_flags wl \<subseteq> wl_flags (wl12xx_queue_recovery_work wl)"
  by (rule cmd_stepE [OF cmd_step_recovery [of wl]]) simp

lemma again_final_map:
  "again_final m \<Longrightarrow> (\<And>x w. again_final (f x w)) \<Longrightarrow> again_final (and_then m f)"
  by (cases m, cases "fst m") (auto simp: again_final_def)

context chip_tx
begin

lemma again_final_failsafe:
  assumes "wl_state wl \<noteq> WLCORE_STATE_OFF"
  shows "again_final (wlcore_cmd_send_failsafe ops env wl cid body n rs)"
proof (cases "wlcore_cmd_send_raw ops env wl cid body n")
  case (Pair r wl1)
  have "again_final (r, wl1)" using again_final_cmd_send_raw [OF assms, of env cid body n] Pair by simp
  then show ?thesis
    using Pair recovery_flags [of wl1]
    by (auto simp: wlcore_cmd_send_failsafe_def again_final_def split: sum.splits prod.splits)
qed

lemma again_final_wep_key:
  assumes "wl_state wl \<noteq> WLCORE_STATE_OFF"
  shows "again_final (wl12xx_cmd_set_default_wep_key ops env wl k h)"
proof -
  let ?m = "\<lambda>wl1. wlcore_cmd_send_failsafe ops env wl1 CMD_SET_KEYS
      ([of_nat h, 2, k, 0] @ le16 3 @ [0, 1] @ replicate 56 0) 0 {}"
  have m: "again_final (and_then (and_then (?m wl1) (\<lambda>sr w. (Inr (snd sr), w))) (\<lambda>_ wl2. (Inr (), wl2)))"
    if "wl_state wl1 \<noteq> WLCORE_STATE_OFF" for wl1
    by (intro again_final_map again_final_failsafe [OF that]) simp_all
  have "wl_state (snd (kzalloc env 68 wl)) = wl_state wl" by (simp add: kzalloc_def Let_def emit_def)
  with m [of "snd (kzalloc env 68 wl)"] assms show ?thesis
    unfolding wl12xx_cmd_set_default_wep_key_def wl1271_cmd_send_def
    by (cases "kzalloc env 68 wl", cases "fst (kzalloc env 68 wl)")
      (auto simp: kzalloc_def Let_def split: if_splits)
qed

lemma again_final_select_key:
  assumes "wl_state wl \<noteq> WLCORE_STATE_OFF"
  shows "again_final (tx_select_key ops env wl wlvif key)"
proof -
  have s: "wl_state (emit C_warn wl) \<noteq> WLCORE_STATE_OFF" using assms by (simp add: emit_def)
  have "again_final (wl1271_set_default_wep_key ops env (emit C_warn wl) v k)" for v k
    unfolding wl1271_set_default_wep_key_def using again_final_wep_key [OF s] by simp
  then have "again_final (and_then (wl1271_set_default_wep_key ops env (emit C_warn wl) v k)
      (\<lambda>_ wl1. (Inr (), upd_vif v f wl1)))" for v k f
    by (rule again_final_map) simp
  then show ?thesis by (simp add: tx_select_key_def split: option.split)
qed

text \<open>\<open>EAGAIN\<close> means that the frame does not fit, or that the bus has failed.\<close>

lemma prepare_again:
  assumes ok: "tx_ok wl" and on: "wl_state wl \<noteq> WLCORE_STATE_OFF"
    and res: "wl1271_prepare_tx_frame ops env wl wlvif p off h = (Inl EAGAIN, wl')"
  shows "aggr_buf_size wl < off + tx_frame_len wl p \<or> WL1271_FLAG_IO_FAILED \<in> wl_flags wl'"
proof -
  define key where "key = ti_hw_key (skb_info (skbs wl p))"
  have h: "h \<noteq> WL12XX_INVALID_LINK_ID" using res by (auto simp: wl1271_prepare_tx_frame_def)
  obtain k wl1 where k: "tx_select_key ops env wl wlvif key = (k, wl1)" by (cases "tx_select_key ops env wl wlvif key")
  have q1: "quiet_step wl wl1" "skbs wl1 = skbs wl"
    using select_key_step [where wl = wl and env = env and wlvif = wlvif and key = key] k by simp_all
  have ids1: "ids_ok wl1" using quiet_step_accounts(6) [OF q1(1)] ok by (simp add: tx_ok_def)
  show ?thesis
  proof (cases k)
    case (Inl e)
    then have "e = EAGAIN" "wl' = wl1"
      using res h k by (simp_all add: wl1271_prepare_tx_frame_def Let_def key_def)
    then show ?thesis
      using again_final_select_key [OF on, of env wlvif key] k Inl by (simp add: again_final_def)
  next
    case (Inr u)
    obtain a wl2 where a: "wl1271_tx_allocate ops wl1 wlvif p (tx_extra wl key) off h (tx_is_gem key) = (a, wl2)"
      by (cases "wl1271_tx_allocate ops wl1 wlvif p (tx_extra wl key) off h (tx_is_gem key)")
    have "a = Inl EAGAIN"
      using res h k Inr a
      by (cases a) (simp_all add: wl1271_prepare_tx_frame_def Let_def key_def split_beta)
    with ids1 a have "aggr_buf_size wl1 < off + (skb_len (skbs wl1 p) + TX_DESC_LEN + tx_extra wl key)"
      by (cases rule: tx_allocate_cases) simp_all
    then show ?thesis using q1 by (simp add: tx_frame_len_def key_def quiet_step_def)
  qed
qed

lemma pre_pkt_send_quiet:
  "quiet_step wl (snd (wlcore_hw_pre_pkt_send ops wl off len))"
  "skbs (snd (wlcore_hw_pre_pkt_send ops wl off len)) = skbs wl"
  "wl_flags (snd (wlcore_hw_pre_pkt_send ops wl off len)) = wl_flags wl"
proof -
  have "\<exists>b l. snd (wlcore_hw_pre_pkt_send ops wl off len) = wl\<lparr>aggr_buf := b, log := log wl @ l\<rparr>
      \<and> list_all quiet_call l"
  proof (cases "op_pre_pkt_send ops")
    case None
    then show ?thesis
      by (intro exI [of _ "aggr_buf wl"] exI [of _ "[]"]) (simp add: wlcore_hw_pre_pkt_send_def)
  next
    case (Some f)
    then show ?thesis using pre_send [OF Some] by (simp add: wlcore_hw_pre_pkt_send_def)
  qed
  then obtain b l where w: "snd (wlcore_hw_pre_pkt_send ops wl off len) = wl\<lparr>aggr_buf := b, log := log wl @ l\<rparr>"
    and l: "list_all quiet_call l" by blast
  show "quiet_step wl (snd (wlcore_hw_pre_pkt_send ops wl off len))"
    unfolding w by (rule quiet_stepI [where l = l]) (use l in simp_all)
  show "skbs (snd (wlcore_hw_pre_pkt_send ops wl off len)) = skbs wl"
    "wl_flags (snd (wlcore_hw_pre_pkt_send ops wl off len)) = wl_flags wl" unfolding w by simp_all
qed

lemma flush_aggr_quiet:
  "quiet_step wl (snd (tx_flush_aggr ops env wl off len))" "skbs (snd (tx_flush_aggr ops env wl off len)) = skbs wl"
proof -
  let ?w = "snd (wlcore_hw_pre_pkt_send ops wl off len)"
  have io: "io_step ?w (snd (tx_flush_aggr ops env wl off len))"
    by (simp add: tx_flush_aggr_def split_beta io_step_write_data)
  show "quiet_step wl (snd (tx_flush_aggr ops env wl off len))"
    by (rule quiet_step_trans [OF pre_pkt_send_quiet(1) cmd_step_quiet [OF io_step_cmd_step [OF io]]])
  show "skbs (snd (tx_flush_aggr ops env wl off len)) = skbs wl"
    using io pre_pkt_send_quiet(2) [of wl off len] by (auto elim: io_stepE)
qed

lemma flush_aggr_failed:
  "WL1271_FLAG_IO_FAILED \<in> wl_flags wl \<Longrightarrow> \<exists>wl'. tx_flush_aggr ops env wl off len = (Inl EIO, wl')"
  using pre_pkt_send_quiet(3) [of wl off len]
  by (simp add: tx_flush_aggr_def split_beta wlcore_write_data_def wlcore_write_def
      wlcore_translate_addr_def wlcore_raw_write_def emit_def split: option.split)

end

section \<open>One iteration\<close>

definition backlog :: "wl1271 \<Rightarrow> nat" where
  "backlog wl = size (queued wl) + (if WL1271_FLAG_DUMMY_PACKET_PENDING \<in> wl_flags wl then 1 else 0)"

lemma rr_eq_tx:
  assumes "rr_eq a b"
  shows "tx_ok a = tx_ok b" and "owned a = owned b" and "accounted a = accounted b"
    and "in_flight a = in_flight b" and "stop_view_ok a = stop_view_ok b"
    and "aggr_buf_size a = aggr_buf_size b" and "wl_state a = wl_state b" and "backlog a = backlog b"
proof -
  note q = rr_eq_queue [OF assms] rr_eq_links_ok [OF assms]
  obtain l f where a: "a = b\<lparr>last_wlvif := l, vifs := f\<rparr>" using assms rr_eq_ex by blast
  show fl: "in_flight a = in_flight b" by (simp add: a in_flight_def)
  show o: "owned a = owned b" using fl q(2,6) by (simp add: owned_def) (simp add: a)
  show "tx_ok a = tx_ok b" using q by (simp add: tx_ok_def) (simp add: a ids_ok_def)
  show "accounted a = accounted b" using o returned_log [OF q(9)] by (simp add: accounted_def)
  show "stop_view_ok a = stop_view_ok b" "aggr_buf_size a = aggr_buf_size b" "wl_state a = wl_state b"
    by (simp_all add: a stop_view_ok_def wlcore_is_queue_stopped_def)
  show "backlog a = backlog b" using q by (simp add: backlog_def)
qed

text \<open>Packet \<open>p\<close> was taken from the queues, or was the pending dummy packet.\<close>

definition dequeued :: "wl1271 \<Rightarrow> skb_ptr \<Rightarrow> wl1271 \<Rightarrow> bool" where
  "dequeued wl p wl1 \<longleftrightarrow>
     tx_ok wl1 \<and> owned wl = owned wl1 + filter_mset (\<lambda>x. x \<noteq> dummy_packet wl) {#p#}
     \<and> accounted wl = accounted wl1 + filter_mset (\<lambda>x. x \<noteq> dummy_packet wl) {#p#}
     \<and> backlog wl = Suc (backlog wl1) \<and> queued wl1 \<subseteq># queued wl
     \<and> (if p = dummy_packet wl
        then WL1271_FLAG_DUMMY_PACKET_PENDING \<in> wl_flags wl \<and> WL1271_FLAG_DUMMY_PACKET_PENDING \<notin> wl_flags wl1
        else p \<in># queued wl \<and> wl_flags wl1 = wl_flags wl)
     \<and> skbs wl1 = skbs wl \<and> dummy_packet wl1 = dummy_packet wl \<and> aggr_buf_size wl1 = aggr_buf_size wl
     \<and> wl_state wl1 = wl_state wl \<and> system_hlid wl1 = system_hlid wl \<and> stop_view_ok wl1 = stop_view_ok wl"

lemma dequeued_rr:
  assumes "dequeued wl p wl1" and "rr_eq wl2 wl1"
  shows "dequeued wl p wl2"
proof -
  note q = rr_eq_queue [OF assms(2)]
  note t = rr_eq_tx [OF assms(2)]
  show ?thesis using assms(1) unfolding dequeued_def by (simp add: q t)
qed

lemma take_head_tx:
  "in_flight (take_head h ac wl) = in_flight wl" "deferred_tx_queue (take_head h ac wl) = deferred_tx_queue wl"
  "returned (take_head h ac wl) = returned wl" "links_ok (take_head h ac wl) = links_ok wl"
  "ids_ok (take_head h ac wl) = ids_ok wl" "stop_view_ok (take_head h ac wl) = stop_view_ok wl"
  "aggr_buf_size (take_head h ac wl) = aggr_buf_size wl" "wl_state (take_head h ac wl) = wl_state wl"
  by (simp_all add: take_head_def upd_link_def in_flight_def returned_def links_ok_def ids_ok_def
      stop_view_ok_def wlcore_is_queue_stopped_def)

lemma dequeued_take_head:
  assumes ok: "tx_ok wl" and h: "h < WL12XX_MAX_LINKS" "ac < NUM_TX_QUEUES" "tx_queue (links wl h) ac = p # ps"
  shows "dequeued wl p (take_head h ac wl)"
proof -
  have q: "queue_ok wl" using ok by (simp add: tx_ok_def)
  note t = queue_ok_take_head [OF q h]
  have p: "p \<in># queued wl" "p \<noteq> dummy_packet wl" using t(2) ok by (auto simp: tx_ok_def)
  have o: "owned wl = add_mset p (owned (take_head h ac wl))"
    using t(2) p(2) by (simp add: owned_def take_head_tx)
  show ?thesis
    using ok t p o unfolding dequeued_def
    by (simp add: tx_ok_def take_head_tx accounted_def backlog_def)
qed

lemma queue_count_dec_tx:
  "in_flight (queue_count_dec q wl) = in_flight wl" "deferred_tx_queue (queue_count_dec q wl) = deferred_tx_queue wl"
  "returned (queue_count_dec q wl) = returned wl" "links_ok (queue_count_dec q wl) = links_ok wl"
  "ids_ok (queue_count_dec q wl) = ids_ok wl" "stop_view_ok (queue_count_dec q wl) = stop_view_ok wl"
  "aggr_buf_size (queue_count_dec q wl) = aggr_buf_size wl" "wl_state (queue_count_dec q wl) = wl_state wl"
  "system_hlid (queue_count_dec q wl) = system_hlid wl"
proof -
  have "stop_view_ok (emit C_warn wl) = stop_view_ok wl" by (rule quiet_step_accounts(4) [OF quiet_step_emit]) simp
  moreover have "stop_view_ok (w\<lparr>tx_queue_count := c\<rparr>) = stop_view_ok w" for w c
    by (rule stop_view_ok_cong) simp_all
  ultimately show "stop_view_ok (queue_count_dec q wl) = stop_view_ok wl"
    by (simp add: queue_count_dec_def Let_def)
qed (simp_all add: queue_count_dec_def Let_def emit_def in_flight_def returned_def links_ok_def ids_ok_def)

lemma dequeued_dummy:
  assumes ok: "tx_ok wl" and t: "took_dummy wl wl1"
  shows "dequeued wl (dummy_packet wl) wl1"
proof -
  let ?w = "queue_count_dec (skb_ac wl (dummy_packet wl)) (clear_flag WL1271_FLAG_DUMMY_PACKET_PENDING wl)"
  have q: "queue_ok wl" using ok by (simp add: tx_ok_def)
  have rr: "rr_eq wl1 ?w" and pend: "WL1271_FLAG_DUMMY_PACKET_PENDING \<in> wl_flags wl"
    using t by (simp_all add: took_dummy_def)
  have tw: "took_dummy wl ?w" using pend by (simp add: took_dummy_def)
  note d = took_dummy_queue [OF tw q]
  have c: "in_flight (clear_flag f wl) = in_flight wl" "deferred_tx_queue (clear_flag f wl) = deferred_tx_queue wl"
    "returned (clear_flag f wl) = returned wl" "links_ok (clear_flag f wl) = links_ok wl"
    "ids_ok (clear_flag f wl) = ids_ok wl" "stop_view_ok (clear_flag f wl) = stop_view_ok wl"
    "aggr_buf_size (clear_flag f wl) = aggr_buf_size wl" "wl_state (clear_flag f wl) = wl_state wl"
    "system_hlid (clear_flag f wl) = system_hlid wl" for f
    by (simp_all add: clear_flag_def in_flight_def returned_def links_ok_def ids_ok_def stop_view_ok_def
        wlcore_is_queue_stopped_def)
  have o: "owned ?w = owned wl" using d(2,5) by (simp add: owned_def queue_count_dec_tx c)
  have "dequeued wl (dummy_packet wl) ?w"
    using ok d o pend unfolding dequeued_def
    by (simp add: tx_ok_def queue_count_dec_tx c accounted_def backlog_def)
  then show ?thesis using rr by (rule dequeued_rr)
qed

lemma skb_dequeue_tx:
  assumes ok: "tx_ok wl"
  obtains (empty) wl1 where "wl1271_skb_dequeue wl = (None, wl1)" "rr_eq wl1 wl"
  | (packet) p h wl1 where "wl1271_skb_dequeue wl = (Some (p, h), wl1)" "dequeued wl p wl1" "h < WL12XX_MAX_LINKS"
proof -
  have q: "queue_ok wl" "links_ok wl" using ok by (simp_all add: tx_ok_def)
  obtain r wl1 where r: "wl1271_skb_dequeue wl = (r, wl1)" "deq_result wl r wl1"
    using skb_dequeue_spec [OF q] by blast
  show thesis
  proof (cases r)
    case None
    then show thesis using r empty by (simp add: deq_result_def)
  next
    case (Some x)
    then obtain p h where x: "r = Some (p, h)" by (cases x) simp
    then consider "took wl (p, h) wl1" | "p = dummy_packet wl" "h = system_hlid wl" "took_dummy wl wl1"
      using r(2) by (auto simp: deq_result_def)
    then show thesis
    proof cases
      case 1
      then obtain ac ps where t: "h < WL12XX_MAX_LINKS" "ac < NUM_TX_QUEUES" "tx_queue (links wl h) ac = p # ps"
        "rr_eq wl1 (take_head h ac wl)" by (auto simp: took_def)
      show thesis
        using packet r(1) x dequeued_rr [OF dequeued_take_head [OF ok t(1-3)] t(4)] t(1) by blast
    next
      case 2
      have "system_hlid wl < WL12XX_MAX_LINKS" using q(2) by (simp add: links_ok_def)
      with 2 show thesis using packet r(1) x dequeued_dummy [OF ok 2(3)] by blast
    qed
  qed
qed

lemma queue_head_frame:
  assumes "wl' = wl1271_skb_queue_head wl v p h"
  shows "in_flight wl' = in_flight wl" "deferred_tx_queue wl' = deferred_tx_queue wl"
    "returned wl' = returned wl" "links_ok wl' = links_ok wl" "ids_ok wl' = ids_ok wl"
    "stop_view_ok wl' = stop_view_ok wl" "aggr_buf_size wl' = aggr_buf_size wl" "wl_state wl' = wl_state wl"
    "skbs wl' = skbs wl" "dummy_packet wl' = dummy_packet wl" "system_hlid wl' = system_hlid wl"
    "f \<noteq> WL1271_FLAG_DUMMY_PACKET_PENDING \<Longrightarrow> f \<in> wl_flags wl' \<longleftrightarrow> f \<in> wl_flags wl"
    "WL1271_FLAG_DUMMY_PACKET_PENDING \<in> wl_flags wl'
       \<longleftrightarrow> p = dummy_packet wl \<or> WL1271_FLAG_DUMMY_PACKET_PENDING \<in> wl_flags wl"
proof -
  have "mac_stopped (log wl') m = mac_stopped (log wl) m" for m
    by (simp add: assms wl1271_skb_queue_head_def Let_def emit_def set_flag_def upd_vif_def split: option.split)
  then show "stop_view_ok wl' = stop_view_ok wl"
    by (simp add: stop_view_ok_def wlcore_is_queue_stopped_def)
      (simp add: assms wl1271_skb_queue_head_def Let_def emit_def set_flag_def upd_vif_def upd_link_def
        split: option.split)
qed (auto simp: assms wl1271_skb_queue_head_def Let_def emit_def set_flag_def upd_vif_def upd_link_def
    wl12xx_is_dummy_packet_def in_flight_def returned_def links_ok_def ids_ok_def split: option.split)

text \<open>A packet that was taken goes back to the head of its queue.\<close>

lemma queue_head_tx:
  assumes ok: "tx_ok wl" and h: "h < WL12XX_MAX_LINKS"
    and d: "p = dummy_packet wl \<longrightarrow> WL1271_FLAG_DUMMY_PACKET_PENDING \<notin> wl_flags wl"
    and wl': "wl' = wl1271_skb_queue_head wl v p h"
  shows "tx_ok wl'" "owned wl' = owned wl + filter_mset (\<lambda>x. x \<noteq> dummy_packet wl) {#p#}"
    "accounted wl' = accounted wl + filter_mset (\<lambda>x. x \<noteq> dummy_packet wl) {#p#}"
    "backlog wl' = Suc (backlog wl)"
    "queued wl' = queued wl + filter_mset (\<lambda>x. x \<noteq> dummy_packet wl) {#p#}"
proof -
  have q: "queue_ok wl" using ok by (simp add: tx_ok_def)
  note f = queue_head_frame [OF wl']
  have qh: "queue_ok wl'" "queued wl' = queued wl + filter_mset (\<lambda>x. x \<noteq> dummy_packet wl) {#p#}"
    using queue_head_queue [OF q h, of p v] queue_head_dummy_queue [OF q, of p v h] d
    by (cases "p = dummy_packet wl"; simp add: wl')+
  show "queued wl' = queued wl + filter_mset (\<lambda>x. x \<noteq> dummy_packet wl) {#p#}" by (rule qh(2))
  have n: "dummy_packet wl' \<notin># queued wl'" using ok qh(2) f(10) by (auto simp: tx_ok_def)
  show "tx_ok wl'" using ok qh(1) n f(4,5) by (simp add: tx_ok_def)
  show o: "owned wl' = owned wl + filter_mset (\<lambda>x. x \<noteq> dummy_packet wl) {#p#}"
    using qh(2) f(1,2,10) by (simp add: owned_def)
  show "accounted wl' = accounted wl + filter_mset (\<lambda>x. x \<noteq> dummy_packet wl) {#p#}"
    using o f(3) by (simp add: accounted_def)
  show "backlog wl' = Suc (backlog wl)" using qh(2) f(13) d by (auto simp: backlog_def)
qed

lemma quiet_step_reason: "quiet_step wl (upd_reason n f wl)" "skbs (upd_reason n f wl) = skbs wl"
  by (rule quiet_stepI [where l = "[]"]; simp add: upd_reason_def) (simp add: upd_reason_def)

lemma quiet_step_packets_count: "quiet_step wl (wl\<lparr>tx_packets_count := c\<rparr>)"
  by (rule quiet_stepI [where l = "[]"]) simp_all

lemma quiet_step_backlog: "quiet_step wl wl' \<Longrightarrow> backlog wl' = backlog wl"
  using quiet_step_accounts(2) [of wl wl'] by (simp add: backlog_def quiet_step_def)

text \<open>
  What an iteration keeps: the invariant, every packet accounted for, and no packet gained by the
  driver.
\<close>

definition tx_progress :: "wl1271 \<Rightarrow> wl1271 \<Rightarrow> bool" where
  "tx_progress wl wl' \<longleftrightarrow>
     tx_ok wl' \<and> accounted wl' = accounted wl \<and> owned wl' \<subseteq># owned wl \<and> backlog wl' \<le> backlog wl
     \<and> dummy_packet wl' = dummy_packet wl \<and> aggr_buf_size wl' = aggr_buf_size wl
     \<and> (wl_state wl' = WLCORE_STATE_OFF \<longleftrightarrow> wl_state wl = WLCORE_STATE_OFF)
     \<and> (stop_view_ok wl \<longrightarrow> stop_view_ok wl')"

lemma tx_progress_refl: "tx_ok wl \<Longrightarrow> tx_progress wl wl"
  by (simp add: tx_progress_def)

lemma tx_progress_trans [trans]: "tx_progress a b \<Longrightarrow> tx_progress b c \<Longrightarrow> tx_progress a c"
proof -
  assume a: "tx_progress a b" and b: "tx_progress b c"
  from a b have "owned c \<subseteq># owned a" unfolding tx_progress_def by (meson subset_mset.order_trans)
  with a b show ?thesis unfolding tx_progress_def by simp
qed

lemma quiet_tx_progress: "quiet_step wl wl' \<Longrightarrow> tx_ok wl \<Longrightarrow> tx_progress wl wl'"
  using quiet_step_accounts [of wl wl'] quiet_step_backlog [of wl wl']
  by (simp add: tx_progress_def quiet_step_def)

lemma rr_tx_progress: "rr_eq wl' wl \<Longrightarrow> tx_ok wl \<Longrightarrow> tx_progress wl wl'"
  using rr_eq_tx [of wl' wl] rr_eq_queue(6) [of wl' wl] by (simp add: tx_progress_def)

lemma sent_progress:
  assumes d: "dequeued wl p wl1" and s: "sent p wl1 wl2"
  shows "tx_progress wl wl2" and "backlog wl2 < backlog wl"
proof -
  have "queued wl2 \<subseteq># queued wl1"
    and fl: "WL1271_FLAG_DUMMY_PACKET_PENDING \<in> wl_flags wl2 \<longleftrightarrow> WL1271_FLAG_DUMMY_PACKET_PENDING \<in> wl_flags wl1"
    using s by (simp_all add: sent_def)
  then have "size (queued wl2) \<le> size (queued wl1)" by (simp add: size_mset_mono)
  then have "backlog wl2 \<le> backlog wl1" using fl by (simp add: backlog_def)
  then show "backlog wl2 < backlog wl" using d by (simp add: dequeued_def)
  then show "tx_progress wl wl2" using d s by (simp add: tx_progress_def dequeued_def sent_def)
qed

lemma requeue_progress:
  assumes d: "dequeued wl p wl1" and q: "quiet_step wl1 wl2" and h: "h < WL12XX_MAX_LINKS"
  shows "tx_progress wl (wl1271_skb_queue_head wl2 v p h)"
proof -
  define w where "w = wl1271_skb_queue_head wl2 v p h"
  note qa = quiet_step_accounts [OF q]
  have ok: "tx_ok wl2" using d qa(10) by (simp add: dequeued_def)
  have dm: "dummy_packet wl2 = dummy_packet wl1" "dummy_packet wl1 = dummy_packet wl"
    using q d by (simp_all add: quiet_step_def dequeued_def)
  have pend: "p = dummy_packet wl2 \<longrightarrow> WL1271_FLAG_DUMMY_PACKET_PENDING \<notin> wl_flags wl2"
    using d q by (auto simp: dequeued_def quiet_step_def)
  note t = queue_head_tx [OF ok h pend w_def]
  note f = queue_head_frame [OF w_def]
  show ?thesis
    using d q qa(8,9,4) quiet_step_backlog [OF q] t(1-4) f(6-8,10) dm
    unfolding w_def [symmetric] tx_progress_def by (simp add: dequeued_def quiet_step_def)
qed

lemma free_progress:
  assumes d: "dequeued wl p wl1" and q: "quiet_step wl1 wl2" and p: "p \<noteq> dummy_packet wl2"
  shows "tx_progress wl (emit (C_free_txskb p) wl2)"
proof -
  note qa = quiet_step_accounts [OF q]
  let ?w = "emit (C_free_txskb p) wl2"
  have e: "queued ?w = queued wl2" "queue_ok ?w = queue_ok wl2" "in_flight ?w = in_flight wl2" "links_ok ?w = links_ok wl2"
    "ids_ok ?w = ids_ok wl2" by simp_all (simp_all add: emit_def in_flight_def links_ok_def ids_ok_def)
  have o: "owned ?w = owned wl2" using e by (simp add: owned_def) (simp add: emit_def)
  have a: "accounted ?w = add_mset p (accounted wl2)" using o by (simp add: accounted_def)
  have "tx_ok ?w = tx_ok wl2" using e by (simp add: tx_ok_def) (simp add: emit_def)
  moreover have "stop_view_ok ?w = stop_view_ok wl2"
    using stop_view_ok_emit [of wl2 "C_free_txskb p"]
    by (simp add: stop_view_ok_def emit_def wlcore_is_queue_stopped_def)
  moreover have "backlog ?w = backlog wl2" using e by (simp add: backlog_def) (simp add: emit_def)
  moreover have "dummy_packet ?w = dummy_packet wl2" "aggr_buf_size ?w = aggr_buf_size wl2" "wl_state ?w = wl_state wl2"
    by (simp_all add: emit_def)
  ultimately show ?thesis
    using d q p o a qa(4,8,9,10) quiet_step_backlog [OF q]
    unfolding tx_progress_def by (simp add: dequeued_def quiet_step_def)
qed

section \<open>The loop keeps every packet and ends\<close>

definition iter_state :: "(tx_exit \<times> tx_locals \<times> wl1271) + (tx_locals \<times> wl1271) \<Rightarrow> wl1271" where
  "iter_state r = (case r of Inl (x, st, wl) \<Rightarrow> wl | Inr (st, wl) \<Rightarrow> wl)"

text \<open>Every frame, with its descriptor and security header, fits the aggregation buffer.\<close>

definition fits :: "wl1271 \<Rightarrow> skb_ptr \<Rightarrow> bool" where
  "fits wl p \<longleftrightarrow> skb_len (skbs wl p) + TX_DESC_LEN + WL1271_EXTRA_SPACE_TKIP \<le> aggr_buf_size wl"

definition frames_fit :: "wl1271 \<Rightarrow> bool" where
  "frames_fit wl \<longleftrightarrow> (\<forall>p\<in>#queued wl. fits wl p)
     \<and> (WL1271_FLAG_DUMMY_PACKET_PENDING \<in> wl_flags wl \<longrightarrow> fits wl (dummy_packet wl))
     \<and> (\<forall>p. count (owned wl) p \<le> 1)"

definition tx_measure :: "tx_locals \<Rightarrow> wl1271 \<Rightarrow> nat" where
  "tx_measure st wl = 2 * backlog wl + (if tl_buf_offset st = 0 then 0 else 1)"

lemma tx_extra_le: "tx_extra wl k \<le> WL1271_EXTRA_SPACE_TKIP"
  by (simp add: tx_extra_def split: option.split)

lemma dequeued_fits: "dequeued wl p wl1 \<Longrightarrow> frames_fit wl \<Longrightarrow> fits wl p"
  by (auto simp: dequeued_def frames_fit_def split: if_splits)

lemma fits_body: "skb_body (skbs wl' p) = skb_body (skbs wl p) \<Longrightarrow> aggr_buf_size wl' = aggr_buf_size wl \<Longrightarrow>
   fits wl' p = fits wl p"
proof -
  assume b: "skb_body (skbs wl' p) = skb_body (skbs wl p)" and a: "aggr_buf_size wl' = aggr_buf_size wl"
  have "skb_len (skb_body s) = skb_len s" for s by (simp add: skb_body_def)
  then have "skb_len (skbs wl' p) = skb_len (skbs wl p)" using b by metis
  then show ?thesis by (simp add: fits_def a)
qed

lemma dequeued_distinct:
  assumes d: "dequeued wl p wl1" and f: "frames_fit wl" and x: "x \<in># queued wl1"
  shows "x \<noteq> p" and "x \<in># queued wl"
proof -
  show "x \<in># queued wl" using d x by (auto simp: dequeued_def dest: mset_subset_eqD)
  have n: "x \<noteq> dummy_packet wl" using d x by (auto simp: dequeued_def tx_ok_def)
  then have "x \<in># owned wl1" using d x by (auto simp: owned_def dequeued_def)
  then have "1 \<le> count (owned wl1) x" by simp
  show "x \<noteq> p"
  proof
    assume "x = p"
    with n d have "owned wl = add_mset x (owned wl1)" by (simp add: dequeued_def)
    then have "count (owned wl) x = Suc (count (owned wl1) x)" by simp
    moreover have "count (owned wl) x \<le> 1" using f by (simp add: frames_fit_def)
    ultimately show False using \<open>1 \<le> count (owned wl1) x\<close> by simp
  qed
qed

lemma sent_frames_fit:
  assumes d: "dequeued wl p wl1" and f: "frames_fit wl" and s: "sent p wl1 wl2"
  shows "frames_fit wl2"
proof -
  have sz: "aggr_buf_size wl2 = aggr_buf_size wl" using d s by (simp add: dequeued_def sent_def)
  have b: "x \<noteq> p \<Longrightarrow> fits wl2 x = fits wl x" for x
    using d s sz fits_body [of wl2 x wl] by (simp add: dequeued_def sent_def)
  have q: "fits wl2 x" if "x \<in># queued wl2" for x
  proof -
    have "x \<in># queued wl1" using that s by (auto simp: sent_def dest: mset_subset_eqD)
    from dequeued_distinct [OF d f this] show ?thesis using b f by (simp add: frames_fit_def)
  qed
  have dm: "fits wl2 (dummy_packet wl2)" if "WL1271_FLAG_DUMMY_PACKET_PENDING \<in> wl_flags wl2"
  proof -
    have "WL1271_FLAG_DUMMY_PACKET_PENDING \<in> wl_flags wl1" "dummy_packet wl2 = dummy_packet wl"
      using that s d by (simp_all add: sent_def dequeued_def)
    then have "p \<noteq> dummy_packet wl" "WL1271_FLAG_DUMMY_PACKET_PENDING \<in> wl_flags wl"
      using d by (auto simp: dequeued_def split: if_splits)
    then show ?thesis using b [of "dummy_packet wl"] f \<open>dummy_packet wl2 = _\<close> by (simp add: frames_fit_def)
  qed
  have "owned wl2 \<subseteq># owned wl" using sent_progress(1) [OF d s] by (simp add: tx_progress_def)
  then have "count (owned wl2) x \<le> 1" for x
    using f mset_subset_eq_count [of "owned wl2" "owned wl" x] unfolding frames_fit_def by (meson order_trans)
  then show ?thesis using q dm by (simp add: frames_fit_def)
qed

lemma requeue_frames_fit:
  assumes d: "dequeued wl p wl1" and f: "frames_fit wl" and q: "quiet_step wl1 wl2" and sk: "skbs wl2 = skbs wl1"
    and h: "h < WL12XX_MAX_LINKS"
  shows "frames_fit (wl1271_skb_queue_head wl2 v p h)"
proof -
  define w where "w = wl1271_skb_queue_head wl2 v p h"
  note qa = quiet_step_accounts [OF q]
  have ok: "tx_ok wl2" using d qa(10) by (simp add: dequeued_def)
  have pend: "p = dummy_packet wl2 \<longrightarrow> WL1271_FLAG_DUMMY_PACKET_PENDING \<notin> wl_flags wl2"
    using d q by (auto simp: dequeued_def quiet_step_def)
  note t = queue_head_tx [OF ok h pend w_def]
  note fr = queue_head_frame [OF w_def]
  have dm: "dummy_packet w = dummy_packet wl" and sz: "aggr_buf_size w = aggr_buf_size wl" and sk': "skbs w = skbs wl"
    using d q sk fr(7,9,10) by (simp_all add: dequeued_def quiet_step_def)
  then have b: "fits w x = fits wl x" for x by (simp add: fits_def)
  have "x \<in># queued wl" if "x \<in># queued w" for x
    using that t(5) qa(2) d q by (auto simp: dequeued_def quiet_step_def split: if_splits dest: mset_subset_eqD)
  moreover have "WL1271_FLAG_DUMMY_PACKET_PENDING \<in> wl_flags wl" if "WL1271_FLAG_DUMMY_PACKET_PENDING \<in> wl_flags w"
    using that fr(13) d q by (auto simp: dequeued_def quiet_step_def split: if_splits)
  moreover have "owned w = owned wl" using t(2) qa(8) d q by (simp add: dequeued_def quiet_step_def)
  ultimately show ?thesis using f b dm unfolding w_def [symmetric] by (simp add: frames_fit_def)
qed

lemma frames_fit_quiet:
  assumes "quiet_step wl wl'" and "skbs wl' = skbs wl"
  shows "frames_fit wl' = frames_fit wl"
  using assms quiet_step_accounts(2,8) [OF assms(1)]
  by (simp add: frames_fit_def fits_def quiet_step_def)

lemma tx_loop_induct [consumes 1]:
  assumes "tx_loop ops env st wl = Some r"
    and "\<And>st wl r. tx_iter ops env st wl = Inl r \<Longrightarrow> P st wl r"
    and "\<And>st wl st' wl' r. tx_iter ops env st wl = Inr (st', wl') \<Longrightarrow> P st' wl' r \<Longrightarrow> P st wl r"
  shows "P st wl r"
proof -
  have "ops = ops \<longrightarrow> env = env \<longrightarrow> P st wl r"
  proof (rule tx_loop.raw_induct [where P = "\<lambda>o' e s w r. o' = ops \<longrightarrow> e = env \<longrightarrow> P s w r", OF _ assms(1)], intro impI)
    fix f o' e s w y
    assume ih: "\<And>o' e s w y. f o' e s w = Some y \<Longrightarrow> o' = ops \<longrightarrow> e = env \<longrightarrow> P s w y"
      and y: "(case tx_iter o' e s w of Inl r \<Rightarrow> Some r | Inr n \<Rightarrow> f o' e (fst n) (snd n)) = Some y"
      and eq: "o' = ops" "e = env"
    show "P s w y"
    proof (cases "tx_iter ops env s w")
      case (Inl r)
      then show ?thesis using y eq assms(2) by simp
    next
      case (Inr n)
      then have "P (fst n) (snd n) y" using y eq ih by simp
      then show ?thesis using assms(3) [of s w "fst n" "snd n" y] Inr by simp
    qed
  qed
  then show ?thesis by simp
qed

lemma stop_step_progress:
  assumes "stop_step wl wl'" and "stop_view_ok wl \<longrightarrow> stop_view_ok wl'" and "tx_ok wl"
  shows "tx_progress wl wl'"
proof -
  obtain r l where w: "wl' = wl\<lparr>queue_stop_reasons := r, log := log wl @ l\<rparr>" using assms(1) by (auto simp: stop_step_def)
  have q: "queue_ok wl' = queue_ok wl" "queued wl' = queued wl"
    by (rule queue_ok_cong; simp add: w skb_ac_def)+
  have fl: "in_flight wl' = in_flight wl" "links_ok wl' = links_ok wl" "ids_ok wl' = ids_ok wl"
    by (simp_all add: w in_flight_def links_ok_def ids_ok_def)
  have "owned wl' = owned wl" using q(2) fl(1) by (simp add: owned_def) (simp add: w)
  then show ?thesis
    using assms(2,3) q fl stop_step_returned [OF assms(1)]
    by (simp add: tx_progress_def tx_ok_def accounted_def backlog_def) (simp add: w)
qed

lemma and_then_progress:
  assumes "tx_progress wl (snd m)" and "\<And>x w. tx_ok w \<Longrightarrow> tx_progress w (snd (f x w))"
  shows "tx_progress wl (snd (and_then m f))"
proof (cases m)
  case (Pair r w)
  have "tx_ok w" using assms(1) Pair by (simp add: tx_progress_def)
  then show ?thesis using assms Pair tx_progress_trans [of wl w] by (cases r) simp_all
qed

lemma io_progress: "io_step wl wl' \<Longrightarrow> tx_ok wl \<Longrightarrow> tx_progress wl wl'"
  by (intro quiet_tx_progress cmd_step_quiet io_step_cmd_step)

lemma low_watermark_progress: "tx_ok wl \<Longrightarrow> tx_progress wl (wl1271_handle_tx_low_watermark wl)"
  by (rule stop_step_progress [OF stop_step_low_watermark]) (simp_all add: stop_view_ok_low_watermark)

lemma quiet_step_rearm_rx: "quiet_step wl (wl12xx_rearm_rx_streaming wl hs)"
proof -
  have v: "quiet_step w (rearm_rx_streaming_vif hs v w)" for v w
  proof -
    define w1 where "w1 = (if WLVIF_FLAG_RX_STREAMING_STARTED \<notin> vif_flags (vifs w v)
      then emit (C_queue_work (RX_STREAMING_ENABLE_WORK v)) w else w)"
    have "quiet_step w w1" by (simp add: w1_def quiet_step_emit)
    then have "quiet_step w (emit (C_mod_timer v t) w1)" for t
      by (rule quiet_step_trans [OF _ quiet_step_emit]) simp
    then show ?thesis unfolding rearm_rx_streaming_vif_def Let_def w1_def [symmetric] by simp
  qed
  have "quiet_step wl (fold (rearm_rx_streaming_vif hs) vs wl)" for vs
    by (rule fold_invariant_list [where P = "quiet_step wl"], simp, erule quiet_step_trans [OF _ v])
  then show ?thesis by (simp add: wl12xx_rearm_rx_streaming_def)
qed

context chip_tx
begin

lemma tx_iter_cases:
  assumes ok: "tx_ok wl"
  obtains (idle) wl1 where "rr_eq wl1 wl" "tx_iter ops env st wl = Inl (Tx_out_ack, st,
        if tl_buf_offset st \<noteq> 0
        then upd_reason (tl_n_aggr st) (\<lambda>r. r\<lparr>ar_no_data := ar_no_data r + 1\<rparr>) wl1 else wl1)"
  | (sent) p wl1 wl2 d len where "dequeued wl p wl1" "sent p wl1 wl2"
      "tx_iter ops env st wl = Inr (tx_frame_sent st wl2 p d len)"
  | (failed) p h wl1 wl2 v e where "dequeued wl p wl1" "quiet_step wl1 wl2" "skbs wl2 = skbs wl1"
      "h < WL12XX_MAX_LINKS" "wl1271_prepare_tx_frame ops env wl1 v p (tl_buf_offset st) h = (Inl e, wl2)"
      "tx_iter ops env st wl = tx_frame_failed ops env st wl2 p v h e"
  using ok
proof (cases rule: skb_dequeue_tx)
  case (empty wl1)
  then show thesis using idle [of wl1] by (simp add: tx_iter_def)
next
  case (packet p h wl1)
  define v where "v = tx_wlvif wl1 p"
  define g where "g = (if v = None then system_hlid wl1 else h)"
  have ok1: "tx_ok wl1" using packet(2) by (simp add: dequeued_def)
  have g: "g < WL12XX_MAX_LINKS" using packet(3) ok1 by (simp add: g_def tx_ok_def links_ok_def)
  obtain r wl2 where r: "wl1271_prepare_tx_frame ops env wl1 v p (tl_buf_offset st) g = (r, wl2)"
    by (cases "wl1271_prepare_tx_frame ops env wl1 v p (tl_buf_offset st) g")
  have it: "tx_iter ops env st wl = (case r of Inl e \<Rightarrow> tx_frame_failed ops env st wl2 p v g e
      | Inr len \<Rightarrow> Inr (tx_frame_sent st wl2 p (v \<noteq> None \<and> wl1271_tx_is_data_present (skbs wl1 p)) len))"
    by (simp only: tx_iter_def packet(1) prod.case option.case Let_def v_def [symmetric] g_def [symmetric] r)
  from ok1 r show thesis
  proof (cases rule: prepare_cases)
    case (failed e)
    then show thesis using that(3) [OF packet(2) failed(2,3) g] r it by simp
  next
    case (sent n)
    then show thesis using that(2) [OF packet(2) sent(2)] it by simp
  qed
qed

lemma tx_frame_failed_progress:
  assumes d: "dequeued wl p wl1" and q: "quiet_step wl1 wl2" and h: "h < WL12XX_MAX_LINKS"
  shows "tx_progress wl (iter_state (tx_frame_failed ops env st wl2 p v h e))"
proof -
  let ?w = "wl1271_skb_queue_head wl2 v p h"
  have rq: "tx_progress wl ?w" by (rule requeue_progress [OF d q h])
  then have ok: "tx_ok ?w" by (simp add: tx_progress_def)
  obtain b wl3 where fl: "tx_flush_aggr ops env ?w (tl_buf_offset st) (tl_last_len st) = (b, wl3)"
    by (cases "tx_flush_aggr ops env ?w (tl_buf_offset st) (tl_last_len st)")
  have "quiet_step ?w wl3" using flush_aggr_quiet(1) [of ?w env "tl_buf_offset st" "tl_last_len st"] fl by simp
  then have 3: "tx_progress wl wl3" "tx_ok wl3"
    using tx_progress_trans [OF rq quiet_tx_progress [OF _ ok]] by (simp_all add: tx_progress_def)
  have r: "tx_progress wl (upd_reason n f w)" if "tx_progress wl w" for n f w
    using tx_progress_trans [OF that quiet_tx_progress [OF quiet_step_reason(1)]] that by (simp add: tx_progress_def)
  have s: "tx_progress wl (set_flag WL1271_FLAG_FW_TX_BUSY ?w)"
    using tx_progress_trans [OF rq quiet_tx_progress [OF quiet_step_flag(1) ok]] by simp
  have fr: "tx_progress wl (emit (C_free_txskb p) wl2)" if "\<not> wl12xx_is_dummy_packet wl2 p"
    using free_progress [OF d q] that by (simp add: wl12xx_is_dummy_packet_def)
  show ?thesis
    using fl 3 r rq s fr by (cases b) (auto simp: tx_frame_failed_def iter_state_def)
qed

lemma tx_iter_progress:
  assumes "tx_ok wl"
  shows "tx_progress wl (iter_state (tx_iter ops env st wl))"
  using assms
proof (cases rule: tx_iter_cases [where env = env and st = st])
  case (idle wl1)
  have p1: "tx_progress wl wl1" by (rule rr_tx_progress [OF idle(1) assms])
  then have "tx_progress wl (upd_reason n f wl1)" for n f
    using tx_progress_trans [OF p1 quiet_tx_progress [OF quiet_step_reason(1)]] by (simp add: tx_progress_def)
  with p1 idle(2) show ?thesis by (simp add: iter_state_def)
next
  case (sent p wl1 wl2 d len)
  have p2: "tx_progress wl wl2" by (rule sent_progress(1) [OF sent(1,2)])
  then have "tx_progress wl (wl2\<lparr>tx_packets_count := c\<rparr>)" for c
    using tx_progress_trans [OF p2 quiet_tx_progress [OF quiet_step_packets_count]] by (simp add: tx_progress_def)
  with sent(3) show ?thesis by (simp add: iter_state_def tx_frame_sent_def)
next
  case (failed p h wl1 wl2 v e)
  show ?thesis using tx_frame_failed_progress [OF failed(1,2,4)] failed(6) by simp
qed

lemma tx_iter_decreases:
  assumes ok: "tx_ok wl" and fit: "frames_fit wl" and on: "wl_state wl \<noteq> WLCORE_STATE_OFF"
    and it: "tx_iter ops env st wl = Inr (st', wl')"
  shows "tx_measure st' wl' < tx_measure st wl" and "frames_fit wl'"
proof -
  have "tx_measure st' wl' < tx_measure st wl \<and> frames_fit wl'"
    using ok
  proof (cases rule: tx_iter_cases [where env = env and st = st])
    case (idle wl1)
    then show ?thesis using it by simp
  next
    case (sent p wl1 wl2 d len)
    have w: "wl' = wl2\<lparr>tx_packets_count := tx_packets_count wl2 + 1\<rparr>"
      using sent(3) it by (simp add: tx_frame_sent_def)
    have q: "quiet_step wl2 wl'" unfolding w by (rule quiet_step_packets_count)
    have "frames_fit wl'" using frames_fit_quiet [OF q] sent_frames_fit [OF sent(1) fit sent(2)] by (simp add: w)
    moreover have "backlog wl' < backlog wl"
      using sent_progress(2) [OF sent(1,2)] quiet_step_backlog [OF q] by simp
    ultimately show ?thesis by (simp add: tx_measure_def)
  next
    case (failed p h wl1 wl2 v e)
    define w where "w = wl1271_skb_queue_head wl2 v p h"
    obtain b wl3 where fl: "tx_flush_aggr ops env w (tl_buf_offset st) (tl_last_len st) = (b, wl3)"
      by (cases "tx_flush_aggr ops env w (tl_buf_offset st) (tl_last_len st)")
    have e: "e = EAGAIN" and b: "b = Inr ()" and st': "st' = st\<lparr>tl_sent_packets := True, tl_buf_offset := 0\<rparr>"
      and wl': "wl' = upd_reason (tl_n_aggr st) (\<lambda>r. r\<lparr>ar_buffer_full := ar_buffer_full r + 1\<rparr>) wl3"
      using it failed(6) fl unfolding w_def
      by (auto simp: tx_frame_failed_def split: if_splits sum.splits)
    have io: "WL1271_FLAG_IO_FAILED \<notin> wl_flags w"
      using flush_aggr_failed [where wl = w and env = env and off = "tl_buf_offset st" and len = "tl_last_len st"] fl b by auto
    have ok1: "tx_ok wl1" and on1: "wl_state wl1 \<noteq> WLCORE_STATE_OFF"
      using failed(1) on by (simp_all add: dequeued_def)
    have "aggr_buf_size wl1 < tl_buf_offset st + tx_frame_len wl1 p"
      using prepare_again [OF ok1 on1] failed(5) e io queue_head_frame(12) [OF w_def, of WL1271_FLAG_IO_FAILED]
      by fastforce
    moreover have "tx_frame_len wl1 p \<le> aggr_buf_size wl1"
      using dequeued_fits [OF failed(1) fit] failed(1) tx_extra_le [of wl1 "ti_hw_key (skb_info (skbs wl1 p))"]
      by (simp add: fits_def tx_frame_len_def dequeued_def)
    ultimately have off: "tl_buf_offset st \<noteq> 0" by simp
    have q3: "quiet_step w wl3" "skbs wl3 = skbs w"
      using flush_aggr_quiet [where wl = w and env = env and off = "tl_buf_offset st" and len = "tl_last_len st"] fl by simp_all
    have q: "quiet_step w wl'" "skbs wl' = skbs w"
      unfolding wl' using quiet_step_trans [OF q3(1) quiet_step_reason(1)] quiet_step_reason(2) q3(2) by simp_all
    have "backlog wl' \<le> backlog wl"
      using requeue_progress [OF failed(1,2,4), of v] quiet_step_backlog [OF q(1)]
      by (simp add: tx_progress_def w_def)
    moreover have "frames_fit wl'"
      using frames_fit_quiet [OF q] requeue_frames_fit [OF failed(1) fit failed(2-4), of v] by (simp add: w_def)
    ultimately show ?thesis using off by (simp add: tx_measure_def st')
  qed
  then show "tx_measure st' wl' < tx_measure st wl" and "frames_fit wl'" by blast+
qed

lemma tx_loop_progress:
  "tx_loop ops env st wl = Some r \<Longrightarrow> tx_ok wl \<Longrightarrow> tx_progress wl (snd (snd r))"
proof (induction rule: tx_loop_induct)
  case (1 st wl r)
  then show ?case using tx_iter_progress [of wl env st] by (simp add: iter_state_def split_beta)
next
  case (2 st wl st' wl' r)
  then have p: "tx_progress wl wl'" using tx_iter_progress [of wl env st] by (simp add: iter_state_def)
  then have "tx_ok wl'" by (simp add: tx_progress_def)
  with 2 p show ?case by (blast intro: tx_progress_trans)
qed

lemma tx_loop_ends:
  "tx_ok wl \<Longrightarrow> frames_fit wl \<Longrightarrow> wl_state wl \<noteq> WLCORE_STATE_OFF \<Longrightarrow> \<exists>r. tx_loop ops env st wl = Some r"
proof (induction "tx_measure st wl" arbitrary: st wl rule: less_induct)
  case less
  show ?case
  proof (cases "tx_iter ops env st wl")
    case (Inl r)
    then show ?thesis by (subst tx_loop.simps) (cases r, simp)
  next
    case (Inr n)
    then obtain st' wl' where n: "tx_iter ops env st wl = Inr (st', wl')" by (cases n) simp
    note d = tx_iter_decreases [OF less.prems n]
    have "tx_progress wl wl'" using tx_iter_progress [OF less.prems(1), of env st] n by (simp add: iter_state_def)
    then have "\<exists>r. tx_loop ops env st' wl' = Some r"
      using less.prems(3) by (intro less.hyps d) (simp_all add: tx_progress_def)
    then show ?thesis using n by (subst tx_loop.simps) simp
  qed
qed


lemma tx_out_ack_progress:
  assumes "tx_ok wl"
  shows "tx_progress wl (snd (tx_out_ack ops env st wl))"
  unfolding tx_out_ack_def
proof (intro and_then_progress)
  have "tx_progress wl (snd (and_then (tx_flush_aggr ops env wl a b) (\<lambda>_ wl1. (Inr True, wl1))))" for a b
    by (intro and_then_progress) (simp_all add: quiet_tx_progress flush_aggr_quiet(1) assms tx_progress_refl)
  then show "tx_progress wl (snd (if tl_buf_offset st \<noteq> 0
      then and_then (tx_flush_aggr ops env wl (tl_buf_offset st) (tl_last_len st)) (\<lambda>_ wl1. (Inr True, wl1))
      else (Inr (tl_sent_packets st), wl)))"
    by (simp add: assms tx_progress_refl)
next
  fix x w assume ok: "tx_ok w"
  have "tx_progress w (snd (and_then (if WLCORE_QUIRK_END_OF_TRANSACTION \<in> wl_quirks w
       then wlcore_write32 env w WL12XX_HOST_WR_ACCESS (tx_packets_count w) else (Inr (), w))
       (\<lambda>_ wl2. (Inr (), wl1271_handle_tx_low_watermark wl2))))"
    by (rule and_then_progress) (simp_all add: ok io_progress io_step_write32 tx_progress_refl low_watermark_progress)
  then show "tx_progress w (snd (if x then and_then (if WLCORE_QUIRK_END_OF_TRANSACTION \<in> wl_quirks w
       then wlcore_write32 env w WL12XX_HOST_WR_ACCESS (tx_packets_count w) else (Inr (), w))
       (\<lambda>_ wl2. (Inr (), wl1271_handle_tx_low_watermark wl2)) else (Inr (), w)))"
    by (simp add: ok tx_progress_refl)
next
  fix x w assume "tx_ok w"
  then show "tx_progress w (snd (Inr (), wl12xx_rearm_rx_streaming w (tl_active_hlids st)))"
    by (simp add: quiet_tx_progress quiet_step_rearm_rx)
qed

text \<open>The work keeps every packet, and it ends when the frames fit the aggregation buffer.\<close>

lemma tx_work_locked_progress:
  assumes "wlcore_tx_work_locked ops env wl = Some (r, wl')" and "tx_ok wl"
  shows "tx_progress wl wl'"
proof (cases "tx_loop ops env tx_locals_init wl")
  case None
  then show ?thesis using assms by (auto simp: wlcore_tx_work_locked_def tx_progress_refl split: if_splits)
next
  case (Some z)
  then obtain x st w where z: "tx_loop ops env tx_locals_init wl = Some (x, st, w)" by (cases z) auto
  have p: "tx_progress wl w" using tx_loop_progress [OF z assms(2)] by simp
  then have "tx_ok w" by (simp add: tx_progress_def)
  then have "tx_progress wl (snd (tx_out_ack ops env st w))"
    by (rule tx_progress_trans [OF p tx_out_ack_progress])
  then show ?thesis
    using assms z p by (cases x) (auto simp: wlcore_tx_work_locked_def tx_progress_refl split: if_splits)
qed

lemma tx_work_locked_ends:
  "tx_ok wl \<Longrightarrow> frames_fit wl \<Longrightarrow> \<exists>r wl'. wlcore_tx_work_locked ops env wl = Some (r, wl')"
proof (cases "wl_state wl = WLCORE_STATE_ON")
  case True
  assume "tx_ok wl" "frames_fit wl"
  with True obtain x st w where z: "tx_loop ops env tx_locals_init wl = Some (x, st, w)"
    using tx_loop_ends [of wl env tx_locals_init] by auto
  then show ?thesis using True by (cases x) (auto simp: wlcore_tx_work_locked_def)
qed (simp add: wlcore_tx_work_locked_def)

end

section \<open>The work around the loop\<close>

lemma quiet_step_elp_compl: "quiet_step wl (wl\<lparr>elp_compl := b\<rparr>)"
  by (rule quiet_stepI [where l = "[]"]) simp_all

lemma quiet_step_hardirq: "quiet_step wl (snd (wl12xx_hardirq wl))" "skbs (snd (wl12xx_hardirq wl)) = skbs wl"
proof -
  show "skbs (snd (wl12xx_hardirq wl)) = skbs wl"
    by (simp add: wl12xx_hardirq_def Let_def emit_def set_flag_def)
  have "WL1271_FLAG_DUMMY_PACKET_PENDING \<in> wl_flags (snd (wl12xx_hardirq wl))
      \<longleftrightarrow> WL1271_FLAG_DUMMY_PACKET_PENDING \<in> wl_flags wl"
    using hardirq_flags [of wl] by auto
  then show "quiet_step wl (snd (wl12xx_hardirq wl))"
    by (intro quiet_stepI [where l = "(if elp_compl wl then [C_complete_elp] else [])
          @ (if WL1271_FLAG_SUSPENDED \<in> wl_flags wl then [C_irq_disable] else [])"])
      (simp_all add: wl12xx_hardirq_def Let_def emit_def set_flag_def)
qed

lemma quiet_step_elp_sleep: "quiet_step wl (wl1271_ps_elp_sleep wl)"
proof -
  have "quiet_step wl (emit c (set_flag WL1271_FLAG_ELP_REQUESTED wl))" if "quiet_call c" for c
    by (rule quiet_step_trans [OF quiet_step_flag(1) quiet_step_emit]) (use that in simp_all)
  then show ?thesis by (simp add: wl1271_ps_elp_sleep_def Let_def quiet_step_emit quiet_step_flag)
qed

lemma quiet_step_elp_wakeup:
  "quiet_step wl (snd (wl1271_ps_elp_wakeup env wl))" "skbs (snd (wl1271_ps_elp_wakeup env wl)) = skbs wl"
proof -
  define wl1 where "wl1 = emit (C_cancel_work ELP_WORK) (clear_flag WL1271_FLAG_ELP_REQUESTED wl)"
  define wl2 where "wl2 = (if WL1271_FLAG_IRQ_RUNNING \<in> wl_flags wl1 then wl1 else wl1\<lparr>elp_compl := True\<rparr>)"
  obtain x wl3 where w: "wlcore_raw_write32 env wl2 HW_ACCESS_ELP_CTRL_REG ELPCTRL_WAKE_UP = (x, wl3)"
    by (cases "wlcore_raw_write32 env wl2 HW_ACCESS_ELP_CTRL_REG ELPCTRL_WAKE_UP")
  have q1: "quiet_step wl wl1"
    unfolding wl1_def by (rule quiet_step_trans [OF quiet_step_flag(2) quiet_step_emit]) simp_all
  have q2: "quiet_step wl1 wl2" by (simp add: wl2_def quiet_step_elp_compl)
  have io: "io_step wl2 wl3"
    using io_step_raw_write32 [of wl2 env HW_ACCESS_ELP_CTRL_REG ELPCTRL_WAKE_UP] w by simp
  have q3: "quiet_step wl wl3"
    by (rule quiet_step_trans [OF quiet_step_trans [OF q1 q2] cmd_step_quiet [OF io_step_cmd_step [OF io]]])
  have r: "quiet_step wl ((wl12xx_queue_recovery_work wl3)\<lparr>elp_compl := False\<rparr>)"
    by (rule quiet_step_trans [OF quiet_step_trans [OF q3 cmd_step_quiet [OF cmd_step_recovery]] quiet_step_elp_compl])
  have c: "quiet_step wl (clear_flag WL1271_FLAG_IN_ELP w)" if "quiet_step wl w" for w
    by (rule quiet_step_trans [OF that quiet_step_flag(2)]) simp
  have h: "quiet_step wl (snd (wl12xx_hardirq wl3))" by (rule quiet_step_trans [OF q3 quiet_step_hardirq(1)])
  have sk: "skbs wl1 = skbs wl" "skbs wl3 = skbs wl" "skbs (wl12xx_queue_recovery_work wl3) = skbs wl3"
    using io by (auto simp: wl2_def wl1_def emit_def clear_flag_def wl12xx_queue_recovery_work_def Let_def
        set_flag_def elim: io_stepE)
  have "quiet_step wl (snd (wl1271_ps_elp_wakeup env wl)) \<and> skbs (snd (wl1271_ps_elp_wakeup env wl)) = skbs wl"
    unfolding wl1271_ps_elp_wakeup_def Let_def wl1_def [symmetric] wl2_def [symmetric] w
    using q1 r c [OF q3] c [OF h] sk quiet_step_hardirq(2) [of wl3]
    by (cases x) (simp_all add: clear_flag_def)
  then show "quiet_step wl (snd (wl1271_ps_elp_wakeup env wl))" "skbs (snd (wl1271_ps_elp_wakeup env wl)) = skbs wl"
    by blast+
qed

context chip_tx
begin

lemma tx_work_progress:
  assumes "wl1271_tx_work ops env wl = Some wl'" and "tx_ok wl"
  shows "tx_progress wl wl'"
proof -
  obtain r wl1 where w: "wl1271_ps_elp_wakeup env wl = (r, wl1)" by (cases "wl1271_ps_elp_wakeup env wl")
  have p1: "tx_progress wl wl1"
    using quiet_tx_progress [OF quiet_step_elp_wakeup(1) assms(2), of env] w by simp
  then have ok1: "tx_ok wl1" by (simp add: tx_progress_def)
  have "tx_progress wl (wl12xx_queue_recovery_work wl2) \<and> tx_progress wl (wl1271_ps_elp_sleep wl2)"
    if "wlcore_tx_work_locked ops env wl1 = Some (s, wl2)" for s wl2
  proof -
    have p2: "tx_progress wl wl2" by (rule tx_progress_trans [OF p1 tx_work_locked_progress [OF that ok1]])
    then have ok2: "tx_ok wl2" by (simp add: tx_progress_def)
    show ?thesis
      using tx_progress_trans [OF p2 quiet_tx_progress [OF cmd_step_quiet [OF cmd_step_recovery] ok2]]
        tx_progress_trans [OF p2 quiet_tx_progress [OF quiet_step_elp_sleep ok2]] by blast
  qed
  then show ?thesis
    using assms(1) w p1
    by (cases r; cases "wlcore_tx_work_locked ops env wl1")
      (auto simp: wl1271_tx_work_def split: sum.splits)
qed

lemma tx_work_ends:
  assumes "tx_ok wl" and "frames_fit wl"
  shows "\<exists>wl'. wl1271_tx_work ops env wl = Some wl'"
proof -
  obtain r wl1 where w: "wl1271_ps_elp_wakeup env wl = (r, wl1)" by (cases "wl1271_ps_elp_wakeup env wl")
  have q: "quiet_step wl wl1" "skbs wl1 = skbs wl" using quiet_step_elp_wakeup [where wl = wl and env = env] w by simp_all
  have "tx_ok wl1" "frames_fit wl1"
    using assms quiet_step_accounts(10) [OF q(1)] frames_fit_quiet [OF q] by simp_all
  then obtain s wl2 where "wlcore_tx_work_locked ops env wl1 = Some (s, wl2)" using tx_work_locked_ends by blast
  then show ?thesis using w by (cases r; cases s) (auto simp: wl1271_tx_work_def)
qed

end

section \<open>The frames keep fitting\<close>

lemma frames_fit_sub:
  assumes f: "frames_fit wl" and q: "queued wl' \<subseteq># queued wl" and o: "owned wl' \<subseteq># owned wl"
    and d: "dummy_packet wl' = dummy_packet wl" "aggr_buf_size wl' = aggr_buf_size wl"
    and p: "WL1271_FLAG_DUMMY_PACKET_PENDING \<in> wl_flags wl' \<longrightarrow> WL1271_FLAG_DUMMY_PACKET_PENDING \<in> wl_flags wl"
    and b: "\<And>p. skb_body (skbs wl' p) = skb_body (skbs wl p)"
  shows "frames_fit wl'"
proof -
  have fits: "fits wl' p = fits wl p" for p using fits_body [OF b d(2)] .
  have "count (owned wl') p \<le> 1" for p
    using f mset_subset_eq_count [OF o, of p] unfolding frames_fit_def by (meson order_trans)
  moreover have "fits wl p" if "p \<in># queued wl'" for p
    using f mset_subset_eqD [OF q that] by (simp add: frames_fit_def)
  ultimately show ?thesis using f d p by (simp add: frames_fit_def fits)
qed

lemma frames_fit_stop: "stop_step wl wl' \<Longrightarrow> frames_fit wl' = frames_fit wl"
proof -
  assume "stop_step wl wl'"
  then obtain r l where w: "wl' = wl\<lparr>queue_stop_reasons := r, log := log wl @ l\<rparr>" by (auto simp: stop_step_def)
  have q: "queued wl' = queued wl" by (rule queue_ok_cong; simp add: w skb_ac_def)
  have "in_flight wl' = in_flight wl" by (simp add: w in_flight_def)
  then have "owned wl' = owned wl" using q by (simp add: owned_def) (simp add: w)
  with q show ?thesis by (simp add: frames_fit_def fits_def) (simp add: w)
qed

lemma frames_fit_rr: "rr_eq wl' wl \<Longrightarrow> frames_fit wl' = frames_fit wl"
  using rr_eq_queue [of wl' wl] rr_eq_tx [of wl' wl] by (simp add: frames_fit_def fits_def)

lemma dequeued_frames_fit: "dequeued wl p wl1 \<Longrightarrow> frames_fit wl \<Longrightarrow> frames_fit wl1"
  by (erule frames_fit_sub) (auto simp: dequeued_def split: if_splits)

lemma frames_fit_free: "frames_fit (emit (C_free_txskb p) wl) = frames_fit wl"
proof -
  let ?w = "emit (C_free_txskb p) wl"
  have "in_flight ?w = in_flight wl" by (simp add: emit_def in_flight_def)
  then have "owned ?w = owned wl" by (simp add: owned_def) (simp add: emit_def)
  then show ?thesis by (simp add: frames_fit_def fits_def) (simp add: emit_def)
qed

context chip_tx
begin

lemma tx_iter_fits:
  assumes ok: "tx_ok wl" and fit: "frames_fit wl" and on: "wl_state wl \<noteq> WLCORE_STATE_OFF"
  shows "frames_fit (iter_state (tx_iter ops env st wl))"
proof (cases "tx_iter ops env st wl")
  case (Inr z)
  then show ?thesis using tx_iter_decreases(2) [OF ok fit on, of env st] by (cases z) (simp add: iter_state_def)
next
  case (Inl z)
  show ?thesis
    using ok
  proof (cases rule: tx_iter_cases [where env = env and st = st])
    case (idle wl1)
    have "frames_fit wl1" using frames_fit_rr [OF idle(1)] fit by simp
    then show ?thesis
      using idle(2) frames_fit_quiet [OF quiet_step_reason] by (simp add: iter_state_def)
  next
    case (sent p wl1 wl2 d len)
    then show ?thesis using Inl by simp
  next
    case (failed p h wl1 wl2 v e)
    define w where "w = wl1271_skb_queue_head wl2 v p h"
    have fw: "frames_fit w" unfolding w_def by (rule requeue_frames_fit [OF failed(1) fit failed(2-4)])
    have fu: "frames_fit (upd_reason n f x) = frames_fit x" for n f x
      by (rule frames_fit_quiet [OF quiet_step_reason])
    have 1: "frames_fit x" if "tx_flush_aggr ops env w a b = (r, x)" for a b r x
      using frames_fit_quiet [OF flush_aggr_quiet [where wl = w and env = env and off = a and len = b]] fw that by simp
    have 2: "frames_fit (set_flag WL1271_FLAG_FW_TX_BUSY w)"
      using fw frames_fit_quiet [OF quiet_step_flag(1), of WL1271_FLAG_FW_TX_BUSY w] by (simp add: set_flag_def)
    have 3: "frames_fit (emit (C_free_txskb p) wl2)"
      using dequeued_frames_fit [OF failed(1) fit] frames_fit_quiet [OF failed(2,3)] by (simp add: frames_fit_free)
    show ?thesis
      using failed(6) fw 1 2 3 unfolding tx_frame_failed_def w_def [symmetric] iter_state_def
      by (auto simp: fu split: sum.split prod.split)
  qed
qed

lemma tx_loop_fits:
  "tx_loop ops env st wl = Some r \<Longrightarrow> tx_ok wl \<Longrightarrow> frames_fit wl \<Longrightarrow> wl_state wl \<noteq> WLCORE_STATE_OFF \<Longrightarrow>
   frames_fit (snd (snd r))"
proof (induction rule: tx_loop_induct)
  case (1 st wl r)
  then show ?case using tx_iter_fits [of wl env st] by (simp add: iter_state_def split_beta)
next
  case (2 st wl st' wl' r)
  then have "tx_progress wl wl'" using tx_iter_progress [of wl env st] by (simp add: iter_state_def)
  moreover have "frames_fit wl'" using 2 tx_iter_fits [of wl env st] by (simp add: iter_state_def)
  ultimately show ?case using 2 by (simp add: tx_progress_def)
qed

lemma and_then_fits:
  assumes "frames_fit wl \<Longrightarrow> frames_fit (snd m)" and "\<And>x w. frames_fit w \<Longrightarrow> frames_fit (snd (f x w))" and "frames_fit wl"
  shows "frames_fit (snd (and_then m f))"
  using assms by (cases m, cases "fst m") auto

lemma tx_out_ack_fits: "frames_fit wl \<Longrightarrow> frames_fit (snd (tx_out_ack ops env st wl))"
proof -
  assume f: "frames_fit wl"
  have fl: "frames_fit (snd (tx_flush_aggr ops env w a b)) = frames_fit w" for w a b
    by (rule frames_fit_quiet [OF flush_aggr_quiet])
  have wr: "frames_fit (snd (wlcore_write32 env w a v)) = frames_fit w" for w a v
    by (rule frames_fit_quiet [OF cmd_step_quiet]) (use io_step_write32 [of w env a v] in \<open>auto intro: io_step_cmd_step elim: io_stepE\<close>)
  have lw: "frames_fit (wl1271_handle_tx_low_watermark w) = frames_fit w" for w
    by (rule frames_fit_stop [OF stop_step_low_watermark])
  have rs: "frames_fit (wl12xx_rearm_rx_streaming w hs) = frames_fit w" for w hs
    by (rule frames_fit_quiet [OF quiet_step_rearm_rx])
      (auto simp: wl12xx_rearm_rx_streaming_def rearm_rx_streaming_vif_def Let_def emit_def
        intro!: fold_invariant_list [where P = "\<lambda>x. skbs x = skbs w"])
  show ?thesis
    unfolding tx_out_ack_def by (intro and_then_fits) (auto simp: fl wr lw rs f intro!: and_then_fits)
qed

lemma tx_work_locked_fits:
  assumes "wlcore_tx_work_locked ops env wl = Some (r, wl')" and "tx_ok wl" and "frames_fit wl"
  shows "frames_fit wl'"
proof (cases "tx_loop ops env tx_locals_init wl")
  case None
  then show ?thesis using assms by (auto simp: wlcore_tx_work_locked_def split: if_splits)
next
  case (Some z)
  then obtain x st w where z: "tx_loop ops env tx_locals_init wl = Some (x, st, w)" by (cases z) auto
  have f: "frames_fit w" if "wl_state wl = WLCORE_STATE_ON" using tx_loop_fits [OF z assms(2,3)] that by simp
  then have "frames_fit (snd (tx_out_ack ops env st w))" if "wl_state wl = WLCORE_STATE_ON"
    using tx_out_ack_fits that by blast
  then show ?thesis
    using assms z f by (cases x) (auto simp: wlcore_tx_work_locked_def split: if_splits)
qed

lemma tx_work_fits:
  assumes "wl1271_tx_work ops env wl = Some wl'" and "tx_ok wl" and "frames_fit wl"
  shows "frames_fit wl'"
proof -
  obtain r wl1 where w: "wl1271_ps_elp_wakeup env wl = (r, wl1)" by (cases "wl1271_ps_elp_wakeup env wl")
  have q: "quiet_step wl wl1" "skbs wl1 = skbs wl" using quiet_step_elp_wakeup [where wl = wl and env = env] w by simp_all
  have ok1: "tx_ok wl1" "frames_fit wl1"
    using assms quiet_step_accounts(10) [OF q(1)] frames_fit_quiet [OF q] by simp_all
  have "frames_fit (wl12xx_queue_recovery_work wl2) \<and> frames_fit (wl1271_ps_elp_sleep wl2)"
    if "wlcore_tx_work_locked ops env wl1 = Some (s, wl2)" for s wl2
    using tx_work_locked_fits [OF that ok1]
      frames_fit_quiet [OF cmd_step_quiet [OF cmd_step_recovery [of wl2]]]
      frames_fit_quiet [OF quiet_step_elp_sleep, of wl2]
    by (simp add: wl12xx_queue_recovery_work_def wl1271_ps_elp_sleep_def Let_def set_flag_def emit_def)
  then show ?thesis
    using assms(1) w ok1 by (cases r) (auto simp: wl1271_tx_work_def split: option.splits sum.splits)
qed

end

end
