(* ===== verification/WlTxDone.thy ===== *)
theory WlTxDone
  imports WlTxWork
begin

unbundle bit_operations_syntax

text \<open>
  The end of a transmission (wlcore/tx.c): the results of the firmware's result queue, which only
  wl12xx uses, handing packets back to mac80211 (\<open>wl1271_netstack_work\<close> of wlcore/main.c), dropping
  the packets of a device that goes away, and flushing. The completion queue of wl18xx is in its own
  theory.
\<close>

section \<open>Returning a packet\<close>

text \<open>
  Removing the private headers of a packet: the descriptor, and the space for the TKIP header with
  the 802.11 header moved back over it.
\<close>

definition remove_tx_headers :: "wl1271 \<Rightarrow> skb_ptr \<Rightarrow> wl1271" where
  "remove_tx_headers wl p =
     (let wl1 = upd_skb p (skb_pull TX_DESC_LEN) wl
      in if tx_extra wl1 (ti_hw_key (skb_info (skbs wl1 p))) = WL1271_EXTRA_SPACE_TKIP then
           upd_skb p (\<lambda>s. skb_pull WL1271_EXTRA_SPACE_TKIP
               (skb_write WL1271_EXTRA_SPACE_TKIP
                  (buf_read 0 (ieee80211_get_hdrlen_from_skb s) (skb_bytes s)) s)) wl1
         else wl1)"

definition queue_deferred_tx :: "wl1271 \<Rightarrow> skb_ptr \<Rightarrow> wl1271" where
  "queue_deferred_tx wl p =
     emit (C_queue_work NETSTACK_WORK) (wl\<lparr>deferred_tx_queue := deferred_tx_queue wl @ [p]\<rparr>)"

section \<open>The result queue of wl12xx\<close>

abbreviation (input) TX_HW_RESULT_QUEUE_LEN :: nat where "TX_HW_RESULT_QUEUE_LEN \<equiv> 16"
abbreviation (input) TX_SUCCESS :: u8 where "TX_SUCCESS \<equiv> 0"
abbreviation (input) TX_RETRY_EXCEEDED :: u8 where "TX_RETRY_EXCEEDED \<equiv> 3"
abbreviation (input) CONF_HW_RXTX_RATE_UNSUPPORTED :: u8 where "CONF_HW_RXTX_RATE_UNSUPPORTED \<equiv> 0xff"
abbreviation (input) IEEE80211_TX_RC_MCS :: u8 where "IEEE80211_TX_RC_MCS \<equiv> 0x08"
abbreviation (input) IEEE80211_TX_RC_SHORT_GI :: u8 where "IEEE80211_TX_RC_SHORT_GI \<equiv> 0x80"

text \<open>The result's members that are read; the descriptor is 16 bytes long.\<close>

record wl1271_tx_hw_res_descr =
  res_id :: u8
  res_status :: u8
  res_seq_lsb :: u8
  res_ack_failures :: u8
  res_rate_class :: u8

definition res_descr_at :: "nat \<Rightarrow> bytes \<Rightarrow> wl1271_tx_hw_res_descr" where
  "res_descr_at off b =
     \<lparr>res_id = byte_at off b, res_status = byte_at (off + 1) b, res_seq_lsb = byte_at (off + 12) b,
      res_ack_failures = byte_at (off + 13) b, res_rate_class = byte_at (off + 14) b\<rparr>"

definition wlcore_rate_to_idx :: "wl1271 \<Rightarrow> u8 \<Rightarrow> ieee80211_band \<Rightarrow> u8" where
  "wlcore_rate_to_idx wl rate band =
     (if hw_tx_rate_tbl_size wl \<le> unat rate then 0
      else let idx = band_rate_to_idx wl band (unat rate)
        in if idx = CONF_HW_RXTX_RATE_UNSUPPORTED then 0 else idx)"

definition wl1271_tx_get_rate_flags :: "u8 \<Rightarrow> u8" where
  "wl1271_tx_get_rate_flags rate_class_index =
     (if rate_class_index \<le> 8 then IEEE80211_TX_RC_MCS else 0)
     OR (if rate_class_index = 0 then IEEE80211_TX_RC_SHORT_GI else 0)"

text \<open>
  The status written into the packet's control block. The rate needs the interface's band; the code
  follows \<open>info->control.vif\<close> without checking it.
\<close>

definition tx_result_info ::
  "wl1271 \<Rightarrow> ieee80211_band \<Rightarrow> wl1271_tx_hw_res_descr \<Rightarrow> ieee80211_tx_info \<Rightarrow> ieee80211_tx_info" where
  "tx_result_info wl band r info =
     (let success = (res_status r = TX_SUCCESS);
          info1 = (if success \<and> IEEE80211_TX_CTL_NO_ACK \<notin> ti_flags info
                   then info\<lparr>ti_flags := insert IEEE80211_TX_STAT_ACK (ti_flags info)\<rparr> else info)
      in info1\<lparr>st_rate_idx := (if success then int (unat (wlcore_rate_to_idx wl (res_rate_class r) band)) else -1),
               st_rate_count := (if success \<or> res_status r = TX_RETRY_EXCEEDED then res_ack_failures r else 0),
               st_rate_flags := (if success then wl1271_tx_get_rate_flags (res_rate_class r) else 0),
               st_ack_signal := -1\<rparr>)"

definition key_counts_seq :: "ieee80211_key_conf option \<Rightarrow> bool" where
  "key_counts_seq key =
     (case key of
        Some k \<Rightarrow> cipher k = WLAN_CIPHER_SUITE_TKIP \<or> cipher k = WLAN_CIPHER_SUITE_CCMP
                  \<or> cipher k = WL1271_CIPHER_SUITE_GEM
      | None \<Rightarrow> False)"

text \<open>The low byte of the firmware's sequence number extends the driver's 64-bit counter.\<close>

definition update_security_seq :: "u8 \<Rightarrow> wl12xx_vif \<Rightarrow> wl12xx_vif" where
  "update_security_seq fw_lsb vf =
     vf\<lparr>tx_security_seq := tx_security_seq vf + ucast (fw_lsb - tx_security_last_seq_lsb vf),
        tx_security_last_seq_lsb := fw_lsb\<rparr>"

text \<open>The status, the counters and the sequence number.\<close>

definition tx_apply_result :: "wl1271_tx_hw_res_descr \<Rightarrow> skb_ptr \<Rightarrow> wl1271 \<Rightarrow> wl1271" where
  "tx_apply_result r p wl =
     (let info = skb_info (skbs wl p);
          uses_vif = (res_status r = TX_SUCCESS \<or> key_counts_seq (ti_hw_key info));
          v = (case ti_vif info of Some v \<Rightarrow> v | None \<Rightarrow> 0);
          wl1 = (if ti_vif info = None \<and> uses_vif then emit C_oops wl else wl);
          wl2 = (if res_status r = TX_RETRY_EXCEEDED
                 then wl1\<lparr>stats_excessive_retries := stats_excessive_retries wl1 + 1\<rparr> else wl1);
          wl3 = upd_skb p (\<lambda>s. s\<lparr>skb_info := tx_result_info wl2 (vif_band (vifs wl2 v)) r (skb_info s)\<rparr>) wl2;
          wl4 = wl3\<lparr>stats_retry_count := stats_retry_count wl3 + ucast (res_ack_failures r)\<rparr>
      in if key_counts_seq (ti_hw_key info)
         then upd_vif v (update_security_seq (res_seq_lsb r)) wl4 else wl4)"

definition wl1271_tx_complete_packet :: "wl1271_tx_hw_res_descr \<Rightarrow> wl1271 \<Rightarrow> wl1271" where
  "wl1271_tx_complete_packet r wl =
     (let i = unat (res_id r)
      in if num_tx_desc wl \<le> i then wl
         else case tx_frames wl i of
           None \<Rightarrow> wl
         | Some p \<Rightarrow>
             if wl12xx_is_dummy_packet wl p then wl1271_free_tx_id wl i
             else wl1271_free_tx_id
                    (queue_deferred_tx (remove_tx_headers (tx_apply_result r p wl) p) p) i)"

definition tx_complete_one :: "bytes \<Rightarrow> wl1271 \<Rightarrow> wl1271" where
  "tx_complete_one res_if wl =
     (let off = unat (tx_results_count wl AND 0xf);
          wl1 = wl1271_tx_complete_packet (res_descr_at (8 + 16 * off) res_if) wl
      in wl1\<lparr>tx_results_count := tx_results_count wl1 + 1\<rparr>)"

definition wlcore_tx_complete :: "wl_env \<Rightarrow> wl1271 \<Rightarrow> unit res \<times> wl1271" where
  "wlcore_tx_complete env wl =
     and_then (wlcore_read env wl (mem_map_tx_result wl) (8 + 16 * TX_HW_RESULT_QUEUE_LEN) False) (\<lambda>res_if wl1.
       let fw_counter = get_le32 0 res_if
       in and_then (wlcore_write32 env wl1 (mem_map_tx_result wl1 + 4) fw_counter) (\<lambda>_ wl2.
            let count = fw_counter - tx_results_count wl2
            in (Inr (), (tx_complete_one res_if ^^ unat count) wl2)))"

section \<open>Handing packets to the network stack\<close>

definition wl1271_flush_deferred_work :: "wl1271 \<Rightarrow> wl1271" where
  "wl1271_flush_deferred_work wl =
     (let wl1 = fold (\<lambda>p. emit (C_rx p)) (deferred_rx_queue wl) (wl\<lparr>deferred_rx_queue := []\<rparr>)
      in fold (\<lambda>p. emit (C_tx_status p)) (deferred_tx_queue wl1) (wl1\<lparr>deferred_tx_queue := []\<rparr>))"

text \<open>
  The work repeats until the receive queue is empty. The model runs one handler at a time, so nothing
  is queued meanwhile and one round empties it.
\<close>

definition wl1271_netstack_work :: "wl1271 \<Rightarrow> wl1271" where
  "wl1271_netstack_work wl = wl1271_flush_deferred_work wl"

section \<open>Dropping everything\<close>

definition wl1271_free_sta :: "wl1271 \<Rightarrow> vif_ptr \<Rightarrow> nat \<Rightarrow> wl1271" where
  "wl1271_free_sta wl v hlid =
     (if hlid \<notin> ap_sta_hlid_map (vifs wl v) then wl
      else
        let wl1 = upd_vif v (\<lambda>vf. vf\<lparr>ap_sta_hlid_map := ap_sta_hlid_map vf - {hlid}\<rparr>) wl;
            wl2 = upd_link hlid (\<lambda>l. l\<lparr>lnk_addr := replicate 6 0, lnk_ba_bitmap := 0\<rparr>) wl1;
            wl3 = wl2\<lparr>ap_ps_map := ap_ps_map wl2 - {hlid}, ap_fw_ps_map := unset_bit hlid (ap_fw_ps_map wl2)\<rparr>;
            wl4 = wl12xx_free_link wl3 v hlid;
            wl5 = wl4\<lparr>active_sta_count := active_sta_count wl4 - 1\<rparr>
        in if active_sta_count wl5 = 0 then wl12xx_rearm_tx_watchdog_locked wl5 else wl5)"

definition tx_reset_wlvif_link :: "vif_ptr \<Rightarrow> nat \<Rightarrow> wl1271 \<Rightarrow> wl1271" where
  "tx_reset_wlvif_link v i wl =
     (let wl1 = (if vif_bss_type (vifs wl v) = BSS_TYPE_AP_BSS then wl1271_free_sta wl v i
                 else upd_vif v (\<lambda>vf. vf\<lparr>sta_ba_rx_bitmap := 0\<rparr>) wl)
      in upd_link i (\<lambda>l. l\<lparr>allocated_pkts := 0, prev_freed_pkts := 0\<rparr>) wl1)"

text \<open>
  \<open>for_each_set_bit\<close> looks at the bitmap again at each step; a link the loop has not reached yet is
  still set, since only the visited link is cleared.
\<close>

definition wl12xx_tx_reset_wlvif :: "wl1271 \<Rightarrow> vif_ptr \<Rightarrow> wl1271" where
  "wl12xx_tx_reset_wlvif wl v =
     upd_vif v (\<lambda>vf. vf\<lparr>last_tx_hlid := 0\<rparr>)
       (fold (tx_reset_wlvif_link v) (set_bits_upto (vif_links_map (vifs wl v)) WL12XX_MAX_LINKS) wl)"

definition tx_reset_frame :: "nat \<Rightarrow> wl1271 \<Rightarrow> wl1271" where
  "tx_reset_frame i wl =
     (case tx_frames wl i of
        None \<Rightarrow> wl
      | Some p \<Rightarrow>
          let wl1 = wl1271_free_tx_id wl i
          in if wl12xx_is_dummy_packet wl1 p then wl1
             else emit (C_tx_status p)
                    (upd_skb p (\<lambda>s. s\<lparr>skb_info := status_failed (skb_info s)\<rparr>) (remove_tx_headers wl1 p)))"

definition tx_reset_queues :: "wl1271 \<Rightarrow> wl1271" where
  "tx_reset_queues wl =
     (if wl1271_tx_total_queue_count wl \<noteq> 0 then
        (let w = fold (\<lambda>i w. wl1271_tx_reset_link_queues w i) [0..<WL12XX_MAX_LINKS] (emit C_warn wl)
         in w\<lparr>tx_queue_count := (\<lambda>i. if i < NUM_TX_QUEUES then 0 else tx_queue_count w i)\<rparr>)
      else wl)"

definition wl12xx_tx_reset :: "wl1271 \<Rightarrow> wl1271" where
  "wl12xx_tx_reset wl =
     (let wl1 = wl1271_handle_tx_low_watermark (tx_reset_queues wl)
      in fold tx_reset_frame [0..<num_tx_desc wl1] wl1)"

section \<open>Flushing\<close>

text \<open>
  Flushing gives the driver up to 500 ms to send what it holds: it runs the transmit work itself and
  sleeps 20 ms at a time without the mutex, while the other handlers run. What they do in the
  \<open>n\<close>-th sleep is the argument \<open>others n\<close>. Whatever is left in the queues then is dropped.
\<close>

abbreviation (input) WL1271_TX_FLUSH_TIMEOUT_ms :: nat where "WL1271_TX_FLUSH_TIMEOUT_ms \<equiv> 500"

definition tx_drained :: "wl1271 \<Rightarrow> bool" where
  "tx_drained wl \<longleftrightarrow> tx_frames_cnt wl = 0 \<and> wl1271_tx_total_queue_count wl = 0"

function tx_flush_loop ::
  "wlcore_ops \<Rightarrow> wl_env \<Rightarrow> (nat \<Rightarrow> wl1271 \<Rightarrow> wl1271) \<Rightarrow> nat \<Rightarrow> nat \<Rightarrow> wl1271 \<Rightarrow> (bool \<times> wl1271) option" where
  "tx_flush_loop ops env others n elapsed wl =
     (if WL1271_TX_FLUSH_TIMEOUT_ms < elapsed then Some (False, wl)
      else case (if wl1271_tx_total_queue_count wl \<noteq> 0 then wl1271_tx_work ops env wl else Some wl) of
             None \<Rightarrow> None
           | Some wl1 \<Rightarrow>
               let wl2 = others n (emit C_delay wl1);
                   elapsed' = elapsed + 20 + e_delay_ms env (log wl2)
               in if tx_drained wl2 then Some (True, wl2)
                  else tx_flush_loop ops env others (n + 1) elapsed' wl2)"
  by pat_completeness auto

termination
  by (relation "measure (\<lambda>(ops, env, others, n, elapsed, wl). WL1271_TX_FLUSH_TIMEOUT_ms + 1 - elapsed)") auto

declare tx_flush_loop.simps [simp del]

definition wl1271_tx_flush ::
  "wlcore_ops \<Rightarrow> wl_env \<Rightarrow> (nat \<Rightarrow> wl1271 \<Rightarrow> wl1271) \<Rightarrow> wl1271 \<Rightarrow> wl1271 option" where
  "wl1271_tx_flush ops env others wl =
     (if tx_drained wl then Some wl
      else case tx_flush_loop ops env others 0 (e_delay_ms env (log wl))
                  (wlcore_stop_queues wl WLCORE_QUEUE_STOP_REASON_FLUSH) of
             None \<Rightarrow> None
           | Some (flushed, wl1) \<Rightarrow>
               let wl2 = (if flushed then wl1
                          else fold (\<lambda>i w. wl1271_tx_reset_link_queues w i) [0..<WL12XX_MAX_LINKS] wl1)
               in Some (wlcore_wake_queues wl2 WLCORE_QUEUE_STOP_REASON_FLUSH))"

section \<open>Completed packets stay accounted for\<close>

lemma quiet_step_remove_headers: "quiet_step wl (remove_tx_headers wl p)"
proof -
  let ?wl1 = "upd_skb p (skb_pull TX_DESC_LEN) wl"
  have q: "quiet_step wl ?wl1" by (rule quiet_step_skb) simp
  moreover have "quiet_step wl (upd_skb p (\<lambda>s. skb_pull WL1271_EXTRA_SPACE_TKIP
       (skb_write WL1271_EXTRA_SPACE_TKIP (buf_read 0 (ieee80211_get_hdrlen_from_skb s) (skb_bytes s)) s)) ?wl1)"
    by (rule quiet_step_trans [OF q quiet_step_skb]) (simp add: skb_write_def)
  ultimately show ?thesis by (simp add: remove_tx_headers_def Let_def)
qed

lemma quiet_step_stats:
  "quiet_step wl (wl\<lparr>stats_retry_count := a\<rparr>)" "quiet_step wl (wl\<lparr>stats_excessive_retries := b\<rparr>)"
  "quiet_step wl (wl\<lparr>tx_results_count := c\<rparr>)"
  by (rule quiet_stepI [where l = "[]"]; simp)+

lemma free_id_progress:
  assumes ok: "tx_ok wl" and i: "i < num_tx_desc wl" "tx_frames wl i = Some p"
    and d: "p = dummy_packet wl"
  shows "tx_progress wl (wl1271_free_tx_id wl i)"
proof -
  let ?w = "wl1271_free_tx_id wl i"
  have ids: "ids_ok wl" using ok by (simp add: tx_ok_def)
  note fa = free_tx_id_accounts [OF ids, of i] and ff = free_tx_id_frame [of wl i]
  have "in_flight wl = add_mset p (in_flight ?w)" using fa(2) [OF i(1)] i(2) by simp
  then have o: "owned ?w = owned wl" using ff d by (simp add: owned_def)
  have "aggr_buf_size ?w = aggr_buf_size wl" "wl_state ?w = wl_state wl"
    "WL1271_FLAG_DUMMY_PACKET_PENDING \<in> wl_flags ?w \<longleftrightarrow> WL1271_FLAG_DUMMY_PACKET_PENDING \<in> wl_flags wl"
    by (auto simp: wl1271_free_tx_id_def Let_def clear_flag_def)
  then show ?thesis
    using ok o fa(1) ff by (simp add: tx_progress_def tx_ok_def accounted_def backlog_def)
qed

text \<open>A packet moves from its descriptor to the queue of packets to hand back.\<close>

lemma deferred_free_progress:
  assumes ok: "tx_ok wl" and i: "i < num_tx_desc wl" "tx_frames wl i = Some p"
    and d: "p \<noteq> dummy_packet wl"
  shows "tx_progress wl (wl1271_free_tx_id (queue_deferred_tx wl p) i)"
proof -
  define w where "w = queue_deferred_tx wl p"
  let ?w = "wl1271_free_tx_id w i"
  have w: "queue_ok w = queue_ok wl" "queued w = queued wl"
    by (rule queue_ok_cong; simp add: w_def queue_deferred_tx_def emit_def skb_ac_def)+
  have f: "in_flight w = in_flight wl" "links_ok w = links_ok wl" "ids_ok w = ids_ok wl"
    "returned w = returned wl" "deferred_tx_queue w = deferred_tx_queue wl @ [p]"
    "dummy_packet w = dummy_packet wl" "tx_frames w = tx_frames wl" "num_tx_desc w = num_tx_desc wl"
    "wl_flags w = wl_flags wl" "wl_state w = wl_state wl" "aggr_buf_size w = aggr_buf_size wl"
    by (simp_all add: w_def queue_deferred_tx_def emit_def in_flight_def links_ok_def ids_ok_def returned_def)
  have sv: "stop_view_ok w = stop_view_ok wl"
    by (simp add: w_def queue_deferred_tx_def emit_def stop_view_ok_def wlcore_is_queue_stopped_def)
  have ids: "ids_ok w" using ok f(3) by (simp add: tx_ok_def)
  note fa = free_tx_id_accounts [OF ids, of i] and ff = free_tx_id_frame [of w i]
  have "in_flight wl = add_mset p (in_flight ?w)" using fa(2) i f by simp
  then have o: "owned ?w = owned wl" using ff f d w by (simp add: owned_def)
  have "aggr_buf_size ?w = aggr_buf_size wl" "wl_state ?w = wl_state wl"
    "WL1271_FLAG_DUMMY_PACKET_PENDING \<in> wl_flags ?w \<longleftrightarrow> WL1271_FLAG_DUMMY_PACKET_PENDING \<in> wl_flags wl"
    using f by (auto simp: wl1271_free_tx_id_def Let_def clear_flag_def)
  then show ?thesis
    using ok o fa(1) ff w f sv unfolding w_def [symmetric]
    by (simp add: tx_progress_def tx_ok_def accounted_def backlog_def)
qed

lemma quiet_deferred_free_progress:
  assumes ok: "tx_ok wl" and i: "i < num_tx_desc wl" "tx_frames wl i = Some p" "p \<noteq> dummy_packet wl"
    and q: "quiet_step wl w"
  shows "tx_progress wl (wl1271_free_tx_id (queue_deferred_tx w p) i)"
proof -
  have ok': "tx_ok w" using quiet_step_accounts(10) [OF q] ok by simp
  have "i < num_tx_desc w" "tx_frames w i = Some p" "p \<noteq> dummy_packet w"
    using i q by (simp_all add: quiet_step_def)
  then show ?thesis
    by (rule tx_progress_trans [OF quiet_tx_progress [OF q ok] deferred_free_progress [OF ok']])
qed

lemma quiet_step_apply_result: "quiet_step wl (tx_apply_result r p wl)"
proof -
  define info where "info = skb_info (skbs wl p)"
  define v where "v = (case ti_vif info of Some v \<Rightarrow> v | None \<Rightarrow> 0)"
  define wl1 where "wl1 = (if ti_vif info = None \<and> (res_status r = TX_SUCCESS \<or> key_counts_seq (ti_hw_key info))
      then emit C_oops wl else wl)"
  define wl2 where "wl2 = (if res_status r = TX_RETRY_EXCEEDED
      then wl1\<lparr>stats_excessive_retries := stats_excessive_retries wl1 + 1\<rparr> else wl1)"
  define wl3 where "wl3 = upd_skb p (\<lambda>s. s\<lparr>skb_info := tx_result_info wl2 (vif_band (vifs wl2 v)) r (skb_info s)\<rparr>) wl2"
  define wl4 where "wl4 = wl3\<lparr>stats_retry_count := stats_retry_count wl3 + ucast (res_ack_failures r)\<rparr>"
  have "quiet_step wl wl1" by (simp add: wl1_def quiet_step_emit)
  also have "quiet_step wl1 wl2" by (simp add: wl2_def quiet_step_stats)
  also have "quiet_step wl2 wl3" unfolding wl3_def by (rule quiet_step_skb) simp
  also have "quiet_step wl3 wl4" unfolding wl4_def by (rule quiet_step_stats)
  finally have q4: "quiet_step wl wl4" .
  moreover have "quiet_step wl (upd_vif v (update_security_seq x) wl4)" for x
    by (rule quiet_step_trans [OF q4 quiet_step_vif]) (simp add: update_security_seq_def)
  ultimately show ?thesis
    unfolding tx_apply_result_def Let_def info_def [symmetric] v_def [symmetric] wl1_def [symmetric]
      wl2_def [symmetric] wl3_def [symmetric] wl4_def [symmetric]
    by simp
qed

lemma complete_packet_progress:
  assumes ok: "tx_ok wl"
  shows "tx_progress wl (wl1271_tx_complete_packet r wl)"
proof -
  have q: "quiet_step wl (remove_tx_headers (tx_apply_result r p wl) p)" for p
    by (rule quiet_step_trans [OF quiet_step_apply_result quiet_step_remove_headers])
  show ?thesis
    using free_id_progress [OF ok] quiet_deferred_free_progress [OF ok _ _ _ q]
    by (simp add: wl1271_tx_complete_packet_def Let_def wl12xx_is_dummy_packet_def tx_progress_refl ok
        not_le split: option.split)
qed

lemma complete_one_progress: "tx_ok wl \<Longrightarrow> tx_progress wl (tx_complete_one b wl)"
proof -
  assume ok: "tx_ok wl"
  let ?w = "wl1271_tx_complete_packet (res_descr_at (8 + 16 * unat (tx_results_count wl AND 0xf)) b) wl"
  have p: "tx_progress wl ?w" by (rule complete_packet_progress [OF ok])
  then have "tx_ok ?w" by (simp add: tx_progress_def)
  then show ?thesis
    unfolding tx_complete_one_def Let_def
    by (rule tx_progress_trans [OF p quiet_tx_progress [OF quiet_step_stats(3)]])
qed

lemma funpow_progress:
  assumes "\<And>w. tx_ok w \<Longrightarrow> tx_progress w (f w)"
  shows "tx_ok wl \<Longrightarrow> tx_progress wl ((f ^^ n) wl)"
proof (induction n)
  case (Suc n)
  then have p: "tx_progress wl ((f ^^ n) wl)" by simp
  then have "tx_ok ((f ^^ n) wl)" by (simp add: tx_progress_def)
  then show ?case using tx_progress_trans [OF p assms] by simp
qed (simp add: tx_progress_refl)

lemma tx_complete_progress:
  assumes "tx_ok wl"
  shows "tx_progress wl (snd (wlcore_tx_complete env wl))"
  unfolding wlcore_tx_complete_def Let_def
  by (intro and_then_progress)
    (simp_all add: assms io_progress io_step_read io_step_write32 funpow_progress complete_one_progress)

lemma drain_progress:
  assumes "drain_step X wl wl'" and "tx_ok wl"
  shows "tx_progress wl wl'"
proof -
  note d = assms(1) [unfolded drain_step_def, rule_format, OF assms(2)]
  then have "size (queued wl') \<le> size (queued wl)" using size_mset_mono by blast
  with d show ?thesis by (simp add: tx_progress_def backlog_def)
qed

lemma reset_link_progress: "h < WL12XX_MAX_LINKS \<Longrightarrow> tx_ok wl \<Longrightarrow> tx_progress wl (wl1271_tx_reset_link_queues wl h)"
  by (rule drain_progress [OF drain_step_reset [of h UNIV]])

lemma fold_emit: "fold (\<lambda>p. emit (f p)) ps wl = wl\<lparr>log := log wl @ map f ps\<rparr>"
  by (induction ps arbitrary: wl) (simp_all add: emit_def)

lemma netstack_progress:
  assumes "tx_ok wl"
  shows "tx_progress wl (wl1271_netstack_work wl)"
    and "deferred_tx_queue (wl1271_netstack_work wl) = []" and "deferred_rx_queue (wl1271_netstack_work wl) = []"
    and "returned (wl1271_netstack_work wl) = returned wl + mset (deferred_tx_queue wl)"
proof -
  define w where "w = wl1271_netstack_work wl"
  have w: "w = wl\<lparr>deferred_rx_queue := [], deferred_tx_queue := [],
      log := log wl @ map C_rx (deferred_rx_queue wl) @ map C_tx_status (deferred_tx_queue wl)\<rparr>"
    by (simp add: w_def wl1271_netstack_work_def wl1271_flush_deferred_work_def Let_def fold_emit)
  have "(\<Sum>c\<leftarrow>map C_rx ps. returned_by c) = {#}" for ps by (induction ps) simp_all
  moreover have "(\<Sum>c\<leftarrow>map C_tx_status ps. returned_by c) = mset ps" for ps by (induction ps) simp_all
  ultimately have r: "returned w = returned wl + mset (deferred_tx_queue wl)" by (simp add: w returned_def)
  have q: "queue_ok w = queue_ok wl" "queued w = queued wl"
    by (rule queue_ok_cong; simp add: w skb_ac_def)+
  have f: "in_flight w = in_flight wl" "links_ok w = links_ok wl" "ids_ok w = ids_ok wl"
    by (simp_all add: w in_flight_def links_ok_def ids_ok_def)
  have o: "owned wl = owned w + mset (deferred_tx_queue wl)"
    using q(2) f(1) by (simp add: owned_def) (simp add: w)
  have sv: "stop_view_ok w = stop_view_ok wl"
    using mac_stopped_other [of "map C_rx (deferred_rx_queue wl) @ map C_tx_status (deferred_tx_queue wl)" "log wl"]
    by (auto simp: w stop_view_ok_def wlcore_is_queue_stopped_def)
  show "tx_progress wl (wl1271_netstack_work wl)"
    using assms q f o r sv unfolding w_def [symmetric] tx_progress_def
    by (simp add: tx_ok_def accounted_def backlog_def) (simp add: w)
  show "deferred_tx_queue (wl1271_netstack_work wl) = []" "deferred_rx_queue (wl1271_netstack_work wl) = []"
    unfolding w_def [symmetric] by (simp_all add: w)
  show "returned (wl1271_netstack_work wl) = returned wl + mset (deferred_tx_queue wl)"
    using r by (simp add: w_def)
qed

section \<open>Dropping everything\<close>

lemma reset_link_empties: "q < NUM_TX_QUEUES \<Longrightarrow>
  tx_queue (links (wl1271_tx_reset_link_queues wl h) g) q = (if g = h then [] else tx_queue (links wl g) q)"
  by (rule reset_link_shape [of wl h]) (simp add: emptied_def)

lemma reset_links_upto:
  assumes "tx_ok wl" and "n \<le> WL12XX_MAX_LINKS"
    and "wl' = fold (\<lambda>i w. wl1271_tx_reset_link_queues w i) [0..<n] wl"
  shows "tx_progress wl wl' \<and> deferred_tx_queue wl' = deferred_tx_queue wl \<and> in_flight wl' = in_flight wl
     \<and> num_tx_desc wl' = num_tx_desc wl
     \<and> (\<forall>g<n. \<forall>q<NUM_TX_QUEUES. tx_queue (links wl' g) q = [])"
  using assms(2,3)
proof (induction n arbitrary: wl')
  case 0
  then show ?case using assms(1) by (simp add: tx_progress_refl)
next
  case (Suc n)
  define w where "w = fold (\<lambda>i w. wl1271_tx_reset_link_queues w i) [0..<n] wl"
  have ih: "tx_progress wl w" "deferred_tx_queue w = deferred_tx_queue wl" "in_flight w = in_flight wl"
    "num_tx_desc w = num_tx_desc wl"
    "\<And>g q. g < n \<Longrightarrow> q < NUM_TX_QUEUES \<Longrightarrow> tx_queue (links w g) q = []"
    using Suc.IH [of w] Suc.prems by (simp_all add: w_def)
  have ok: "tx_ok w" using ih(1) by (simp add: tx_progress_def)
  have wl': "wl' = wl1271_tx_reset_link_queues w n" using Suc.prems by (simp add: w_def)
  have "tx_progress wl wl'"
    unfolding wl' by (rule tx_progress_trans [OF ih(1) reset_link_progress [OF _ ok]]) (use Suc.prems in simp)
  then show ?case
    using ih by (auto simp: wl' reset_link_empties in_flight_def less_Suc_eq)
qed

lemma queued_empty: "(\<And>g q. g < WL12XX_MAX_LINKS \<Longrightarrow> q < NUM_TX_QUEUES \<Longrightarrow> tx_queue (links wl g) q = []) \<Longrightarrow> queued wl = {#}"
  by (simp add: queued_def)

lemma total_count_zero:
  assumes "queue_ok wl" and "wl1271_tx_total_queue_count wl = 0"
  shows "queued wl = {#}" and "q < NUM_TX_QUEUES \<Longrightarrow> tx_queue_count wl q = 0"
    and "WL1271_FLAG_DUMMY_PACKET_PENDING \<notin> wl_flags wl"
proof -
  have c: "tx_queue_count wl q = int (queue_total wl q + dummy_count wl q)" if "q < NUM_TX_QUEUES" for q
    using assms(1) that by (simp add: queue_ok_def counts_ok_def)
  have "(\<Sum>i\<leftarrow>[0, 1, 2, 3]. tx_queue_count wl i) = 0"
    using assms(2) by (simp only: wl1271_tx_total_queue_count_def upt_4)
  then have z: "queue_total wl q = 0 \<and> dummy_count wl q = 0" if "q < NUM_TX_QUEUES" for q
    using c [of 0] c [of 1] c [of 2] c [of 3] less_4_cases [OF that] by auto
  have "tx_queue (links wl g) q = []" if "g < WL12XX_MAX_LINKS" "q < NUM_TX_QUEUES" for g q
    using z [OF that(2)] queue_total_ge [OF that(1), of wl q] by simp
  then show "queued wl = {#}" by (rule queued_empty)
  show "q < NUM_TX_QUEUES \<Longrightarrow> tx_queue_count wl q = 0" using c z by simp
  show "WL1271_FLAG_DUMMY_PACKET_PENDING \<notin> wl_flags wl"
    using z [of "skb_ac wl (dummy_packet wl)"] by (simp add: dummy_count_def split: if_splits)
qed

abbreviation (input) not_dummy :: "wl1271 \<Rightarrow> skb_ptr multiset \<Rightarrow> skb_ptr multiset" where
  "not_dummy wl \<equiv> filter_mset (\<lambda>p. p \<noteq> dummy_packet wl)"

definition reset_frames_step :: "wl1271 \<Rightarrow> wl1271 \<Rightarrow> bool" where
  "reset_frames_step wl wl' \<longleftrightarrow> ids_ok wl' \<and> num_tx_desc wl' = num_tx_desc wl \<and> dummy_packet wl' = dummy_packet wl
     \<and> queued wl' = queued wl \<and> tx_queue_count wl' = tx_queue_count wl \<and> deferred_tx_queue wl' = deferred_tx_queue wl
     \<and> not_dummy wl (in_flight wl') + returned wl' = not_dummy wl (in_flight wl) + returned wl"

lemma tx_reset_frame_step:
  assumes "ids_ok wl" and i: "i < num_tx_desc wl" and w: "w = tx_reset_frame i wl"
  shows "reset_frames_step wl w" and "tx_frames w = (tx_frames wl)(i := None)"
proof -
  have "reset_frames_step wl w \<and> tx_frames w = (tx_frames wl)(i := None)"
  proof (cases "tx_frames wl i")
    case None
    then show ?thesis using assms by (auto simp: tx_reset_frame_def reset_frames_step_def)
  next
    case (Some p)
    define w1 where "w1 = wl1271_free_tx_id wl i"
    define w2 where "w2 = upd_skb p (\<lambda>s. s\<lparr>skb_info := status_failed (skb_info s)\<rparr>) (remove_tx_headers w1 p)"
    have q: "quiet_step w1 w2"
      unfolding w2_def by (rule quiet_step_trans [OF quiet_step_remove_headers quiet_step_skb]) simp
    note qa = quiet_step_accounts [OF q]
    note fa = free_tx_id_accounts(1) [OF assms(1), of i, folded w1_def] and ff = free_tx_id_frame [of wl i, folded w1_def]
    have m: "i \<in> tx_frames_map wl" using assms(1) i Some by (simp add: ids_ok_def)
    then have f1: "tx_frames w1 = (tx_frames wl)(i := None)" "num_tx_desc w1 = num_tx_desc wl"
      "tx_queue_count w1 = tx_queue_count wl"
      by (simp_all add: w1_def wl1271_free_tx_id_def Let_def clear_flag_def)
    have fl: "in_flight wl = add_mset p (in_flight w1)" using free_tx_id_accounts(2) [OF assms(1) i] Some by (simp add: w1_def)
    show ?thesis
    proof (cases "wl12xx_is_dummy_packet w1 p")
      case True
      then have ww: "w = w1" using Some by (simp add: w tx_reset_frame_def w1_def)
      have "p = dummy_packet wl" using True ff(8) by (simp add: wl12xx_is_dummy_packet_def)
      then show ?thesis unfolding ww using fa f1 ff fl by (simp add: reset_frames_step_def)
    next
      case False
      then have w: "w = emit (C_tx_status p) w2" using Some by (simp add: w tx_reset_frame_def w1_def w2_def)
      have "p \<noteq> dummy_packet wl" using False ff(8) by (simp add: wl12xx_is_dummy_packet_def)
      moreover have "ids_ok w = ids_ok w2" "in_flight w = in_flight w2" "queued w = queued w2"
        "tx_frames w = tx_frames w2" "num_tx_desc w = num_tx_desc w2" "dummy_packet w = dummy_packet w2"
        "tx_queue_count w = tx_queue_count w2" "deferred_tx_queue w = deferred_tx_queue w2"
        by (simp_all add: w) (simp_all add: emit_def ids_ok_def in_flight_def)
      moreover have "returned w = add_mset p (returned wl)" using qa(3) ff(4) by (simp add: w)
      ultimately show ?thesis
        using fa f1 ff fl qa(2,6,7) q by (simp add: reset_frames_step_def quiet_step_def)
    qed
  qed
  then show "reset_frames_step wl w" and "tx_frames w = (tx_frames wl)(i := None)" by blast+
qed

lemma tx_reset_frames:
  assumes "ids_ok wl" and "n \<le> num_tx_desc wl" and "wl' = fold tx_reset_frame [0..<n] wl"
  shows "reset_frames_step wl wl' \<and> (\<forall>i<n. tx_frames wl' i = None)"
  using assms(2,3)
proof (induction n arbitrary: wl')
  case 0
  then show ?case using assms(1) by (simp add: reset_frames_step_def)
next
  case (Suc n)
  define w where "w = fold tx_reset_frame [0..<n] wl"
  have ih: "reset_frames_step wl w" "\<And>i. i < n \<Longrightarrow> tx_frames w i = None"
    using Suc.IH [of w] Suc.prems by (simp_all add: w_def)
  have "ids_ok w" "n < num_tx_desc w" using ih(1) Suc.prems by (simp_all add: reset_frames_step_def)
  note s = tx_reset_frame_step [OF this, of wl'] 
  have "wl' = tx_reset_frame n w" using Suc.prems by (simp add: w_def)
  from s [OF this] ih show ?case by (auto simp: reset_frames_step_def less_Suc_eq)
qed

lemma in_flight_none:
  assumes "ids_ok wl" and "\<And>i. i < num_tx_desc wl \<Longrightarrow> tx_frames wl i = None"
  shows "in_flight wl = {#}" and "tx_frames_cnt wl = 0"
proof -
  show "in_flight wl = {#}" using assms(2) by (simp add: in_flight_def)
  have "tx_frames_map wl = {}" using assms unfolding ids_ok_def by fastforce
  then show "tx_frames_cnt wl = 0" using assms(1) by (simp add: ids_ok_def)
qed

lemma tx_reset_queues_empty:
  assumes ok: "tx_ok wl" and w: "w = tx_reset_queues wl"
  shows "queued w = {#} \<and> ids_ok w \<and> in_flight w = in_flight wl \<and> dummy_packet w = dummy_packet wl
     \<and> (\<forall>q<NUM_TX_QUEUES. tx_queue_count w q = 0) \<and> deferred_tx_queue w = deferred_tx_queue wl
     \<and> accounted w = accounted wl"
proof (cases "wl1271_tx_total_queue_count wl = 0")
  case True
  have "queue_ok wl" "ids_ok wl" using ok by (simp_all add: tx_ok_def)
  with total_count_zero [OF _ True] show ?thesis by (simp add: w tx_reset_queues_def True)
next
  case False
  define w1 where "w1 = fold (\<lambda>i w. wl1271_tx_reset_link_queues w i) [0..<WL12XX_MAX_LINKS] (emit C_warn wl)"
  have q: "quiet_step wl (emit C_warn wl)" by (simp add: quiet_step_emit)
  have ok1: "tx_ok (emit C_warn wl)" using quiet_step_accounts(10) [OF q] ok by simp
  note r = reset_links_upto [OF ok1 order_refl w1_def]
  have ww: "w = w1\<lparr>tx_queue_count := (\<lambda>i. if i < NUM_TX_QUEUES then 0 else tx_queue_count w1 i)\<rparr>"
    unfolding w tx_reset_queues_def w1_def Let_def using False by (rule if_P)
  have qd: "queued w = {#}" using r by (intro queued_empty) (simp add: ww)
  have q1: "queued w1 = {#}" using r by (intro queued_empty) simp
  have e: "in_flight w = in_flight w1" "ids_ok w = ids_ok w1" "returned w = returned w1"
    by (simp_all add: ww in_flight_def ids_ok_def returned_def)
  have "owned w = owned w1" using qd q1 e(1) by (simp add: owned_def) (simp add: ww)
  then have "accounted w = accounted wl"
    using r e(3) quiet_step_accounts(9) [OF q] by (simp add: accounted_def tx_progress_def)
  moreover have "deferred_tx_queue w = deferred_tx_queue wl" "dummy_packet w = dummy_packet wl"
    using r by (simp_all add: ww tx_progress_def) (simp_all add: emit_def)
  ultimately show ?thesis
    using qd e r quiet_step_accounts(7) [OF q] by (simp add: tx_progress_def tx_ok_def) (simp add: ww)
qed

text \<open>
  C13: Resetting the transmit path hands every packet the driver holds in its queues or in the
  firmware back to mac80211, exactly once and without the driver's own dummy packet; the queues, the
  descriptors and the counters are empty afterwards. Packets that wait in the deferred queue stay
  there.
\<close>

theorem tx_reset_returns_all:
  assumes "tx_ok wl"
  shows "queued (wl12xx_tx_reset wl) = {#} \<and> in_flight (wl12xx_tx_reset wl) = {#}
     \<and> tx_frames_cnt (wl12xx_tx_reset wl) = 0
     \<and> (\<forall>q. q \<in> {0, 1, 2, 3} \<longrightarrow> tx_queue_count (wl12xx_tx_reset wl) q = 0)
     \<and> returned (wl12xx_tx_reset wl) = returned wl + not_dummy wl (queued wl + in_flight wl)
     \<and> deferred_tx_queue (wl12xx_tx_reset wl) = deferred_tx_queue wl"
proof -
  define w1 where "w1 = tx_reset_queues wl"
  define w2 where "w2 = wl1271_handle_tx_low_watermark w1"
  define w where "w = fold tx_reset_frame [0..<num_tx_desc w2] w2"
  have w: "wl12xx_tx_reset wl = w"
    by (simp add: wl12xx_tx_reset_def w_def w2_def w1_def Let_def)
  note r1 = tx_reset_queues_empty [OF assms w1_def]
  obtain r l where w2: "w2 = w1\<lparr>queue_stop_reasons := r, log := log w1 @ l\<rparr>"
    using stop_step_low_watermark [of w1] unfolding w2_def stop_step_def by blast
  have ret: "returned w2 = returned w1" unfolding w2_def by (rule stop_step_returned [OF stop_step_low_watermark])
  have e2: "queued w2 = {#}" "ids_ok w2" "in_flight w2 = in_flight wl" "tx_queue_count w2 = tx_queue_count w1"
    "deferred_tx_queue w2 = deferred_tx_queue wl" "dummy_packet w2 = dummy_packet wl"
  proof -
    show "queued w2 = {#}" using r1 by (simp add: w2_def)
    have "ids_ok w2 = ids_ok w1" "in_flight w2 = in_flight w1" by (simp_all add: w2 ids_ok_def in_flight_def)
    then show "ids_ok w2" "in_flight w2 = in_flight wl" using r1 by simp_all
  qed (use r1 in \<open>simp_all add: w2\<close>)
  have r3: "reset_frames_step w2 w" "\<forall>i<num_tx_desc w2. tx_frames w i = None"
    using tx_reset_frames [OF e2(2) order_refl w_def] by blast+
  then have none: "in_flight w = {#}" "tx_frames_cnt w = 0"
    using in_flight_none [of w] by (simp_all add: reset_frames_step_def)
  have "not_dummy wl (in_flight wl) + returned w1 = not_dummy wl (queued wl + in_flight wl) + returned wl"
  proof (rule multiset_eqI)
    fix x
    have "count (accounted w1) x = count (accounted wl) x" using r1 by simp
    then show "count (not_dummy wl (in_flight wl) + returned w1) x
        = count (not_dummy wl (queued wl + in_flight wl) + returned wl) x"
      using r1 by (simp add: accounted_def owned_def)
  qed
  then have "returned w = returned wl + not_dummy wl (queued wl + in_flight wl)"
    using r3(1) none e2 ret by (simp add: reset_frames_step_def union_commute)
  then show ?thesis
    unfolding w using r3(1) none e2 r1 by (auto simp: reset_frames_step_def)
qed

text \<open>The device of \<^const>\<open>demo_backlog\<close> with packet 7 and the dummy packet in the firmware.\<close>

definition demo_tx :: wl1271 where
  "demo_tx = demo_backlog\<lparr>tx_frames := (\<lambda>_. None)(0 := Some 7, 1 := Some 0), tx_frames_map := {0, 1},
     tx_frames_cnt := 2\<rparr>"

lemma demo_tx_facts:
  "tx_ok demo_tx" "queued demo_tx = add_mset 20 (mset [10..<17])" "in_flight demo_tx = {#0, 7#}"
  "returned demo_tx = {#}" "dummy_packet demo_tx = 0"
proof -
  have "queue_ok demo_tx = queue_ok demo_backlog" and qd: "queued demo_tx = queued demo_backlog"
    by (rule queue_ok_cong; simp add: demo_tx_def skb_ac_def)+
  then have "queue_ok demo_tx" using queue_ok_demo_backlog by simp
  show q: "queued demo_tx = add_mset 20 (mset [10..<17])"
    unfolding qd by (simp add: queued_def demo_backlog_def zeroed_defs lessThan_nat_numeral lessThan_Suc)
  have "links_ok demo_tx" "ids_ok demo_tx"
    by (auto simp: links_ok_def ids_ok_def demo_tx_def demo_backlog_def zeroed_defs)
  moreover show d: "dummy_packet demo_tx = 0" by (simp add: demo_tx_def demo_backlog_def zeroed_defs)
  ultimately show "tx_ok demo_tx" using \<open>queue_ok demo_tx\<close> by (simp add: tx_ok_def q d)
  show "in_flight demo_tx = {#0, 7#}"
    by (simp add: in_flight_def demo_tx_def demo_backlog_def zeroed_defs lessThan_nat_numeral lessThan_Suc)
  show "returned demo_tx = {#}" by (simp add: returned_def demo_tx_def demo_backlog_def zeroed_defs)
qed

theorem tx_reset_returns_all_witness:
  "returned (wl12xx_tx_reset demo_tx) = {#7, 20#} + mset [10..<17] \<and> tx_queue_count (wl12xx_tx_reset demo_tx) 3 = 0"
proof -
  have "filter_mset (\<lambda>p. p \<noteq> 0) (mset [10..<17]) = mset [10..<17]" by (simp add: upt_rec)
  then show ?thesis using tx_reset_returns_all [OF demo_tx_facts(1)] by (simp add: demo_tx_facts)
qed

section \<open>A flush empties the queues\<close>

text \<open>Other handlers that keep the accounts and the sizes of the frames.\<close>

definition benign :: "(nat \<Rightarrow> wl1271 \<Rightarrow> wl1271) \<Rightarrow> bool" where
  "benign others \<longleftrightarrow> (\<forall>n w. tx_ok w \<and> frames_fit w \<longrightarrow> tx_ok (others n w) \<and> frames_fit (others n w))"

lemma wake_queue_reasons:
  "queue_stop_reasons (wlcore_wake_queue wl i r) = (queue_stop_reasons wl)(i := queue_stop_reasons wl i - {r})"
  by (simp add: wlcore_wake_queue_def Let_def emit_def)

lemma wake_queues_clears: "q < NUM_TX_QUEUES \<Longrightarrow> r \<notin> queue_stop_reasons (wlcore_wake_queues wl r) q"
  unfolding wlcore_wake_queues_def
  by (drule less_4_cases) (auto simp: upt_4 wake_queue_reasons)

lemma stop_step_queues: "stop_step wl (wlcore_stop_queues wl r)" "stop_step wl (wlcore_wake_queues wl r)"
  unfolding wlcore_stop_queues_def wlcore_wake_queues_def
  by (rule fold_invariant_list; auto simp: wlcore_stop_queue_def intro: stop_step_trans stop_step_stop stop_step_wake)+

lemma stop_queues_progress: "tx_ok wl \<Longrightarrow> tx_progress wl (wlcore_stop_queues wl r)"
    "tx_ok wl \<Longrightarrow> tx_progress wl (wlcore_wake_queues wl r)"
  by (rule stop_step_progress;
      simp add: stop_step_queues stop_view_ok_stop_queues stop_view_ok_wake_queues)+

context chip_tx
begin

lemma tx_flush_loop_ends:
  assumes b: "benign others"
  shows "tx_ok wl \<Longrightarrow> frames_fit wl \<Longrightarrow>
    \<exists>b wl'. tx_flush_loop ops env others n t wl = Some (b, wl') \<and> tx_ok wl' \<and> (b \<longrightarrow> tx_drained wl')"
proof (induction "WL1271_TX_FLUSH_TIMEOUT_ms + 1 - t" arbitrary: n t wl rule: less_induct)
  case less
  let ?m = "if wl1271_tx_total_queue_count wl \<noteq> 0 then wl1271_tx_work ops env wl else Some wl"
  obtain wl1 where wl1: "?m = Some wl1" "tx_ok wl1" "frames_fit wl1"
  proof (cases "wl1271_tx_total_queue_count wl \<noteq> 0")
    case True
    obtain w where w: "wl1271_tx_work ops env wl = Some w" using tx_work_ends [OF less.prems] by blast
    show thesis
      using that [of w] True w tx_work_fits [OF w less.prems] tx_work_progress [OF w less.prems(1)]
      by (simp add: tx_progress_def)
  qed (use that less.prems in simp)
  have "quiet_step wl1 (emit C_delay wl1)" by (simp add: quiet_step_emit)
  then have e: "tx_ok (emit C_delay wl1)" "frames_fit (emit C_delay wl1)"
    using quiet_step_accounts(10) frames_fit_quiet wl1(2,3) by (simp_all add: emit_def)
  define wl2 where "wl2 = others n (emit C_delay wl1)"
  have ok2: "tx_ok wl2" "frames_fit wl2" using b e by (auto simp: benign_def wl2_def)
  define t' where "t' = t + 20 + e_delay_ms env (log wl2)"
  have unf: "tx_flush_loop ops env others n t wl =
      (if WL1271_TX_FLUSH_TIMEOUT_ms < t then Some (False, wl)
       else if tx_drained wl2 then Some (True, wl2) else tx_flush_loop ops env others (n + 1) t' wl2)"
    by (subst tx_flush_loop.simps) (simp only: wl1(1) option.case wl2_def [symmetric] t'_def [symmetric] Let_def)
  show ?case
  proof (cases "t \<le> WL1271_TX_FLUSH_TIMEOUT_ms \<and> \<not> tx_drained wl2")
    case True
    moreover have "WL1271_TX_FLUSH_TIMEOUT_ms + 1 - t' < WL1271_TX_FLUSH_TIMEOUT_ms + 1 - t"
      using True unfolding t'_def by arith
    ultimately show ?thesis using less.hyps [OF _ ok2, of t' "n + 1"] unf by simp
  next
    case False
    then show ?thesis using unf less.prems(1) ok2(1) by auto
  qed
qed

lemma tx_flush_empties:
  assumes ok: "tx_ok wl" and fit: "frames_fit wl" and b: "benign others"
  shows "\<exists>wl'. wl1271_tx_flush ops env others wl = Some wl' \<and> tx_ok wl' \<and> queued wl' = {#}
    \<and> (wl' = wl \<or> (\<forall>q<NUM_TX_QUEUES. WLCORE_QUEUE_STOP_REASON_FLUSH \<notin> queue_stop_reasons wl' q))"
proof (cases "tx_drained wl")
  case True
  then have "queued wl = {#}" using total_count_zero(1) [of wl] ok by (simp add: tx_drained_def tx_ok_def)
  then show ?thesis using True ok by (simp add: wl1271_tx_flush_def)
next
  case False
  define wl0 where "wl0 = wlcore_stop_queues wl WLCORE_QUEUE_STOP_REASON_FLUSH"
  have ok0: "tx_ok wl0" "frames_fit wl0"
    using stop_queues_progress(1) [OF ok] frames_fit_stop [OF stop_step_queues(1)] fit
    by (simp_all add: wl0_def tx_progress_def)
  obtain c wl1 where l: "tx_flush_loop ops env others 0 (e_delay_ms env (log wl)) wl0 = Some (c, wl1)"
    and ok1: "tx_ok wl1" and d: "c \<longrightarrow> tx_drained wl1"
    using tx_flush_loop_ends [OF b ok0] by blast
  define wl2 where "wl2 = (if c then wl1 else fold (\<lambda>i w. wl1271_tx_reset_link_queues w i) [0..<WL12XX_MAX_LINKS] wl1)"
  have "tx_ok wl2 \<and> queued wl2 = {#}"
  proof (cases c)
    case True
    then show ?thesis using d ok1 total_count_zero(1) [of wl1] by (simp add: wl2_def tx_drained_def tx_ok_def)
  next
    case False
    then have "wl2 = fold (\<lambda>i w. wl1271_tx_reset_link_queues w i) [0..<WL12XX_MAX_LINKS] wl1" unfolding wl2_def by simp
    from reset_links_upto [OF ok1 order_refl this] show ?thesis
      by (intro conjI queued_empty) (simp_all add: tx_progress_def)
  qed
  then have 2: "tx_ok wl2" "queued wl2 = {#}" by blast+
  have "queued (wlcore_wake_queues wl2 r) = queued wl2" for r
    using stop_step_queues(2) [of wl2 r] by (auto simp: stop_step_def queued_def)
  then show ?thesis
    using 2 False l stop_queues_progress(2) [OF 2(1), of WLCORE_QUEUE_STOP_REASON_FLUSH] wake_queues_clears
    by (simp add: wl1271_tx_flush_def wl0_def [symmetric] wl2_def [symmetric] tx_progress_def)
qed

end

end
