(* ===== verification/WlRx.thy ===== *)
theory WlRx
  imports WlTxDone
begin

unbundle bit_operations_syntax

text \<open>
  Reception (wlcore/rx.c): the firmware announces packets in a ring of descriptors of the status
  block; the driver reads as many as fit the aggregation buffer in one transfer, splits the data into
  packets and queues them for the network stack. Packets of the firmware's logger go to the log
  buffer instead (\<open>wl12xx_copy_fwlog\<close> of wlcore/main.c).
\<close>

abbreviation (input) PAGE_SIZE :: nat where "PAGE_SIZE \<equiv> 4096"
abbreviation (input) RX_DESC_LEN :: nat where "RX_DESC_LEN \<equiv> 16"
abbreviation (input) RX_BUF_ALIGN :: nat where "RX_BUF_ALIGN \<equiv> 2"
abbreviation (input) WL12XX_RX_CLASS_LOGGER :: u8 where "WL12XX_RX_CLASS_LOGGER \<equiv> 8"
abbreviation (input) WL1271_RX_DESC_STATUS_MASK :: u8 where "WL1271_RX_DESC_STATUS_MASK \<equiv> 0x03"
abbreviation (input) WL1271_RX_DESC_SUCCESS :: u8 where "WL1271_RX_DESC_SUCCESS \<equiv> 0x00"
abbreviation (input) WL1271_RX_DESC_MIC_FAIL :: u8 where "WL1271_RX_DESC_MIC_FAIL \<equiv> 0x02"
abbreviation (input) WL1271_RX_DESC_ENCRYPT_MASK :: u8 where "WL1271_RX_DESC_ENCRYPT_MASK \<equiv> 0xE0"
abbreviation (input) WL1271_RX_DESC_BAND_MASK :: u8 where "WL1271_RX_DESC_BAND_MASK \<equiv> 0x03"
abbreviation (input) WL12XX_BUS_BLOCK_SIZE :: nat where "WL12XX_BUS_BLOCK_SIZE \<equiv> 256"
abbreviation (input) WL12XX_REG_RX_DRIVER_COUNTER :: nat where "WL12XX_REG_RX_DRIVER_COUNTER \<equiv> 0x300538"

section \<open>The firmware's log\<close>

text \<open>The log is a list of records, each its length followed by as many bytes; zero ends it.\<close>

function fwlog_end :: "bytes \<Rightarrow> nat \<Rightarrow> nat \<Rightarrow> nat" where
  "fwlog_end memblock maxlen len =
     (if len < maxlen then
        (let n = unat (byte_at len memblock)
         in if n = 0 then len else if maxlen < len + n + 1 then len
            else fwlog_end memblock maxlen (len + n + 1))
      else len)"
  by pat_completeness auto

termination
  by (relation "measure (\<lambda>(b, m, n). m - n)") auto

declare fwlog_end.simps [simp del]

definition wl12xx_copy_fwlog :: "wl1271 \<Rightarrow> bytes \<Rightarrow> nat \<Rightarrow> nat \<times> wl1271" where
  "wl12xx_copy_fwlog wl memblock maxlen =
     (let len = min (fwlog_end memblock maxlen 0) (PAGE_SIZE - fwlog_size wl)
      in (len, wl\<lparr>fwlog := buf_write (fwlog_size wl) (buf_read 0 len memblock) (fwlog wl),
                 fwlog_size := fwlog_size wl + len\<rparr>))"

section \<open>Sizes\<close>

definition wlcore_rx_get_buf_size :: "wl1271 \<Rightarrow> u32 \<Rightarrow> nat" where
  "wlcore_rx_get_buf_size wl rx_pkt_desc =
     (if WLCORE_QUIRK_RX_BLOCKSIZE_ALIGN \<in> wl_quirks wl
      then unat (drop_bit 8 (rx_pkt_desc AND 0xFFFF00))
      else unat (drop_bit 6 (rx_pkt_desc AND 0xFFF00)))"

definition wlcore_rx_get_align_buf_size :: "wl1271 \<Rightarrow> nat \<Rightarrow> nat" where
  "wlcore_rx_get_align_buf_size wl pkt_len =
     (if WLCORE_QUIRK_RX_BLOCKSIZE_ALIGN \<in> wl_quirks wl
      then ALIGN pkt_len WL12XX_BUS_BLOCK_SIZE else pkt_len)"

section \<open>One packet\<close>

record wl1271_rx_descriptor =
  rxd_status :: u8
  rxd_flags :: u8
  rxd_rate :: u8
  rxd_channel :: u8
  rxd_rssi :: u8            \<comment> \<open>read as a signed byte\<close>
  rxd_snr :: u8
  rxd_packet_class :: u8
  rxd_hlid :: u8

definition rx_desc_of :: "bytes \<Rightarrow> wl1271_rx_descriptor" where
  "rx_desc_of b =
     \<lparr>rxd_status = byte_at 2 b, rxd_flags = byte_at 3 b, rxd_rate = byte_at 4 b,
      rxd_channel = byte_at 5 b, rxd_rssi = byte_at 6 b, rxd_snr = byte_at 7 b,
      rxd_packet_class = byte_at 12 b, rxd_hlid = byte_at 13 b\<rparr>"

definition rx_status_of :: "wl1271 \<Rightarrow> wl1271_rx_descriptor \<Rightarrow> ieee80211_rx_status" where
  "rx_status_of wl d =
     (let band = (if rxd_flags d AND WL1271_RX_DESC_BAND_MASK = 0
                  then IEEE80211_BAND_2GHZ else IEEE80211_BAND_5GHZ);
          ht = (if rxd_rate d \<le> hw_min_ht_rate wl then {RX_FLAG_HT} else {});
          enc = (if rxd_flags d AND WL1271_RX_DESC_ENCRYPT_MASK \<noteq> 0 then
                   {RX_FLAG_IV_STRIPPED, RX_FLAG_MMIC_STRIPPED, RX_FLAG_DECRYPTED}
                   \<union> (if rxd_status d AND WL1271_RX_DESC_STATUS_MASK = WL1271_RX_DESC_MIC_FAIL
                      then {RX_FLAG_MMIC_ERROR} else {})
                 else {})
      in \<lparr>rs_band = band, rs_rate_idx = wlcore_rate_to_idx wl (rxd_rate d) band,
          rs_flag = ht \<union> enc, rs_signal = sint (rxd_rssi d),
          rs_freq = nat (ieee80211_channel_to_frequency (uint (rxd_channel d)) band)\<rparr>)"

definition wl1271_rx_status :: "wl1271_rx_descriptor \<Rightarrow> skb_ptr \<Rightarrow> wl1271 \<Rightarrow> wl1271" where
  "wl1271_rx_status d p wl =
     (let st = rx_status_of wl d
      in (upd_skb p (\<lambda>s. s\<lparr>skb_rx_status := st\<rparr>) wl)\<lparr>noise := rxd_rssi d - drop_bit 1 (rxd_snr d)\<rparr>)"

text \<open>\<open>__dev_alloc_skb\<close>: the environment says whether there is memory, and at which address.\<close>

definition dev_alloc_skb :: "wl_env \<Rightarrow> nat \<Rightarrow> wl1271 \<Rightarrow> skb_ptr option \<times> wl1271" where
  "dev_alloc_skb env n wl =
     (let wl1 = emit (C_alloc n) wl
      in if e_alloc env (log wl1)
         then (let p = e_skb env (log wl1)
               in (Some p, upd_skb p (\<lambda>_. skb_zeroed\<lparr>skb_head := replicate n 0\<rparr>) wl1))
         else (None, wl1))"

definition rx_fill_skb :: "bytes \<Rightarrow> nat \<Rightarrow> nat \<Rightarrow> wl_rx_buf_align \<Rightarrow> sk_buff \<Rightarrow> sk_buff" where
  "rx_fill_skb data pkt_data_len reserved rx_align skb =
     (let s = skb_write 0 (buf_read RX_DESC_LEN pkt_data_len data)
                (skb\<lparr>skb_data := skb_data skb + reserved, skb_len := pkt_data_len\<rparr>)
      in if rx_align = WLCORE_RX_BUF_PADDED then skb_pull RX_BUF_ALIGN s else s)"

text \<open>
  The result is the error, \<open>None\<close> for the value 0, or the link of the packet for the value 1 (a data
  frame). \<open>data\<close> is the rest of the aggregation buffer from the packet's descriptor on.
\<close>

definition wl1271_rx_handle_data ::
  "wlcore_ops \<Rightarrow> wl_env \<Rightarrow> wl1271 \<Rightarrow> bytes \<Rightarrow> nat \<Rightarrow> wl_rx_buf_align \<Rightarrow> nat option res \<times> wl1271" where
  "wl1271_rx_handle_data ops env wl data len rx_align =
     (if plt wl then (Inl EINVAL, wl)
      else let pkt_data_len = op_get_rx_packet_len ops wl data len in
      if pkt_data_len = 0 then (Inl EINVAL, wl)
      else
        let reserved = (if rx_align = WLCORE_RX_BUF_UNALIGNED then RX_BUF_ALIGN else 0);
            desc = rx_desc_of data
        in if rxd_packet_class desc = WL12XX_RX_CLASS_LOGGER then
             (Inr None, emit C_wake_fwlog
                (snd (wl12xx_copy_fwlog wl (drop RX_DESC_LEN data) (len - RX_DESC_LEN))))
           else if rxd_status desc AND WL1271_RX_DESC_STATUS_MASK
                   \<notin> {WL1271_RX_DESC_SUCCESS, WL1271_RX_DESC_MIC_FAIL} then (Inl EINVAL, wl)
           else case dev_alloc_skb env (pkt_data_len + reserved) wl of
             (None, wl1) \<Rightarrow> (Inl ENOMEM, wl1)
           | (Some p, wl1) \<Rightarrow>
               let wl2 = wl1271_rx_status desc p
                           (upd_skb p (rx_fill_skb data pkt_data_len reserved rx_align) wl1);
                   wl3 = upd_skb p (wlcore_hw_set_rx_csum ops wl2 data) wl2;
                   wl4 = wl3\<lparr>deferred_rx_queue := deferred_rx_queue wl3 @ [p]\<rparr>;
                   wl5 = emit (C_queue_work NETSTACK_WORK) wl4
               in (Inr (if ieee80211_is_data_present (frame_control_at 0 (skbs wl3 p))
                        then Some (unat (rxd_hlid desc)) else None), wl5))"

section \<open>The ring of descriptors\<close>

text \<open>\<open>fw_rx_counter\<close> is the fifth byte of the status block, the descriptors follow the first eight.\<close>

definition st_fw_rx_counter :: "bytes \<Rightarrow> nat" where
  "st_fw_rx_counter status = unat (byte_at 4 status)"

definition st_rx_pkt_desc :: "bytes \<Rightarrow> nat \<Rightarrow> u32" where
  "st_rx_pkt_desc status i = get_le32 (8 + 4 * i) status"

definition rx_aligned_size :: "wl1271 \<Rightarrow> bytes \<Rightarrow> nat \<Rightarrow> nat" where
  "rx_aligned_size wl status i =
     wlcore_rx_get_align_buf_size wl (wlcore_rx_get_buf_size wl (st_rx_pkt_desc status i))"

text \<open>How much the next transfer reads: packets are added while they fit.\<close>

partial_function (option) rx_batch :: "wl1271 \<Rightarrow> bytes \<Rightarrow> nat \<Rightarrow> nat \<Rightarrow> nat \<Rightarrow> nat option" where
  "rx_batch wl status fw_rx_counter rx_cnt buf_size =
     (if rx_cnt = fw_rx_counter then Some buf_size
      else let align_pkt_len = rx_aligned_size wl status rx_cnt in
        if aggr_buf_size wl < buf_size + align_pkt_len then Some buf_size
        else rx_batch wl status fw_rx_counter ((rx_cnt + 1) mod num_rx_desc wl) (buf_size + align_pkt_len))"

text \<open>One packet of the data just read: \<open>active_hlids\<close> collects the links that sent data.\<close>

definition rx_split_one ::
  "wlcore_ops \<Rightarrow> wl_env \<Rightarrow> bytes \<Rightarrow> nat \<Rightarrow> nat \<Rightarrow> nat set \<Rightarrow> wl1271 \<Rightarrow> nat set \<times> wl1271" where
  "rx_split_one ops env status drv_rx_counter pkt_offset active_hlids wl =
     (let des = st_rx_pkt_desc status drv_rx_counter;
          pkt_len = wlcore_rx_get_buf_size wl des;
          rx_align = op_get_rx_buf_align ops wl des;
          (r, wl1) = wl1271_rx_handle_data ops env wl (drop pkt_offset (aggr_buf wl)) pkt_len rx_align;
          (hlids, wl2) = (case r of
             Inr (Some hlid) \<Rightarrow>
               if hlid < WL12XX_MAX_LINKS then (insert hlid active_hlids, wl1) else (active_hlids, emit C_warn wl1)
           | _ \<Rightarrow> (active_hlids, wl1))
      in (hlids, wl2\<lparr>rx_counter := rx_counter wl2 + 1\<rparr>))"

partial_function (option) rx_split ::
  "wlcore_ops \<Rightarrow> wl_env \<Rightarrow> bytes \<Rightarrow> nat \<Rightarrow> nat \<Rightarrow> nat \<Rightarrow> nat set \<Rightarrow> wl1271 \<Rightarrow> (nat \<times> nat set \<times> wl1271) option"
where
  "rx_split ops env status buf_size drv_rx_counter pkt_offset active_hlids wl =
     (if pkt_offset < buf_size then
        (let (hlids, wl1) = rx_split_one ops env status drv_rx_counter pkt_offset active_hlids wl
         in rx_split ops env status buf_size ((drv_rx_counter + 1) mod num_rx_desc wl)
              (pkt_offset + rx_aligned_size wl status drv_rx_counter) hlids wl1)
      else Some (drv_rx_counter, active_hlids, wl))"

text \<open>The transfer of one batch into the aggregation buffer.\<close>

definition rx_read_batch ::
  "wlcore_ops \<Rightarrow> wl_env \<Rightarrow> wl1271 \<Rightarrow> u32 \<Rightarrow> nat \<Rightarrow> unit res \<times> wl1271" where
  "rx_read_batch ops env wl des buf_size =
     and_then (wlcore_hw_prepare_read ops env wl des buf_size) (\<lambda>_ wl1.
     and_then (wlcore_read_data env wl1 REG_SLV_MEM_DATA buf_size True) (\<lambda>bs wl2.
       (Inr (), wl2\<lparr>aggr_buf := buf_write 0 bs (aggr_buf wl2)\<rparr>)))"

partial_function (option) rx_loop ::
  "wlcore_ops \<Rightarrow> wl_env \<Rightarrow> bytes \<Rightarrow> nat \<Rightarrow> nat \<Rightarrow> nat set \<Rightarrow> wl1271 \<Rightarrow> (nat set res \<times> wl1271) option"
where
  "rx_loop ops env status fw_rx_counter drv_rx_counter active_hlids wl =
     (if drv_rx_counter = fw_rx_counter then Some (Inr active_hlids, wl)
      else case rx_batch wl status fw_rx_counter drv_rx_counter 0 of
        None \<Rightarrow> None
      | Some buf_size \<Rightarrow>
          if buf_size = 0 then Some (Inr active_hlids, wl)
          else case rx_read_batch ops env wl (st_rx_pkt_desc status drv_rx_counter) buf_size of
            (Inl e, wl1) \<Rightarrow> Some (Inl e, wl1)
          | (Inr _, wl1) \<Rightarrow>
              (case rx_split ops env status buf_size drv_rx_counter 0 active_hlids wl1 of
                 None \<Rightarrow> None
               | Some (drv, hlids, wl2) \<Rightarrow> rx_loop ops env status fw_rx_counter drv hlids wl2))"

text \<open>A ring without descriptors is a division by zero.\<close>

definition wlcore_rx ::
  "wlcore_ops \<Rightarrow> wl_env \<Rightarrow> wl1271 \<Rightarrow> bytes \<Rightarrow> (unit res \<times> wl1271) option" where
  "wlcore_rx ops env wl status =
     (if num_rx_desc wl = 0 then Some (Inl EFAULT, emit C_oops wl)
      else case rx_loop ops env status (st_fw_rx_counter status mod num_rx_desc wl)
                  (unat (rx_counter wl) mod num_rx_desc wl) {} wl of
        None \<Rightarrow> None
      | Some (Inl e, wl1) \<Rightarrow> Some (Inl e, wl1)
      | Some (Inr active_hlids, wl1) \<Rightarrow>
          Some (and_then
            (if WLCORE_QUIRK_END_OF_TRANSACTION \<in> wl_quirks wl1
             then wlcore_write32 env wl1 WL12XX_REG_RX_DRIVER_COUNTER (rx_counter wl1) else (Inr (), wl1))
            (\<lambda>_ wl2. (Inr (), wl12xx_rearm_rx_streaming wl2 active_hlids))))"

section \<open>What reception may change\<close>

definition fwlog_ok :: "wl1271 \<Rightarrow> bool" where
  "fwlog_ok wl \<longleftrightarrow> length (fwlog wl) = PAGE_SIZE \<and> fwlog_size wl \<le> PAGE_SIZE"

definition rx_buffers :: "wl1271 \<Rightarrow> wl1271 \<Rightarrow> bool" where
  "rx_buffers wl wl' \<longleftrightarrow>
     (aggr_buf_size wl \<le> length (aggr_buf wl) \<longrightarrow> length (aggr_buf wl') = length (aggr_buf wl))
     \<and> (fwlog_ok wl \<longrightarrow> fwlog_ok wl')"

text \<open>
  Beside the bus, reception touches its own fields and the new packet buffers only, and writes inside
  the aggregation and log buffers.
\<close>

definition rx_step :: "wl_env \<Rightarrow> wl1271 \<Rightarrow> wl1271 \<Rightarrow> bool" where
  "rx_step env wl wl' \<longleftrightarrow>
     (\<exists>f dq rc ab fl nz fs sk l.
        wl' = wl\<lparr>wl_flags := f, deferred_rx_queue := deferred_rx_queue wl @ dq, rx_counter := rc,
                aggr_buf := ab, fwlog := fl, noise := nz, fwlog_size := fs, skbs := sk,
                log := log wl @ l\<rparr>
        \<and> wl_flags wl \<subseteq> f \<and> f \<subseteq> insert WL1271_FLAG_IO_FAILED (wl_flags wl)
        \<and> list_all quiet_call l \<and> set dq \<subseteq> range (e_skb env)
        \<and> (\<forall>p. sk p = skbs wl p \<or> p \<in> range (e_skb env) \<and> skb_queue_mapping (sk p) = 0))
     \<and> rx_buffers wl wl'"

lemma rx_buffers_trans:
  "rx_buffers a b \<Longrightarrow> rx_buffers b c \<Longrightarrow> aggr_buf_size b = aggr_buf_size a \<Longrightarrow> rx_buffers a c"
  by (auto simp: rx_buffers_def)

lemma rx_stepI:
  assumes "wl' = wl\<lparr>wl_flags := f, deferred_rx_queue := deferred_rx_queue wl @ dq, rx_counter := rc,
                aggr_buf := ab, fwlog := fl, noise := nz, fwlog_size := fs, skbs := sk,
                log := log wl @ l\<rparr>"
    and "wl_flags wl \<subseteq> f" "f \<subseteq> insert WL1271_FLAG_IO_FAILED (wl_flags wl)"
    "list_all quiet_call l" "set dq \<subseteq> range (e_skb env)"
    "\<And>p. sk p = skbs wl p \<or> p \<in> range (e_skb env) \<and> skb_queue_mapping (sk p) = 0"
    and "rx_buffers wl wl'"
  shows "rx_step env wl wl'"
  unfolding rx_step_def using assms by blast

lemma rx_step_keeps:
  assumes "rx_step env wl wl'"
  shows "num_rx_desc wl' = num_rx_desc wl" "wl_quirks wl' = wl_quirks wl" "aggr_buf_size wl' = aggr_buf_size wl"
    "rtable wl' = rtable wl" "plt wl' = plt wl" "rx_buffers wl wl'"
  using assms unfolding rx_step_def by auto

lemma rx_step_trans:
  assumes a: "rx_step env a b" and b: "rx_step env b c"
  shows "rx_step env a c"
proof -
  note buf = rx_buffers_trans [OF rx_step_keeps(6) [OF a] rx_step_keeps(6) [OF b] rx_step_keeps(3) [OF a]]
  from a obtain f dq rc ab fl nz fs sk l where a1:
    "b = a\<lparr>wl_flags := f, deferred_rx_queue := deferred_rx_queue a @ dq, rx_counter := rc,
           aggr_buf := ab, fwlog := fl, noise := nz, fwlog_size := fs, skbs := sk, log := log a @ l\<rparr>"
    and a2: "wl_flags a \<subseteq> f" "f \<subseteq> insert WL1271_FLAG_IO_FAILED (wl_flags a)"
      "list_all quiet_call l" "set dq \<subseteq> range (e_skb env)"
      "\<And>p. sk p = skbs a p \<or> p \<in> range (e_skb env) \<and> skb_queue_mapping (sk p) = 0"
    unfolding rx_step_def by blast
  from b obtain f' dq' rc' ab' fl' nz' fs' sk' l' where b1:
    "c = b\<lparr>wl_flags := f', deferred_rx_queue := deferred_rx_queue b @ dq', rx_counter := rc',
           aggr_buf := ab', fwlog := fl', noise := nz', fwlog_size := fs', skbs := sk', log := log b @ l'\<rparr>"
    and b2: "wl_flags b \<subseteq> f'" "f' \<subseteq> insert WL1271_FLAG_IO_FAILED (wl_flags b)"
      "list_all quiet_call l'" "set dq' \<subseteq> range (e_skb env)"
      "\<And>p. sk' p = skbs b p \<or> p \<in> range (e_skb env) \<and> skb_queue_mapping (sk' p) = 0"
    unfolding rx_step_def by blast
  show ?thesis
  proof (rule rx_stepI [where dq = "dq @ dq'" and l = "l @ l'" and sk = sk'])
    show "c = a\<lparr>wl_flags := f', deferred_rx_queue := deferred_rx_queue a @ dq @ dq', rx_counter := rc',
           aggr_buf := ab', fwlog := fl', noise := nz', fwlog_size := fs', skbs := sk', log := log a @ l @ l'\<rparr>"
      by (simp add: b1 a1)
    show "wl_flags a \<subseteq> f'" "f' \<subseteq> insert WL1271_FLAG_IO_FAILED (wl_flags a)"
      using a2(1,2) b2(1,2) by (auto simp: a1)
    show "sk' p = skbs a p \<or> p \<in> range (e_skb env) \<and> skb_queue_mapping (sk' p) = 0" for p
      using a2(5) [of p] b2(5) [of p] by (auto simp: a1)
  qed (use a2 b2 buf in auto)
qed

lemma io_step_rx_step: "io_step wl wl' \<Longrightarrow> rx_step env wl wl'"
proof (elim io_stepE)
  fix l f
  assume w: "wl' = wl\<lparr>wl_flags := f, log := log wl @ l\<rparr>" "wl_flags wl \<subseteq> f"
    "f \<subseteq> insert WL1271_FLAG_IO_FAILED (wl_flags wl)" "list_all quiet_call l"
  then show "rx_step env wl wl'"
    by (intro rx_stepI [where dq = "[]" and l = l and sk = "skbs wl" and f = f and rc = "rx_counter wl"
          and ab = "aggr_buf wl" and fl = "fwlog wl" and nz = "noise wl" and fs = "fwlog_size wl"])
      (auto simp: rx_buffers_def fwlog_ok_def)
qed

lemma rx_step_refl [simp, intro]: "rx_step env wl wl"
  by (rule io_step_rx_step) simp

lemma rx_step_emit: "quiet_call c \<Longrightarrow> rx_step env wl (emit c wl)"
  by (rule io_step_rx_step) simp

section \<open>The log buffer is never overrun\<close>

lemma fwlog_end_le: "len \<le> maxlen \<Longrightarrow> fwlog_end b maxlen len \<le> maxlen"
  by (induction b maxlen len rule: fwlog_end.induct) (subst fwlog_end.simps, auto simp: Let_def)

lemma copy_fwlog_keeps:
  assumes "fwlog_ok wl"
  shows "fwlog_ok (snd (wl12xx_copy_fwlog wl b maxlen))"
    and "fst (wl12xx_copy_fwlog wl b maxlen) \<le> PAGE_SIZE - fwlog_size wl"
    and "fwlog_size (snd (wl12xx_copy_fwlog wl b maxlen))
         = fwlog_size wl + fst (wl12xx_copy_fwlog wl b maxlen)"
  using assms by (auto simp: wl12xx_copy_fwlog_def Let_def fwlog_ok_def buf_write_def buf_read_def)

lemma copy_fwlog_step: "rx_step env wl (snd (wl12xx_copy_fwlog wl b maxlen))"
  using copy_fwlog_keeps(1) [of wl b maxlen]
  by (intro rx_stepI [where dq = "[]" and l = "[]" and sk = "skbs wl" and f = "wl_flags wl"
        and rc = "rx_counter wl" and ab = "aggr_buf wl" and nz = "noise wl"
        and fl = "fwlog (snd (wl12xx_copy_fwlog wl b maxlen))"
        and fs = "fwlog_size (snd (wl12xx_copy_fwlog wl b maxlen))"])
    (auto simp: rx_buffers_def wl12xx_copy_fwlog_def Let_def)

section \<open>One packet\<close>

lemma rx_fill_mapping [simp]: "skb_queue_mapping (rx_fill_skb d n r al s) = skb_queue_mapping s"
  by (simp add: rx_fill_skb_def Let_def skb_write_def skb_pull_def)

text \<open>A new packet at the address the allocator gave.\<close>

lemma rx_new_skb_step:
  assumes "p = e_skb env k" and "skb_queue_mapping s = 0" and "list_all quiet_call l"
  shows "rx_step env wl (wl\<lparr>deferred_rx_queue := deferred_rx_queue wl @ [p], noise := nz,
           skbs := (skbs wl)(p := s), log := log wl @ l\<rparr>)"
  using assms
  by (intro rx_stepI [where dq = "[p]" and l = l and sk = "(skbs wl)(p := s)" and f = "wl_flags wl"
        and rc = "rx_counter wl" and ab = "aggr_buf wl" and nz = nz and fl = "fwlog wl" and fs = "fwlog_size wl"])
    (auto simp: rx_buffers_def fwlog_ok_def)

text \<open>
  What reception relies on in a chip: the checksum hint changes the packet's checksum state only, and a
  packet's payload is what follows the descriptor.
\<close>

locale chip_rx = chip_bus +
  assumes rx_csum: "op_set_rx_csum ops = Some f \<Longrightarrow> f wl d s = s\<lparr>skb_ip_summed := skb_ip_summed (f wl d s)\<rparr>"
    and rx_packet_len: "op_get_rx_packet_len ops wl d n \<le> n - RX_DESC_LEN"
begin

lemma set_rx_csum_shape:
  "wlcore_hw_set_rx_csum ops wl d s = s\<lparr>skb_ip_summed := skb_ip_summed (wlcore_hw_set_rx_csum ops wl d s)\<rparr>"
proof (cases "op_set_rx_csum ops")
  case (Some f)
  show ?thesis unfolding wlcore_hw_set_rx_csum_def Some option.case by (rule rx_csum [OF Some])
qed (simp add: wlcore_hw_set_rx_csum_def)

lemma rx_handle_step: "rx_step env wl (snd (wl1271_rx_handle_data ops env wl data len al))"
proof -
  let ?n = "op_get_rx_packet_len ops wl data len"
  let ?r = "if al = WLCORE_RX_BUF_UNALIGNED then RX_BUF_ALIGN else 0"
  let ?d = "rx_desc_of data"
  show ?thesis
  proof (cases "plt wl \<or> ?n = 0 \<or> rxd_packet_class ?d = WL12XX_RX_CLASS_LOGGER
      \<or> rxd_status ?d AND WL1271_RX_DESC_STATUS_MASK \<notin> {WL1271_RX_DESC_SUCCESS, WL1271_RX_DESC_MIC_FAIL}")
    case True
    then show ?thesis
      using rx_step_trans [OF copy_fwlog_step rx_step_emit [of C_wake_fwlog],
          of env wl "drop RX_DESC_LEN data" "len - RX_DESC_LEN"]
      by (auto simp: wl1271_rx_handle_data_def Let_def)
  next
    case False
    define k where "k = log wl @ [C_alloc (?n + ?r)]"
    define p where "p = e_skb env k"
    define x where "x = (\<lambda>w s. skb_ip_summed (wlcore_hw_set_rx_csum ops w data s))"
    have x: "wlcore_hw_set_rx_csum ops w data s = s\<lparr>skb_ip_summed := x w s\<rparr>" for w s
      unfolding x_def by (rule set_rx_csum_shape)
    show ?thesis
    proof (cases "e_alloc env k")
      case True
      let ?s = "skbs (snd (wl1271_rx_handle_data ops env wl data len al)) p"
      have "snd (wl1271_rx_handle_data ops env wl data len al)
          = wl\<lparr>deferred_rx_queue := deferred_rx_queue wl @ [p], noise := rxd_rssi ?d - drop_bit 1 (rxd_snr ?d),
              skbs := (skbs wl)(p := ?s),
              log := log wl @ [C_alloc (?n + ?r), C_queue_work NETSTACK_WORK]\<rparr> \<and> skb_queue_mapping ?s = 0"
        using False True
        by (auto simp: wl1271_rx_handle_data_def dev_alloc_skb_def Let_def emit_def upd_skb_def wl1271_rx_status_def
            x p_def k_def skb_zeroed_def)
      note e = this [THEN conjunct1] and m = this [THEN conjunct2]
      show ?thesis by (subst e, rule rx_new_skb_step [OF p_def m]) simp
    next
      case al: False
      then have "snd (wl1271_rx_handle_data ops env wl data len al) = emit (C_alloc (?n + ?r)) wl"
        using False by (auto simp: wl1271_rx_handle_data_def dev_alloc_skb_def Let_def emit_def k_def)
      then show ?thesis by (simp add: rx_step_emit)
    qed
  qed
qed

end

section \<open>Walking the ring\<close>

definition rx_slots :: "nat \<Rightarrow> nat \<Rightarrow> nat \<Rightarrow> nat list" where
  "rx_slots n c k = map (\<lambda>i. (c + i) mod n) [0..<k]"

lemma rx_slots_0 [simp]: "rx_slots n c 0 = []"
  by (simp add: rx_slots_def)

lemma rx_slots_Suc: "c < n \<Longrightarrow> rx_slots n c (Suc k) = c # rx_slots n ((c + 1) mod n) k"
proof -
  assume c: "c < n"
  have "[0..<Suc k] = 0 # map Suc [0..<k]" by (simp only: upt_conv_Cons map_Suc_upt zero_less_Suc)
  then show ?thesis using c by (simp add: rx_slots_def mod_simps comp_def del: upt_Suc)
qed

definition rx_dist :: "nat \<Rightarrow> nat \<Rightarrow> nat \<Rightarrow> nat" where
  "rx_dist n c d = (if c \<le> d then d - c else d + n - c)"

lemma rx_dist_0: "c < n \<Longrightarrow> d < n \<Longrightarrow> rx_dist n c d = 0 \<longleftrightarrow> c = d"
  by (auto simp: rx_dist_def)

lemma rx_dist_Suc:
  "c < n \<Longrightarrow> d < n \<Longrightarrow> c \<noteq> d \<Longrightarrow> rx_dist n c d = Suc (rx_dist n ((c + 1) mod n) d)"
  by (cases "c + 1 = n") (auto simp: rx_dist_def)

lemma rx_dist_advance:
  "c < n \<Longrightarrow> d < n \<Longrightarrow> j \<le> rx_dist n c d \<Longrightarrow> rx_dist n ((c + j) mod n) d = rx_dist n c d - j"
proof (induction j)
  case (Suc j)
  let ?c = "(c + j) mod n"
  have n: "?c < n" using Suc.prems(1) by simp
  have d: "rx_dist n ?c d = rx_dist n c d - j" using Suc by simp
  then have "?c \<noteq> d" using Suc.prems(3) by (auto simp: rx_dist_def)
  from rx_dist_Suc [OF n Suc.prems(2) this] d show ?case by (simp add: mod_simps)
qed simp

lemma rx_aligned_cong: "wl_quirks wl' = wl_quirks wl \<Longrightarrow> rx_aligned_size wl' st i = rx_aligned_size wl st i"
  by (simp add: rx_aligned_size_def wlcore_rx_get_align_buf_size_def wlcore_rx_get_buf_size_def)

text \<open>A transfer covers whole packets from the first pending one on, and fits the buffer.\<close>

lemma rx_batch_slots:
  assumes "c < num_rx_desc wl" and "d < num_rx_desc wl" and "b \<le> aggr_buf_size wl"
  shows "\<exists>k\<le>rx_dist (num_rx_desc wl) c d. \<exists>b'. rx_batch wl st d c b = Some b'
           \<and> b' = b + sum_list (map (rx_aligned_size wl st) (rx_slots (num_rx_desc wl) c k))
           \<and> b' \<le> aggr_buf_size wl
           \<and> (k < rx_dist (num_rx_desc wl) c d \<longrightarrow>
               aggr_buf_size wl < b' + rx_aligned_size wl st ((c + k) mod num_rx_desc wl))"
  using assms
proof (induction "rx_dist (num_rx_desc wl) c d" arbitrary: c b)
  case 0
  then have "c = d" using rx_dist_0 by metis
  then show ?case using 0 by (subst rx_batch.simps) simp
next
  case (Suc m)
  let ?n = "num_rx_desc wl" and ?a = "rx_aligned_size wl st c"
  have ne: "c \<noteq> d" using Suc.hyps(2) Suc.prems by (auto simp: rx_dist_def)
  show ?case
  proof (cases "aggr_buf_size wl < b + ?a")
    case True
    have "rx_batch wl st d c b = Some b" by (subst rx_batch.simps) (simp add: ne True Let_def)
    then show ?thesis using True Suc.prems by (intro exI [of _ 0]) simp
  next
    case False
    have m: "m = rx_dist ?n ((c + 1) mod ?n) d" using rx_dist_Suc [OF Suc.prems(1,2) ne] Suc.hyps(2) by simp
    have step: "rx_batch wl st d c b = rx_batch wl st d ((c + 1) mod ?n) (b + ?a)"
      by (subst rx_batch.simps) (simp add: ne False Let_def)
    have "(c + 1) mod ?n < ?n" "b + ?a \<le> aggr_buf_size wl" using Suc.prems(1) False by simp_all
    from Suc.hyps(1) [OF m this(1) Suc.prems(2) this(2)] obtain k where
      "k \<le> m" "rx_batch wl st d ((c + 1) mod ?n) (b + ?a)
         = Some (b + ?a + sum_list (map (rx_aligned_size wl st) (rx_slots ?n ((c + 1) mod ?n) k)))"
      "b + ?a + sum_list (map (rx_aligned_size wl st) (rx_slots ?n ((c + 1) mod ?n) k)) \<le> aggr_buf_size wl"
      "k < m \<longrightarrow> aggr_buf_size wl < b + ?a + sum_list (map (rx_aligned_size wl st) (rx_slots ?n ((c + 1) mod ?n) k))
               + rx_aligned_size wl st (((c + 1) mod ?n + k) mod ?n)"
      unfolding m by blast
    then show ?thesis
      unfolding step using Suc.hyps(2) Suc.prems(1)
      by (intro exI [of _ "Suc k"]) (simp add: rx_slots_Suc mod_simps add.assoc)
  qed
qed

section \<open>Splitting a batch\<close>

text \<open>
  The reference for the splitting loop: the packets of a list of slots, one after the other, each at
  the end of the previous one.
\<close>

primrec rx_each ::
  "wlcore_ops \<Rightarrow> wl_env \<Rightarrow> bytes \<Rightarrow> nat list \<Rightarrow> nat \<Rightarrow> nat set \<Rightarrow> wl1271 \<Rightarrow> nat set \<times> wl1271" where
  "rx_each ops env st [] off h wl = (h, wl)"
| "rx_each ops env st (s # ss) off h wl =
     (let (h1, wl1) = rx_split_one ops env st s off h wl
      in rx_each ops env st ss (off + rx_aligned_size wl st s) h1 wl1)"

lemma rx_handle_counter: "rx_counter (snd (wl1271_rx_handle_data ops env wl data len al)) = rx_counter wl"
  by (auto simp: wl1271_rx_handle_data_def dev_alloc_skb_def Let_def emit_def upd_skb_def wl1271_rx_status_def
      wl12xx_copy_fwlog_def)

lemma rx_split_one_shape:
  "\<exists>c. snd (rx_split_one ops env st i off h wl) =
     (let wl1 = snd (wl1271_rx_handle_data ops env wl (drop off (aggr_buf wl))
                       (wlcore_rx_get_buf_size wl (st_rx_pkt_desc st i))
                       (op_get_rx_buf_align ops wl (st_rx_pkt_desc st i)));
          wl2 = (if c then emit C_warn wl1 else wl1)
      in wl2\<lparr>rx_counter := rx_counter wl + 1\<rparr>)"
proof -
  obtain r wl1 where h: "wl1271_rx_handle_data ops env wl (drop off (aggr_buf wl))
      (wlcore_rx_get_buf_size wl (st_rx_pkt_desc st i)) (op_get_rx_buf_align ops wl (st_rx_pkt_desc st i)) = (r, wl1)"
    by (rule prod.exhaust)
  have c: "rx_counter wl1 = rx_counter wl"
    using rx_handle_counter [of ops env wl "drop off (aggr_buf wl)" "wlcore_rx_get_buf_size wl (st_rx_pkt_desc st i)"
        "op_get_rx_buf_align ops wl (st_rx_pkt_desc st i)"] h by simp
  show ?thesis
    by (rule exI [of _ "\<exists>hl. r = Inr (Some hl) \<and> WL12XX_MAX_LINKS \<le> hl"])
      (auto simp: rx_split_one_def Let_def h c emit_def split: sum.split option.split)
qed

lemma rx_split_one_counter: "rx_counter (snd (rx_split_one ops env st i off h wl)) = rx_counter wl + 1"
  using rx_split_one_shape [of ops env st i off h wl] by (auto simp: Let_def)

lemma rx_step_counter: "rx_step env wl (wl\<lparr>rx_counter := n\<rparr>)"
  by (intro rx_stepI [where dq = "[]" and l = "[]" and sk = "skbs wl" and f = "wl_flags wl" and rc = n
        and ab = "aggr_buf wl" and fl = "fwlog wl" and nz = "noise wl" and fs = "fwlog_size wl"])
    (auto simp: rx_buffers_def fwlog_ok_def)

context chip_rx
begin

lemma rx_split_one_step: "rx_step env wl (snd (rx_split_one ops env st i off h wl))"
proof -
  define wl1 where "wl1 = snd (wl1271_rx_handle_data ops env wl (drop off (aggr_buf wl))
      (wlcore_rx_get_buf_size wl (st_rx_pkt_desc st i)) (op_get_rx_buf_align ops wl (st_rx_pkt_desc st i)))"
  obtain c where e: "snd (rx_split_one ops env st i off h wl)
      = (if c then emit C_warn wl1 else wl1)\<lparr>rx_counter := rx_counter wl + 1\<rparr>"
    using rx_split_one_shape [of ops env st i off h wl] unfolding wl1_def Let_def by blast
  have "rx_step env wl wl1" unfolding wl1_def by (rule rx_handle_step)
  moreover have "rx_step env wl1 (if c then emit C_warn wl1 else wl1)" by (simp add: rx_step_emit)
  ultimately show ?thesis unfolding e by (blast intro: rx_step_trans rx_step_counter)
qed

lemma rx_each_step: "rx_step env wl (snd (rx_each ops env st ss off h wl))"
proof (induction ss arbitrary: off h wl)
  case (Cons s ss)
  obtain h1 wl1 where o: "rx_split_one ops env st s off h wl = (h1, wl1)" by (rule prod.exhaust)
  have "rx_step env wl wl1" using rx_split_one_step [of env wl st s off h] o by simp
  from rx_step_trans [OF this Cons.IH] show ?case by (simp add: o)
qed simp

lemma rx_each_counter:
  "rx_counter (snd (rx_each ops env st ss off h wl)) = rx_counter wl + of_nat (length ss)"
proof (induction ss arbitrary: off h wl)
  case (Cons s ss)
  obtain h1 wl1 where o: "rx_split_one ops env st s off h wl = (h1, wl1)" by (rule prod.exhaust)
  have "rx_counter wl1 = rx_counter wl + 1" using rx_split_one_counter [of ops env st s off h wl] o by simp
  then show ?case by (simp add: o Cons.IH)
qed simp

lemma rx_split_slots:
  assumes "c < num_rx_desc wl"
    and "b = off + sum_list (map (rx_aligned_size wl st) (rx_slots (num_rx_desc wl) c k))"
  shows "\<exists>j\<le>k. rx_split ops env st b c off h wl
             = Some ((c + j) mod num_rx_desc wl, rx_each ops env st (rx_slots (num_rx_desc wl) c j) off h wl)
           \<and> (off < b \<longrightarrow> 0 < j) \<and> (j < k \<longrightarrow> rx_aligned_size wl st ((c + j) mod num_rx_desc wl) = 0)"
  using assms
proof (induction k arbitrary: c off h wl)
  case 0
  then show ?case by (subst rx_split.simps) simp
next
  case (Suc k)
  let ?n = "num_rx_desc wl"
  note c = Suc.prems(1)
  show ?case
  proof (cases "off < b")
    case False
    have "rx_split ops env st b c off h wl = Some (c, h, wl)" by (subst rx_split.simps) (simp add: False)
    moreover have "rx_aligned_size wl st c = 0" using Suc.prems False by (simp add: rx_slots_Suc)
    ultimately show ?thesis using False c by (intro exI [of _ 0]) simp
  next
    case True
    obtain h1 wl1 where o: "rx_split_one ops env st c off h wl = (h1, wl1)" by (rule prod.exhaust)
    have "rx_step env wl wl1" using rx_split_one_step [of env wl st c off h] o by simp
    note keep = rx_step_keeps(1,2) [OF this]
    have al: "rx_aligned_size wl1 st = rx_aligned_size wl st" using rx_aligned_cong [OF keep(2)] by blast
    have step: "rx_split ops env st b c off h wl
        = rx_split ops env st b ((c + 1) mod ?n) (off + rx_aligned_size wl st c) h1 wl1"
      by (subst rx_split.simps) (simp add: True o)
    have c1: "(c + 1) mod ?n < num_rx_desc wl1" using c keep(1) by simp
    have b1: "b = off + rx_aligned_size wl st c
        + sum_list (map (rx_aligned_size wl1 st) (rx_slots (num_rx_desc wl1) ((c + 1) mod ?n) k))"
      using Suc.prems(2) c by (simp add: rx_slots_Suc keep al)
    from Suc.IH [OF c1 b1, of h1] obtain j where j: "j \<le> k"
      "rx_split ops env st b ((c + 1) mod ?n) (off + rx_aligned_size wl st c) h1 wl1
       = Some (((c + 1) mod ?n + j) mod ?n,
           rx_each ops env st (rx_slots ?n ((c + 1) mod ?n) j) (off + rx_aligned_size wl st c) h1 wl1)"
      "j < k \<longrightarrow> rx_aligned_size wl st (((c + 1) mod ?n + j) mod ?n) = 0"
      unfolding keep al by blast
    show ?thesis unfolding step using j c by (intro exI [of _ "Suc j"]) (simp add: rx_slots_Suc o mod_simps)
  qed
qed

lemma rx_read_batch_step:
  assumes "b \<le> aggr_buf_size wl"
  shows "rx_step env wl (snd (rx_read_batch ops env wl d b))"
    and "rx_counter (snd (rx_read_batch ops env wl d b)) = rx_counter wl"
proof -
  obtain r wl1 where p: "wlcore_hw_prepare_read ops env wl d b = (r, wl1)" by (rule prod.exhaust)
  obtain q wl2 where q: "wlcore_read_data env wl1 REG_SLV_MEM_DATA b True = (q, wl2)" by (rule prod.exhaust)
  have i1: "io_step wl wl1" using hw_prepare_read_io [of wl env d b] p by simp
  have "io_step wl1 wl2" using io_step_read_data [of wl1 env REG_SLV_MEM_DATA b True] q by simp
  then have i2: "io_step wl wl2" by (rule io_step_trans [OF i1])
  have k: "rx_counter wl1 = rx_counter wl" "rx_counter wl2 = rx_counter wl" "aggr_buf_size wl2 = aggr_buf_size wl"
    using i1 i2 by (auto elim!: io_stepE)
  have w: "rx_step env wl2 (wl2\<lparr>aggr_buf := buf_write 0 bs (aggr_buf wl2)\<rparr>)" if "length bs = b" for bs
    using that assms k(3)
    by (intro rx_stepI [where dq = "[]" and l = "[]" and sk = "skbs wl2" and f = "wl_flags wl2" and rc = "rx_counter wl2"
          and fl = "fwlog wl2" and nz = "noise wl2" and fs = "fwlog_size wl2"])
      (auto simp: rx_buffers_def fwlog_ok_def)
  have len: "length bs = b" if "q = Inr bs" for bs
    using q that by (auto simp: wlcore_read_data_def intro: length_wlcore_read)
  note s1 = io_step_rx_step [OF i1, of env] and s2 = io_step_rx_step [OF i2, of env]
  show "rx_step env wl (snd (rx_read_batch ops env wl d b))"
    using s1 s2 rx_step_trans [OF s2 w] len by (cases r; cases q) (simp_all add: rx_read_batch_def p q)
  show "rx_counter (snd (rx_read_batch ops env wl d b)) = rx_counter wl"
    using k by (cases r; cases q) (simp_all add: rx_read_batch_def p q)
qed

end

section \<open>The outer loop\<close>

text \<open>Every announced packet has data and fits the aggregation buffer.\<close>

definition rx_sizes_ok :: "wl1271 \<Rightarrow> bytes \<Rightarrow> nat \<Rightarrow> nat \<Rightarrow> bool" where
  "rx_sizes_ok wl st c k \<longleftrightarrow>
     list_all (\<lambda>i. 0 < rx_aligned_size wl st i \<and> rx_aligned_size wl st i \<le> aggr_buf_size wl) (rx_slots (num_rx_desc wl) c k)"

lemma rx_sizes_ok_iff:
  "rx_sizes_ok wl st c k \<longleftrightarrow>
   (\<forall>i<k. 0 < rx_aligned_size wl st ((c + i) mod num_rx_desc wl)
        \<and> rx_aligned_size wl st ((c + i) mod num_rx_desc wl) \<le> aggr_buf_size wl)"
  by (auto simp: rx_sizes_ok_def rx_slots_def list_all_iff)

lemma rx_sizes_ok_advance:
  assumes "rx_sizes_ok wl st c k" and "rx_step env wl wl'" and "j + m \<le> k"
  shows "rx_sizes_ok wl' st ((c + j) mod num_rx_desc wl) m"
  unfolding rx_sizes_ok_iff
proof (intro allI impI)
  fix i
  assume i: "i < m"
  note keep = rx_step_keeps [OF assms(2)]
  have "rx_aligned_size wl' st ((c + (j + i)) mod num_rx_desc wl) = rx_aligned_size wl st ((c + (j + i)) mod num_rx_desc wl)"
    by (rule rx_aligned_cong) (rule keep(2))
  then show "0 < rx_aligned_size wl' st (((c + j) mod num_rx_desc wl + i) mod num_rx_desc wl')
      \<and> rx_aligned_size wl' st (((c + j) mod num_rx_desc wl + i) mod num_rx_desc wl') \<le> aggr_buf_size wl'"
    using assms(1,3) i unfolding rx_sizes_ok_iff keep by (simp add: mod_simps add.assoc)
qed

definition rx_loop_done :: "wl_env \<Rightarrow> bytes \<Rightarrow> nat \<Rightarrow> nat \<Rightarrow> wl1271 \<Rightarrow> nat set res \<Rightarrow> wl1271 \<Rightarrow> bool" where
  "rx_loop_done env st c d wl r wl' \<longleftrightarrow>
     rx_step env wl wl'
     \<and> (\<exists>j\<le>rx_dist (num_rx_desc wl) c d. rx_counter wl' = rx_counter wl + of_nat j
          \<and> (isl r \<or> \<not> rx_sizes_ok wl st c (rx_dist (num_rx_desc wl) c d) \<or> j = rx_dist (num_rx_desc wl) c d))"

lemma rx_loop_done_trans:
  assumes s: "rx_step env wl wl1" "rx_counter wl1 = rx_counter wl + of_nat j"
    and d: "rx_loop_done env st ((c + j) mod num_rx_desc wl) d wl1 r wl2"
    and c: "c < num_rx_desc wl" "d < num_rx_desc wl" "j \<le> rx_dist (num_rx_desc wl) c d"
  shows "rx_loop_done env st c d wl r wl2"
proof -
  let ?n = "num_rx_desc wl"
  have n: "num_rx_desc wl1 = ?n" by (rule rx_step_keeps(1) [OF s(1)])
  have dist: "rx_dist ?n ((c + j) mod ?n) d = rx_dist ?n c d - j" by (rule rx_dist_advance [OF c])
  from d obtain j' where st: "rx_step env wl1 wl2" and j': "j' \<le> rx_dist ?n c d - j"
    "rx_counter wl2 = rx_counter wl1 + of_nat j'"
    "isl r \<or> \<not> rx_sizes_ok wl1 st ((c + j) mod ?n) (rx_dist ?n c d - j) \<or> j' = rx_dist ?n c d - j"
    unfolding rx_loop_done_def n dist by blast
  have "rx_sizes_ok wl1 st ((c + j) mod ?n) (rx_dist ?n c d - j)" if "rx_sizes_ok wl st c (rx_dist ?n c d)"
    using rx_sizes_ok_advance [OF that s(1), of j "rx_dist ?n c d - j"] c(3) by simp
  with j' c(3) s(2) rx_step_trans [OF s(1) st] show ?thesis
    unfolding rx_loop_done_def by (intro conjI exI [of _ "j + j'"]) auto
qed

context chip_rx
begin

lemma rx_loop_empty:
  assumes c: "c < num_rx_desc wl" "d < num_rx_desc wl" "c \<noteq> d" and b: "rx_batch wl st d c 0 = Some 0"
  shows "rx_loop ops env st d c h wl = Some (Inr h, wl)" and "rx_loop_done env st c d wl (Inr h) wl"
proof -
  let ?n = "num_rx_desc wl"
  show "rx_loop ops env st d c h wl = Some (Inr h, wl)" by (subst rx_loop.simps) (simp add: c b)
  from rx_batch_slots [OF c(1,2), of 0 st] b obtain k where k: "k \<le> rx_dist ?n c d"
    "sum_list (map (rx_aligned_size wl st) (rx_slots ?n c k)) = 0"
    "k < rx_dist ?n c d \<longrightarrow> aggr_buf_size wl < rx_aligned_size wl st ((c + k) mod ?n)" by auto
  have pos: "0 < rx_dist ?n c d" using rx_dist_0 [OF c(1,2)] c(3) by simp
  have "\<not> rx_sizes_ok wl st c (rx_dist ?n c d)"
  proof
    assume "rx_sizes_ok wl st c (rx_dist ?n c d)"
    then have "0 < rx_aligned_size wl st c" "rx_aligned_size wl st c \<le> aggr_buf_size wl"
      using pos c unfolding rx_sizes_ok_iff by (metis add_0_right mod_less)+
    then show False using k pos c(1) by (cases k) (auto simp: rx_slots_Suc)
  qed
  then show "rx_loop_done env st c d wl (Inr h) wl" by (auto simp: rx_loop_done_def intro!: exI [of _ 0])
qed

lemma rx_loop_iter:
  assumes c: "c < num_rx_desc wl" "d < num_rx_desc wl" "c \<noteq> d" and bt: "rx_batch wl st d c 0 = Some b" "b \<noteq> 0"
    and q: "rx_read_batch ops env wl (st_rx_pkt_desc st c) b = (Inr u, wl1)"
  obtains j h2 wl2 where "0 < j" "j \<le> rx_dist (num_rx_desc wl) c d" "rx_step env wl wl2"
    "rx_counter wl2 = rx_counter wl + of_nat j"
    "rx_loop ops env st d c h wl = rx_loop ops env st d ((c + j) mod num_rx_desc wl) h2 wl2"
proof -
  let ?n = "num_rx_desc wl"
  from rx_batch_slots [OF c(1,2), of 0 st] bt obtain k where k: "k \<le> rx_dist ?n c d"
    and b: "b = sum_list (map (rx_aligned_size wl st) (rx_slots ?n c k))" "b \<le> aggr_buf_size wl" by auto
  note rb = rx_read_batch_step [OF b(2), of env "st_rx_pkt_desc st c", unfolded q snd_conv]
  note kp = rx_step_keeps(1,2) [OF rb(1)]
  have "rx_aligned_size wl1 st = rx_aligned_size wl st" by (rule ext) (rule rx_aligned_cong [OF kp(2)])
  then have b1: "b = 0 + sum_list (map (rx_aligned_size wl1 st) (rx_slots (num_rx_desc wl1) c k))"
    using b(1) by (simp add: kp(1))
  from rx_split_slots [OF _ b1, of env h] c bt(2) obtain j where j: "j \<le> k" "0 < j"
    and sp: "rx_split ops env st b c 0 h wl1 = Some ((c + j) mod ?n, rx_each ops env st (rx_slots ?n c j) 0 h wl1)"
    unfolding kp by auto
  obtain h2 wl2 where e: "rx_each ops env st (rx_slots ?n c j) 0 h wl1 = (h2, wl2)" by (rule prod.exhaust)
  show thesis
  proof (rule that [of j wl2 h2])
    show "rx_step env wl wl2"
      using rx_step_trans [OF rb(1) rx_each_step [of env wl1 st "rx_slots ?n c j" 0 h]] e by simp
    show "rx_counter wl2 = rx_counter wl + of_nat j"
      using rx_each_counter [of env st "rx_slots ?n c j" 0 h wl1] e rb(2) by (simp add: rx_slots_def)
    show "rx_loop ops env st d c h wl = rx_loop ops env st d ((c + j) mod ?n) h2 wl2"
      by (subst rx_loop.simps) (simp add: c bt q sp e)
  qed (use j k in linarith)+
qed

lemma rx_loop_ends:
  assumes "c < num_rx_desc wl" and "d < num_rx_desc wl"
  shows "\<exists>r wl'. rx_loop ops env st d c h wl = Some (r, wl') \<and> rx_loop_done env st c d wl r wl'"
  using assms
proof (induction "rx_dist (num_rx_desc wl) c d" arbitrary: c h wl rule: less_induct)
  case less
  let ?n = "num_rx_desc wl"
  note c = less.prems(1) and dn = less.prems(2)
  obtain b where b: "rx_batch wl st d c 0 = Some b" "b \<le> aggr_buf_size wl"
    using rx_batch_slots [OF c dn, of 0 st] by auto
  obtain q wl1 where q: "rx_read_batch ops env wl (st_rx_pkt_desc st c) b = (q, wl1)" by (rule prod.exhaust)
  consider (same) "c = d" | (empty) "c \<noteq> d" "b = 0" | (err) e where "c \<noteq> d" "b \<noteq> 0" "q = Inl e"
    | (go) u where "c \<noteq> d" "b \<noteq> 0" "q = Inr u"
    by (cases q) auto
  then show ?case
  proof cases
    case same
    have "rx_loop ops env st d c h wl = Some (Inr h, wl)" by (subst rx_loop.simps) (simp add: same)
    then show ?thesis using same by (simp add: rx_loop_done_def rx_dist_def)
  next
    case empty
    with rx_loop_empty [OF c dn] b show ?thesis by blast
  next
    case err
    have "rx_loop ops env st d c h wl = Some (Inl e, wl1)" by (subst rx_loop.simps) (simp add: err b q)
    then show ?thesis
      using rx_read_batch_step [OF b(2), of env "st_rx_pkt_desc st c"] q
      by (auto simp: rx_loop_done_def intro!: exI [of _ 0])
  next
    case go
    obtain j h2 wl2 where j: "0 < j" "j \<le> rx_dist ?n c d" "rx_step env wl wl2"
      "rx_counter wl2 = rx_counter wl + of_nat j"
      and it: "rx_loop ops env st d c h wl = rx_loop ops env st d ((c + j) mod ?n) h2 wl2"
      by (rule rx_loop_iter [OF c dn go(1) b(1) go(2) q [unfolded go(3)], of h])
    note n2 = rx_step_keeps(1) [OF j(3)]
    have "rx_dist (num_rx_desc wl2) ((c + j) mod ?n) d < rx_dist ?n c d"
      unfolding n2 rx_dist_advance [OF c dn j(2)] using j(1,2) by simp
    from less.hyps [OF this, of h2] c dn n2 obtain r wl' where r:
      "rx_loop ops env st d ((c + j) mod ?n) h2 wl2 = Some (r, wl')"
      "rx_loop_done env st ((c + j) mod ?n) d wl2 r wl'" by auto
    then show ?thesis using rx_loop_done_trans [OF j(3,4) r(2) c dn j(2)] it by simp
  qed
qed

end

section \<open>Reception as a whole\<close>

lemma unat_add_mod:
  fixes x :: u32
  assumes "n dvd 2 ^ 32"
  shows "unat (x + of_nat j) mod n = (unat x + j) mod n"
proof -
  have "unat (x + of_nat j) = (unat x + j) mod 2 ^ 32"
    by (simp add: unat_word_ariths unat_of_nat mod_simps take_bit_eq_mod)
  then show ?thesis using assms by (simp add: mod_mod_cancel)
qed

lemma rx_dist_reaches: "c < n \<Longrightarrow> d < n \<Longrightarrow> (c + rx_dist n c d) mod n = d"
  by (auto simp: rx_dist_def)

lemma io_step_rearm_rx_streaming: "io_step wl (wl12xx_rearm_rx_streaming wl hs)"
proof -
  have v: "io_step w (rearm_rx_streaming_vif hs v w)" for v w
    using io_step_trans [OF io_step_emit [of "C_queue_work (RX_STREAMING_ENABLE_WORK v)" w] io_step_emit]
    by (auto simp: rearm_rx_streaming_vif_def Let_def)
  have "io_step wl (fold (rearm_rx_streaming_vif hs) vs wl)" for vs
    by (rule fold_invariant_list [where P = "io_step wl"], simp, erule io_step_trans [OF _ v])
  then show ?thesis by (simp add: wl12xx_rearm_rx_streaming_def)
qed

context chip_rx
begin

lemma wlcore_rx_ends:
  assumes n: "0 < num_rx_desc wl" "num_rx_desc wl dvd 2 ^ 32"
  shows "\<exists>r wl'. wlcore_rx ops env wl st = Some (r, wl') \<and> rx_step env wl wl'
     \<and> (r = Inr () \<and> rx_sizes_ok wl st (unat (rx_counter wl) mod num_rx_desc wl)
          (rx_dist (num_rx_desc wl) (unat (rx_counter wl) mod num_rx_desc wl) (st_fw_rx_counter st mod num_rx_desc wl))
        \<longrightarrow> unat (rx_counter wl') mod num_rx_desc wl = st_fw_rx_counter st mod num_rx_desc wl)"
proof -
  let ?n = "num_rx_desc wl"
  let ?c = "unat (rx_counter wl) mod ?n" and ?d = "st_fw_rx_counter st mod ?n"
  have lt: "?c < ?n" "?d < ?n" using n(1) by simp_all
  obtain r wl1 where l: "rx_loop ops env st ?d ?c {} wl = Some (r, wl1)" and dn: "rx_loop_done env st ?c ?d wl r wl1"
    using rx_loop_ends [OF lt, of env st "{}"] by blast
  from dn obtain j where s1: "rx_step env wl wl1" and j: "rx_counter wl1 = rx_counter wl + of_nat j"
    "isl r \<or> \<not> rx_sizes_ok wl st ?c (rx_dist ?n ?c ?d) \<or> j = rx_dist ?n ?c ?d"
    unfolding rx_loop_done_def by blast
  show ?thesis
  proof (cases r)
    case (Inl e)
    then show ?thesis using l s1 n by (simp add: wlcore_rx_def)
  next
    case (Inr h)
    define fin where "fin = (\<lambda>(_ :: unit) wl2. (Inr () :: unit res, wl12xx_rearm_rx_streaming wl2 h))"
    define m where "m = (if WLCORE_QUIRK_END_OF_TRANSACTION \<in> wl_quirks wl1
      then wlcore_write32 env wl1 WL12XX_REG_RX_DRIVER_COUNTER (rx_counter wl1) else (Inr () :: unit res, wl1))"
    have e: "wlcore_rx ops env wl st = Some (and_then m fin)" using l n by (simp add: wlcore_rx_def Inr m_def fin_def)
    have "io_step wl1 (snd m)" by (simp add: m_def io_step_write32)
    moreover have "io_step w (snd (fin u w))" for u w by (simp add: fin_def io_step_rearm_rx_streaming)
    ultimately have i: "io_step wl1 (snd (and_then m fin))" by (rule io_step_seq)
    then have k: "rx_counter (snd (and_then m fin)) = rx_counter wl1" by (auto elim!: io_stepE)
    have "unat (rx_counter wl1) mod ?n = ?d" if "rx_sizes_ok wl st ?c (rx_dist ?n ?c ?d)"
    proof -
      have "j = rx_dist ?n ?c ?d" using j(2) that Inr by simp
      then have "unat (rx_counter wl1) mod ?n = (unat (rx_counter wl) + rx_dist ?n ?c ?d) mod ?n"
        using unat_add_mod [OF n(2), of "rx_counter wl" j] by (simp add: j(1))
      also have "\<dots> = (?c + rx_dist ?n ?c ?d) mod ?n" by (simp add: mod_simps)
      also have "\<dots> = ?d" by (rule rx_dist_reaches [OF lt])
      finally show ?thesis .
    qed
    then show ?thesis
      using e k rx_step_trans [OF s1 io_step_rx_step [OF i, of env]] by (cases "and_then m fin") simp
  qed
qed

lemma wlcore_rx_returns:
  assumes n: "0 < num_rx_desc wl"
  shows "\<exists>r wl'. wlcore_rx ops env wl st = Some (r, wl') \<and> rx_step env wl wl'"
proof -
  let ?n = "num_rx_desc wl"
  have lt: "unat (rx_counter wl) mod ?n < ?n" "st_fw_rx_counter st mod ?n < ?n" using n(1) by simp_all
  obtain r wl1 where l: "rx_loop ops env st (st_fw_rx_counter st mod ?n) (unat (rx_counter wl) mod ?n) {} wl = Some (r, wl1)"
    and s1: "rx_step env wl wl1"
    using rx_loop_ends [OF lt, of env st "{}"] by (auto simp: rx_loop_done_def)
  show ?thesis
  proof (cases r)
    case (Inl e)
    then show ?thesis using l s1 n by (simp add: wlcore_rx_def)
  next
    case (Inr h)
    have "io_step wl1 (snd (and_then (if WLCORE_QUIRK_END_OF_TRANSACTION \<in> wl_quirks wl1
        then wlcore_write32 env wl1 WL12XX_REG_RX_DRIVER_COUNTER (rx_counter wl1) else (Inr (), wl1))
        (\<lambda>_ wl2. (Inr () :: unit res, wl12xx_rearm_rx_streaming wl2 h))))" (is "io_step wl1 (snd ?m)")
      by (rule io_step_seq) (simp_all add: io_step_write32 io_step_rearm_rx_streaming)
    then show ?thesis
      using l n rx_step_trans [OF s1 io_step_rx_step, of "snd ?m"] by (cases ?m) (simp add: wlcore_rx_def Inr)
  qed
qed

end

section \<open>Reception and the packets to be sent\<close>

text \<open>
  The allocator returns buffers that hold no packet: their entries in the store are zeroed, and they
  are neither packets mac80211 gave to the driver nor the dummy packet.
\<close>

definition fresh_skbs :: "wl_env \<Rightarrow> wl1271 \<Rightarrow> bool" where
  "fresh_skbs env wl \<longleftrightarrow>
     (\<forall>p \<in> range (e_skb env). skb_queue_mapping (skbs wl p) = 0 \<and> p \<notin># owned wl \<and> p \<noteq> dummy_packet wl)"

lemma rx_step_quiet:
  assumes "rx_step env wl wl'" and "fresh_skbs env wl"
  shows "quiet_step wl wl'" and "frames_fit wl' = frames_fit wl" and "fresh_skbs env wl'"
proof -
  from assms(1) obtain f dq rc ab fl nz fs sk l where w:
    "wl' = wl\<lparr>wl_flags := f, deferred_rx_queue := deferred_rx_queue wl @ dq, rx_counter := rc,
           aggr_buf := ab, fwlog := fl, noise := nz, fwlog_size := fs, skbs := sk, log := log wl @ l\<rparr>"
    and f: "wl_flags wl \<subseteq> f" "f \<subseteq> insert WL1271_FLAG_IO_FAILED (wl_flags wl)" "list_all quiet_call l"
      "\<And>p. sk p = skbs wl p \<or> p \<in> range (e_skb env) \<and> skb_queue_mapping (sk p) = 0"
    unfolding rx_step_def by blast
  have old: "sk p = skbs wl p" if "p \<in># queued wl \<or> p = dummy_packet wl" for p
    using that f(4) [of p] assms(2) by (auto simp: fresh_skbs_def owned_def)
  have map: "skb_queue_mapping (sk p) = skb_queue_mapping (skbs wl p)" for p
    using f(4) [of p] assms(2) by (auto simp: fresh_skbs_def)
  show q: "quiet_step wl wl'" by (rule quiet_stepI [where l = l]) (use f map w in auto)
  note acc = quiet_step_accounts(2,8) [OF q]
  show "frames_fit wl' = frames_fit wl"
    using acc q old by (auto simp: frames_fit_def fits_def quiet_step_def w)
  show "fresh_skbs env wl'"
    using assms(2) map acc by (simp add: fresh_skbs_def) (simp add: w)
qed

end
