(* ===== verification/WlTxInv.thy ===== *)
theory WlTxInv
  imports WlRx
begin

text \<open>
  The dummy packet the firmware asks for when it runs short of receive memory
  (\<open>wl12xx_alloc_dummy_packet\<close> and \<open>wl1271_tx_dummy_packet\<close> of wlcore/main.c), and the invariant of the
  transmit path that every handler keeps: the queues and descriptors are consistent, every packet is
  accounted for and fits the aggregation buffer, the dummy packet can be sent again, and mac80211's
  view of the queues is the driver's.
\<close>

section \<open>The dummy packet\<close>

abbreviation (input) TOTAL_TX_DUMMY_PACKET_SIZE :: nat where "TOTAL_TX_DUMMY_PACKET_SIZE \<equiv> ALIGN 1400 512"
abbreviation (input) HDR_3ADDR_LEN :: nat where "HDR_3ADDR_LEN \<equiv> 24"
abbreviation (input) WL1271_TID_MGMT :: u32 where "WL1271_TID_MGMT \<equiv> 7"

text \<open>The frame control is that of a null-function data frame to the distribution system.\<close>

definition dummy_skb :: sk_buff where
  "dummy_skb = skb_zeroed\<lparr>
     skb_head := replicate TX_DESC_LEN 0 @ le16 0x0148
                 @ replicate (TOTAL_TX_DUMMY_PACKET_SIZE - TX_DESC_LEN - 2) 0,
     skb_data := TX_DESC_LEN,
     skb_len := HDR_3ADDR_LEN + (TOTAL_TX_DUMMY_PACKET_SIZE - TX_DESC_LEN - HDR_3ADDR_LEN),
     skb_priority := WL1271_TID_MGMT\<rparr>"

definition wl12xx_alloc_dummy_packet :: "wl_env \<Rightarrow> wl1271 \<Rightarrow> skb_ptr option \<times> wl1271" where
  "wl12xx_alloc_dummy_packet env wl =
     (case dev_alloc_skb env TOTAL_TX_DUMMY_PACKET_SIZE wl of
        (None, wl1) \<Rightarrow> (None, wl1)
      | (Some p, wl1) \<Rightarrow> (Some p, upd_skb p (\<lambda>_. dummy_skb) wl1))"

definition wl1271_tx_dummy_packet ::
  "wlcore_ops \<Rightarrow> wl_env \<Rightarrow> wl1271 \<Rightarrow> (unit res \<times> wl1271) option" where
  "wl1271_tx_dummy_packet ops env wl =
     (if WL1271_FLAG_DUMMY_PACKET_PENDING \<in> wl_flags wl then Some (Inr (), wl)
      else
        let q = wl1271_tx_get_queue (skb_queue_mapping (skbs wl (dummy_packet wl)));
            wl1 = set_flag WL1271_FLAG_DUMMY_PACKET_PENDING wl;
            wl2 = wl1\<lparr>tx_queue_count := (tx_queue_count wl1)(q := tx_queue_count wl1 q + 1)\<rparr>
        in if WL1271_FLAG_FW_TX_BUSY \<notin> wl_flags wl2 then wlcore_tx_work_locked ops env wl2
           else Some (Inr (), wl2))"

section \<open>The dummy packet is reusable\<close>

text \<open>
  The dummy packet is sent again and again, so sending it must leave its length and its (absent) key
  as they were. \<open>dummy_same\<close> holds of every operation of the transmit path.
\<close>

definition dummy_same :: "wl1271 \<Rightarrow> wl1271 \<Rightarrow> bool" where
  "dummy_same wl wl' \<longleftrightarrow> dummy_packet wl' = dummy_packet wl \<and> aggr_buf_size wl' = aggr_buf_size wl
     \<and> skb_len (skbs wl' (dummy_packet wl)) = skb_len (skbs wl (dummy_packet wl))
     \<and> ti_hw_key (skb_info (skbs wl' (dummy_packet wl))) = ti_hw_key (skb_info (skbs wl (dummy_packet wl)))"

definition dummy_ok :: "wl1271 \<Rightarrow> bool" where
  "dummy_ok wl \<longleftrightarrow> fits wl (dummy_packet wl) \<and> ti_hw_key (skb_info (skbs wl (dummy_packet wl))) = None"

lemma dummy_ok_same: "dummy_same wl wl' \<Longrightarrow> dummy_ok wl' = dummy_ok wl"
  by (auto simp: dummy_same_def dummy_ok_def fits_def)

lemma dummy_same_refl [simp, intro]: "dummy_same wl wl"
  by (simp add: dummy_same_def)

lemma dummy_same_trans [trans]: "dummy_same a b \<Longrightarrow> dummy_same b c \<Longrightarrow> dummy_same a c"
  by (simp add: dummy_same_def)

lemma dummy_sameI:
  "skbs wl' = skbs wl \<Longrightarrow> dummy_packet wl' = dummy_packet wl \<Longrightarrow> aggr_buf_size wl' = aggr_buf_size wl \<Longrightarrow>
   dummy_same wl wl'"
  by (simp add: dummy_same_def)

lemma dummy_same_quiet: "quiet_step wl wl' \<Longrightarrow> skbs wl' = skbs wl \<Longrightarrow> dummy_same wl wl'"
  by (simp add: dummy_same_def quiet_step_def)

lemma dummy_same_cmd: "cmd_step wl wl' \<Longrightarrow> dummy_same wl wl'"
  by (auto simp: dummy_same_def elim!: cmd_stepE)

lemma dummy_same_io: "io_step wl wl' \<Longrightarrow> dummy_same wl wl'"
  by (intro dummy_same_cmd io_step_cmd_step)

lemma dummy_same_emit [simp, intro]: "dummy_same wl (emit c wl)"
  by (simp add: dummy_same_def emit_def)

lemma dummy_same_stop: "stop_step wl wl' \<Longrightarrow> dummy_same wl wl'"
  by (auto simp: dummy_same_def stop_step_def)

lemma dummy_same_rr: "rr_eq wl' wl \<Longrightarrow> dummy_same wl wl'"
  using rr_eq_queue(6,12) [of wl' wl] rr_eq_tx(6) [of wl' wl] by (simp add: dummy_same_def)

lemma dummy_same_upd_skb:
  assumes "\<And>s. skb_len (f s) = skb_len s \<and> ti_hw_key (skb_info (f s)) = ti_hw_key (skb_info s)"
  shows "dummy_same wl (upd_skb p f wl)"
  using assms by (simp add: dummy_same_def upd_skb_def)

lemma dummy_same_other: "p \<noteq> dummy_packet wl \<Longrightarrow> dummy_same wl (upd_skb p f wl)"
  by (simp add: dummy_same_def upd_skb_def)

lemma dummy_same_drain_link:
  assumes one: "\<And>p w. dummy_same w (one p w)"
  shows "dummy_same wl (drain_link one wl h)"
proof -
  have q: "dummy_same w (drain_queue one h i w)" for i w
  proof -
    define w0 where "w0 = upd_link h (\<lambda>l. l\<lparr>tx_queue := (tx_queue l)(i := [])\<rparr>) w"
    have "dummy_same w w0" by (rule dummy_sameI) (simp_all add: w0_def upd_link_def)
    then have "dummy_same w (fold one ps w0)" for ps
      by (rule fold_invariant_list) (rule dummy_same_trans [OF _ one])
    then show ?thesis by (simp add: drain_queue_def w0_def)
  qed
  define w1 where "w1 = fold (drain_queue one h) [0..<NUM_TX_QUEUES] wl"
  have 1: "dummy_same wl w1"
    unfolding w1_def by (rule fold_invariant_list [where P = "dummy_same wl"]) (auto intro: dummy_same_trans q)
  let ?w2 = "w1\<lparr>tx_queue_count := (\<lambda>i. if i < NUM_TX_QUEUES
      then tx_queue_count w1 i - int (length (tx_queue (links wl h) i)) else tx_queue_count w1 i)\<rparr>"
  have 2: "dummy_same w1 ?w2" by (rule dummy_sameI) simp_all
  show ?thesis
    unfolding drain_link_def Let_def w1_def [symmetric]
    by (rule dummy_same_trans [OF dummy_same_trans [OF 1 2] dummy_same_stop [OF stop_step_low_watermark]])
qed

lemma dummy_same_drop_one: "dummy_same wl (drop_one p wl)"
proof -
  have "dummy_same wl (upd_skb p (\<lambda>s. s\<lparr>skb_info := status_failed (skb_info s)\<rparr>) wl)"
    by (rule dummy_same_upd_skb) (simp add: status_failed_def)
  then show ?thesis by (auto simp: drop_one_def intro: dummy_same_trans [OF _ dummy_same_emit])
qed

lemma dummy_same_filter_one: "dummy_same wl (filter_one p wl)"
proof -
  have "dummy_same wl (upd_skb p (\<lambda>s. s\<lparr>skb_info := status_filtered (skb_info s)\<rparr>) wl)"
    by (rule dummy_same_upd_skb) (simp add: status_filtered_def)
  then show ?thesis by (auto simp: filter_one_def intro: dummy_same_trans [OF _ dummy_same_emit])
qed

lemma dummy_same_ps_link_start: "dummy_same wl (wl12xx_ps_link_start env wl v h c)"
proof -
  let ?w1 = "emit (C_sta_ps_transition v (lnk_addr (links wl h)) True) wl"
  have 1: "dummy_same wl ?w1" by simp
  have 2: "dummy_same wl (wl1271_ps_filter_frames ?w1 h)"
    unfolding wl1271_ps_filter_frames_def
    by (rule dummy_same_trans [OF 1 dummy_same_drain_link]) (rule dummy_same_filter_one)
  have 3: "dummy_same w (w\<lparr>ap_ps_map := m\<rparr>)" for w m by (rule dummy_sameI) simp_all
  show ?thesis
    using dummy_same_trans [OF 1 3] dummy_same_trans [OF 2 3] by (simp add: wl12xx_ps_link_start_def Let_def)
qed

lemma dummy_same_regulate: "dummy_same wl (wl1271_tx_regulate_link env wl v h)"
  by (simp add: wl1271_tx_regulate_link_def Let_def dummy_same_ps_link_start)

lemma keylen_simps [simp]:
  "skb_len (tx_relocate x fc s) = skb_len s" "skb_info (tx_relocate x fc s) = skb_info s"
  "skb_len (skb_push n s) = skb_len s + n" "skb_info (skb_push n s) = skb_info s"
  "skb_info (skb_pull n s) = skb_info s" "n \<le> skb_len s \<Longrightarrow> skb_len (skb_pull n s) = skb_len s - n"
  by (simp_all add: tx_relocate_def skb_write_def skb_push_def skb_pull_def)

lemma dummy_same_fill_hdr: "dummy_same wl (wl1271_tx_fill_hdr ops env wl wlvif p e h)"
  by (simp add: dummy_same_def wl1271_tx_fill_hdr_def Let_def upd_skb_def emit_def)

lemma tx_allocated_fields:
  "dummy_packet (tx_allocated ops wl wlvif p e h i t s) = dummy_packet wl"
  "aggr_buf_size (tx_allocated ops wl wlvif p e h i t s) = aggr_buf_size wl"
  using quiet_step_tx_allocated [of wl ops wlvif p e h i t s] by (simp_all add: quiet_step_def)

lemma tx_allocated_dummy:
  fixes wl :: wl1271
  defines "d \<equiv> dummy_packet wl"
  shows "skb_len (skbs (tx_allocated ops wl wlvif p e h i t s) d) = skb_len (skbs wl d) + (if p = d then TX_DESC_LEN + e else 0)"
    and "ti_hw_key (skb_info (skbs (tx_allocated ops wl wlvif p e h i t s) d)) = ti_hw_key (skb_info (skbs wl d))"
  by (simp_all add: tx_allocated_skbs(1) tx_push_desc_def Let_def upd_skb_def emit_def)

context chip_bus
begin

lemma finish_frame_dummy:
  fixes wl :: wl1271
  defines "d \<equiv> dummy_packet wl"
  assumes "p = d \<Longrightarrow> TX_DESC_LEN \<le> skb_len (skbs wl d)"
  shows "skb_len (skbs (snd (tx_finish_frame ops env wl wlvif p e off h)) d)
           = skb_len (skbs wl d) - (if p = d then TX_DESC_LEN else 0)"
    and "ti_hw_key (skb_info (skbs (snd (tx_finish_frame ops env wl wlvif p e off h)) d)) = ti_hw_key (skb_info (skbs wl d))"
    and "dummy_packet (snd (tx_finish_frame ops env wl wlvif p e off h)) = d"
    and "aggr_buf_size (snd (tx_finish_frame ops env wl wlvif p e off h)) = aggr_buf_size wl"
proof -
  define wl1 where "wl1 = wl1271_tx_fill_hdr ops env wl wlvif p e h"
  define wl2 where "wl2 = (case wlvif of Some v \<Rightarrow>
        if \<not> wl12xx_is_dummy_packet wl p \<and> vif_bss_type (vifs wl1 v) = BSS_TYPE_AP_BSS
        then wl1271_tx_regulate_link env (wl1271_tx_ap_update_inconnection_sta ops env wl1 p) v h
        else wl1 | None \<Rightarrow> wl1)"
  define wl3 where "wl3 = snd (tx_copy_aggr wl2 p off)"
  have 1: "dummy_same wl wl1" unfolding wl1_def by (rule dummy_same_fill_hdr)
  have "dummy_same wl1 (wl1271_tx_regulate_link env (wl1271_tx_ap_update_inconnection_sta ops env wl1 p) v h)" for v
    by (rule dummy_same_trans [OF dummy_same_cmd [OF inconnection_step] dummy_same_regulate])
  then have 2: "dummy_same wl1 wl2" by (simp add: wl2_def split: option.split)
  have 3: "dummy_same wl2 wl3" by (rule dummy_sameI) (simp_all add: wl3_def tx_copy_aggr_def Let_def)
  have s: "dummy_same wl wl3" by (rule dummy_same_trans [OF dummy_same_trans [OF 1 2] 3])
  have e: "snd (tx_finish_frame ops env wl wlvif p e off h)
      = (if wl12xx_is_dummy_packet wl p then upd_skb p (skb_pull TX_DESC_LEN) wl3 else wl3)"
    by (simp add: tx_finish_frame_def Let_def wl1_def [symmetric] wl2_def [symmetric] wl3_def split_beta)
  note d = s [unfolded dummy_same_def, folded d_def]
  show "skb_len (skbs (snd (tx_finish_frame ops env wl wlvif p e off h)) d)
           = skb_len (skbs wl d) - (if p = d then TX_DESC_LEN else 0)"
    "ti_hw_key (skb_info (skbs (snd (tx_finish_frame ops env wl wlvif p e off h)) d)) = ti_hw_key (skb_info (skbs wl d))"
    "dummy_packet (snd (tx_finish_frame ops env wl wlvif p e off h)) = d"
    "aggr_buf_size (snd (tx_finish_frame ops env wl wlvif p e off h)) = aggr_buf_size wl"
    using d assms(2) by (auto simp: e wl12xx_is_dummy_packet_def upd_skb_def d_def)
qed

lemma prepare_dummy_same:
  assumes ok: "tx_ok wl" and key: "ti_hw_key (skb_info (skbs wl (dummy_packet wl))) = None"
  shows "dummy_same wl (snd (wl1271_prepare_tx_frame ops env wl wlvif p off h))"
proof (cases "h = WL12XX_INVALID_LINK_ID")
  case True
  then show ?thesis by (simp add: wl1271_prepare_tx_frame_def)
next
  case False
  define k where "k = ti_hw_key (skb_info (skbs wl p))"
  obtain r wl1 where r: "tx_select_key ops env wl wlvif k = (r, wl1)" by (rule prod.exhaust)
  have q1: "quiet_step wl wl1" "skbs wl1 = skbs wl"
    using select_key_step [where wl = wl and env = env and wlvif = wlvif and key = k] r by simp_all
  have ids: "ids_ok wl1" using quiet_step_accounts(6) [OF q1(1)] ok by (simp add: tx_ok_def)
  have s1: "dummy_same wl wl1" by (rule dummy_same_quiet [OF q1])
  obtain a wl2 where a: "wl1271_tx_allocate ops wl1 wlvif p (tx_extra wl k) off h (tx_is_gem k) = (a, wl2)"
    by (rule prod.exhaust)
  have p: "wl1271_prepare_tx_frame ops env wl wlvif p off h =
      (case r of Inl e \<Rightarrow> (Inl e, wl1) | Inr _ \<Rightarrow> (case a of Inl e \<Rightarrow> (Inl e, wl2)
       | Inr _ \<Rightarrow> (case tx_finish_frame ops env wl2 wlvif p (tx_extra wl k) off h of (n, w) \<Rightarrow> (Inr n, w))))"
    using False r a by (simp add: wl1271_prepare_tx_frame_def Let_def k_def [symmetric] split: sum.split)
  let ?d = "dummy_packet wl"
  have d1: "dummy_packet wl1 = ?d" "aggr_buf_size wl1 = aggr_buf_size wl" using s1 by (simp_all add: dummy_same_def)
  from ids a have "dummy_same wl (if isl a then wl2 else snd (tx_finish_frame ops env wl2 wlvif p (tx_extra wl k) off h))"
  proof (cases rule: tx_allocate_cases)
    case full
    then show ?thesis using s1 by simp
  next
    case busy
    then show ?thesis using dummy_same_trans [OF s1 dummy_same_quiet] by simp
  next
    case (sent i wl1' t s)
    have al: "skbs wl1' = skbs wl" "dummy_packet wl1' = ?d" "aggr_buf_size wl1' = aggr_buf_size wl"
      using alloc_tx_id_Inr [OF sent(2)] q1(2) d1 by simp_all
    note f = tx_allocated_dummy [of ops wl1' wlvif p "tx_extra wl k" h i t s, folded sent(3), unfolded al]
    have d2: "dummy_packet wl2 = ?d" "aggr_buf_size wl2 = aggr_buf_size wl"
      unfolding sent(3) tx_allocated_fields al by simp_all
    have ex: "tx_extra wl k = 0" if "p = ?d" using that key by (simp add: k_def tx_extra_def)
    note g = finish_frame_dummy [of p wl2 env wlvif "tx_extra wl k" off h, unfolded d2]
    have "dummy_same wl (snd (tx_finish_frame ops env wl2 wlvif p (tx_extra wl k) off h))"
      unfolding dummy_same_def using g f ex by (auto split: if_splits)
    then show ?thesis using sent(1) by simp
  qed
  then show ?thesis using s1 by (cases r; cases a) (simp_all add: p split_beta)
qed

end

lemma dummy_same_seq:
  "dummy_same wl (snd m) \<Longrightarrow> (\<And>x. fst m = Inr x \<Longrightarrow> dummy_same (snd m) (snd (f x (snd m)))) \<Longrightarrow>
   dummy_same wl (snd (and_then m f))"
  by (rule and_then_rel [of dummy_same]) (blast intro: dummy_same_trans)+

context chip_tx
begin

lemma flush_aggr_dummy: "dummy_same wl (snd (tx_flush_aggr ops env wl off len))"
  by (rule dummy_same_quiet [OF flush_aggr_quiet])

lemma tx_frame_failed_dummy: "dummy_same wl (iter_state (tx_frame_failed ops env st wl p v h e))"
proof -
  let ?w = "wl1271_skb_queue_head wl v p h"
  have w: "dummy_same wl ?w" by (rule dummy_sameI) (simp_all add: queue_head_frame(7,9,10) [OF refl])
  have u: "dummy_same x (upd_reason n f x)" for n f x by (rule dummy_same_quiet [OF quiet_step_reason])
  have b: "dummy_same x (set_flag c x)" for c x by (rule dummy_sameI) (simp_all add: set_flag_def)
  obtain r wl1 where f: "tx_flush_aggr ops env ?w (tl_buf_offset st) (tl_last_len st) = (r, wl1)" by (rule prod.exhaust)
  have 1: "dummy_same wl wl1"
    using dummy_same_trans [OF w flush_aggr_dummy [where env = env and off = "tl_buf_offset st" and len = "tl_last_len st"]] f
    by simp
  show ?thesis
    using 1 dummy_same_trans [OF 1 u] dummy_same_trans [OF dummy_same_trans [OF w b] u] dummy_same_trans [OF w u]
      dummy_same_trans [OF dummy_same_emit u]
    by (cases r) (auto simp: tx_frame_failed_def iter_state_def f)
qed

lemma tx_iter_dummy:
  assumes ok: "tx_ok wl" and key: "ti_hw_key (skb_info (skbs wl (dummy_packet wl))) = None"
  shows "dummy_same wl (iter_state (tx_iter ops env st wl))"
  using ok
proof (cases rule: skb_dequeue_tx)
  case (empty wl1)
  have "dummy_same wl1 (upd_reason n f wl1)" for n f by (rule dummy_same_quiet [OF quiet_step_reason])
  then show ?thesis
    using empty dummy_same_rr [OF empty(2)] dummy_same_trans by (auto simp: tx_iter_def iter_state_def)
next
  case (packet p h wl1)
  define v where "v = tx_wlvif wl1 p"
  define g where "g = (if v = None then system_hlid wl1 else h)"
  have d1: "dummy_same wl wl1" by (rule dummy_sameI) (use packet(2) in \<open>simp_all add: dequeued_def\<close>)
  then have key1: "ti_hw_key (skb_info (skbs wl1 (dummy_packet wl1))) = None" using key by (simp add: dummy_same_def)
  have ok1: "tx_ok wl1" using packet(2) by (simp add: dequeued_def)
  obtain r wl2 where r: "wl1271_prepare_tx_frame ops env wl1 v p (tl_buf_offset st) g = (r, wl2)" by (rule prod.exhaust)
  have d2: "dummy_same wl wl2"
    using dummy_same_trans [OF d1 prepare_dummy_same [OF ok1 key1, where env = env and wlvif = v and p = p
          and off = "tl_buf_offset st" and h = g]] r by simp
  have it: "tx_iter ops env st wl = (case r of Inl e \<Rightarrow> tx_frame_failed ops env st wl2 p v g e
      | Inr len \<Rightarrow> Inr (tx_frame_sent st wl2 p (v \<noteq> None \<and> wl1271_tx_is_data_present (skbs wl1 p)) len))"
    by (simp only: tx_iter_def packet(1) prod.case option.case Let_def v_def [symmetric] g_def [symmetric] r)
  have "dummy_same wl2 (wl2\<lparr>tx_packets_count := n\<rparr>)" for n by (rule dummy_sameI) simp_all
  then show ?thesis
    using dummy_same_trans [OF d2 tx_frame_failed_dummy] dummy_same_trans [OF d2]
    by (cases r) (simp_all add: it iter_state_def tx_frame_sent_def)
qed

lemma tx_loop_dummy:
  "tx_loop ops env st wl = Some r \<Longrightarrow> tx_ok wl \<Longrightarrow> dummy_ok wl \<Longrightarrow> dummy_same wl (snd (snd r))"
proof (induction rule: tx_loop_induct)
  case (1 st wl r)
  then show ?case using tx_iter_dummy [of wl env st] by (simp add: iter_state_def dummy_ok_def split_beta)
next
  case (2 st wl st' wl' r)
  have "tx_progress wl wl'" using tx_iter_progress [of wl env st] 2 by (simp add: iter_state_def)
  then have ok: "tx_ok wl'" by (simp add: tx_progress_def)
  have d: "dummy_same wl wl'" using 2 tx_iter_dummy [of wl env st] by (simp add: iter_state_def dummy_ok_def)
  have "dummy_ok wl'" using dummy_ok_same [OF d] 2 by simp
  then show ?case using 2 ok dummy_same_trans [OF d] by blast
qed

lemma tx_out_ack_dummy: "dummy_same wl (snd (tx_out_ack ops env st wl))"
proof -
  have l: "dummy_same w (wl1271_handle_tx_low_watermark w)" for w by (rule dummy_same_stop [OF stop_step_low_watermark])
  have r: "dummy_same w (wl12xx_rearm_rx_streaming w hs)" for w hs by (rule dummy_same_io [OF io_step_rearm_rx_streaming])
  have i: "dummy_same w (snd (wlcore_write32 env w a x))" for w a x by (rule dummy_same_io [OF io_step_write32])
  show ?thesis
    unfolding tx_out_ack_def by (intro dummy_same_seq) (auto intro!: dummy_same_seq flush_aggr_dummy simp: l r i)
qed

lemma tx_work_locked_dummy:
  assumes w: "wlcore_tx_work_locked ops env wl = Some (r, wl')" and "tx_ok wl" and "dummy_ok wl"
  shows "dummy_same wl wl'"
proof (cases "tx_loop ops env tx_locals_init wl")
  case None
  then show ?thesis using w by (auto simp: wlcore_tx_work_locked_def split: if_splits)
next
  case (Some z)
  then obtain x st w where z: "tx_loop ops env tx_locals_init wl = Some (x, st, w)" by (cases z) auto
  have f: "dummy_same wl w" using tx_loop_dummy [OF z assms(2,3)] by simp
  show ?thesis
    using assms(1) z f dummy_same_trans [OF f tx_out_ack_dummy [of w env st]]
    by (cases x) (auto simp: wlcore_tx_work_locked_def split: if_splits)
qed

end

section \<open>The invariant of the transmit path\<close>

definition tx_inv :: "wl1271 \<Rightarrow> bool" where
  "tx_inv wl \<longleftrightarrow> tx_ok wl \<and> frames_fit wl \<and> dummy_ok wl \<and> stop_view_ok wl"

text \<open>The packets the transmit path does not hold keep their queue.\<close>

definition outside_same :: "wl1271 \<Rightarrow> wl1271 \<Rightarrow> bool" where
  "outside_same wl wl' \<longleftrightarrow>
     (\<forall>p. p \<notin># owned wl \<and> p \<noteq> dummy_packet wl \<longrightarrow>
        skb_queue_mapping (skbs wl' p) = skb_queue_mapping (skbs wl p))"

text \<open>
  \<open>tx_keeps wl wl'\<close>: from a state in which the invariant holds it still holds, no packet is lost or
  duplicated, and none is taken in.
\<close>

definition tx_keeps :: "wl1271 \<Rightarrow> wl1271 \<Rightarrow> bool" where
  "tx_keeps wl wl' \<longleftrightarrow> tx_inv wl \<longrightarrow>
     tx_inv wl' \<and> accounted wl' = accounted wl \<and> owned wl' \<subseteq># owned wl
     \<and> dummy_packet wl' = dummy_packet wl
     \<and> outside_same wl wl'
     \<and> (wl_state wl' = WLCORE_STATE_OFF \<longleftrightarrow> wl_state wl = WLCORE_STATE_OFF)"

lemma outside_sameI: "(\<And>p. skb_queue_mapping (skbs wl' p) = skb_queue_mapping (skbs wl p)) \<Longrightarrow> outside_same wl wl'"
  by (simp add: outside_same_def)

lemma tx_keeps_refl [simp, intro]: "tx_keeps wl wl"
  by (simp add: tx_keeps_def outside_same_def)

lemma tx_keeps_trans [trans]: "tx_keeps a b \<Longrightarrow> tx_keeps b c \<Longrightarrow> tx_keeps a c"
  unfolding tx_keeps_def outside_same_def by (auto intro: subset_mset.order_trans dest: mset_subset_eqD)

lemma tx_keeps_seq:
  "tx_keeps wl (snd m) \<Longrightarrow> (\<And>x. fst m = Inr x \<Longrightarrow> tx_keeps (snd m) (snd (f x (snd m)))) \<Longrightarrow>
   tx_keeps wl (snd (and_then m f))"
  by (rule and_then_rel [of tx_keeps]) (blast intro: tx_keeps_trans)+

lemma tx_keeps_fold: "(\<And>x w. x \<in> set xs \<Longrightarrow> tx_keeps w (f x w)) \<Longrightarrow> tx_keeps wl (fold f xs wl)"
  by (rule fold_invariant_list [where P = "tx_keeps wl"]) (auto intro: tx_keeps_trans)

lemma tx_keeps_quiet: "quiet_step wl wl' \<Longrightarrow> skbs wl' = skbs wl \<Longrightarrow> tx_keeps wl wl'"
  using quiet_step_accounts [of wl wl'] frames_fit_quiet [of wl wl'] dummy_ok_same [OF dummy_same_quiet, of wl wl']
  by (simp add: tx_keeps_def tx_inv_def quiet_step_def outside_same_def)

lemma tx_keeps_cmd: "cmd_step wl wl' \<Longrightarrow> tx_keeps wl wl'"
  by (rule tx_keeps_quiet) (auto simp: cmd_step_quiet elim!: cmd_stepE)

lemma tx_keeps_io: "io_step wl wl' \<Longrightarrow> tx_keeps wl wl'"
  by (intro tx_keeps_cmd io_step_cmd_step)

lemma tx_keeps_emit: "quiet_call c \<Longrightarrow> tx_keeps wl (emit c wl)"
  by (intro tx_keeps_cmd) simp

lemma tx_keeps_vif: "(\<And>vf. vif_links_map (f vf) = vif_links_map vf) \<Longrightarrow> tx_keeps wl (upd_vif v f wl)"
  by (rule tx_keeps_quiet [OF quiet_step_vif]) (simp_all add: upd_vif_def)

lemma tx_keeps_rx:
  assumes "rx_step env wl wl'" and "fresh_skbs env wl"
  shows "tx_keeps wl wl'"
proof -
  note r = rx_step_quiet [OF assms]
  note a = quiet_step_accounts [OF r(1)]
  have "\<forall>p. skbs wl' p = skbs wl p \<or> p \<in> range (e_skb env)"
    using assms(1) unfolding rx_step_def by auto
  then have d: "skbs wl' (dummy_packet wl) = skbs wl (dummy_packet wl)"
    using assms(2) unfolding fresh_skbs_def by metis
  have "dummy_same wl wl'" using d r(1) by (simp add: dummy_same_def quiet_step_def)
  then have "dummy_ok wl' = dummy_ok wl" by (rule dummy_ok_same)
  then show ?thesis
    using r a by (simp add: tx_keeps_def tx_inv_def quiet_step_def outside_same_def)
qed

lemma fresh_keeps: "tx_keeps wl wl' \<Longrightarrow> tx_inv wl \<Longrightarrow> fresh_skbs env wl \<Longrightarrow> fresh_skbs env wl'"
  unfolding tx_keeps_def outside_same_def fresh_skbs_def by (auto dest: mset_subset_eqD)

text \<open>
  \<open>tx_trim\<close>: packets only get shorter, as when the driver's headers are removed, and the queues do not
  change.
\<close>

definition tx_trim :: "wl1271 \<Rightarrow> wl1271 \<Rightarrow> bool" where
  "tx_trim wl wl' \<longleftrightarrow> (\<forall>p. skb_len (skbs wl' p) \<le> skb_len (skbs wl p))
     \<and> (\<forall>h. tx_queue (links wl' h) = tx_queue (links wl h)) \<and> dummy_same wl wl'
     \<and> (\<forall>p. skb_queue_mapping (skbs wl' p) = skb_queue_mapping (skbs wl p))
     \<and> (WL1271_FLAG_DUMMY_PACKET_PENDING \<in> wl_flags wl' \<longleftrightarrow> WL1271_FLAG_DUMMY_PACKET_PENDING \<in> wl_flags wl)"

lemma tx_trim_refl [simp, intro]: "tx_trim wl wl"
  by (simp add: tx_trim_def)

lemma tx_trim_trans [trans]: "tx_trim a b \<Longrightarrow> tx_trim b c \<Longrightarrow> tx_trim a c"
proof -
  assume 1: "tx_trim a b" and 2: "tx_trim b c"
  have "skb_len (skbs c p) \<le> skb_len (skbs a p)" for p
    using 1 2 order_trans [of "skb_len (skbs c p)" "skb_len (skbs b p)"] by (simp add: tx_trim_def)
  moreover have "dummy_same a c" using 1 2 dummy_same_trans [of a b c] by (simp add: tx_trim_def)
  ultimately show ?thesis using 1 2 by (simp add: tx_trim_def)
qed

lemma queued_cong: "(\<And>h. tx_queue (links wl' h) = tx_queue (links wl h)) \<Longrightarrow> queued wl' = queued wl"
  by (simp add: queued_def)

lemma tx_keeps_trim:
  assumes p: "tx_ok wl \<Longrightarrow> tx_progress wl wl'" and t: "tx_trim wl wl'"
  shows "tx_keeps wl wl'"
  unfolding tx_keeps_def
proof (intro impI)
  assume inv: "tx_inv wl"
  then have pr: "tx_progress wl wl'" using p by (simp add: tx_inv_def)
  have q: "queued wl' = queued wl" by (rule queued_cong) (use t in \<open>simp add: tx_trim_def\<close>)
  have d: "dummy_same wl wl'" using t by (simp add: tx_trim_def)
  have fits: "fits wl x \<Longrightarrow> fits wl' x" for x
    using t d unfolding fits_def tx_trim_def dummy_same_def by (metis add_le_mono1 order_trans)
  have own: "count (owned wl') x \<le> 1" for x
    using inv pr mset_subset_eq_count [of "owned wl'" "owned wl" x]
    unfolding tx_inv_def frames_fit_def tx_progress_def by (meson order_trans)
  have "frames_fit wl'"
    using inv own t d fits unfolding tx_inv_def frames_fit_def by (simp add: q tx_trim_def dummy_same_def)
  moreover have "dummy_ok wl'" using dummy_ok_same [OF d] inv by (simp add: tx_inv_def)
  ultimately show "tx_inv wl' \<and> accounted wl' = accounted wl \<and> owned wl' \<subseteq># owned wl
      \<and> dummy_packet wl' = dummy_packet wl \<and> outside_same wl wl'
      \<and> (wl_state wl' = WLCORE_STATE_OFF \<longleftrightarrow> wl_state wl = WLCORE_STATE_OFF)"
    using pr inv t q by (simp add: tx_progress_def tx_inv_def tx_trim_def outside_same_def)
qed

lemma tx_trim_skb:
  assumes "\<And>s. skb_len (f s) \<le> skb_len s \<and> skb_queue_mapping (f s) = skb_queue_mapping s"
    and "p \<noteq> dummy_packet wl"
  shows "tx_trim wl (upd_skb p f wl)"
  using assms dummy_same_other [OF assms(2)] by (simp add: tx_trim_def upd_skb_def)

lemma tx_trim_quiet: "quiet_step wl wl' \<Longrightarrow> skbs wl' = skbs wl \<Longrightarrow> tx_trim wl wl'"
  by (simp add: tx_trim_def dummy_same_quiet) (simp add: quiet_step_def)

lemma tx_trim_same:
  "skbs wl' = skbs wl \<Longrightarrow> links wl' = links wl \<Longrightarrow> dummy_packet wl' = dummy_packet wl \<Longrightarrow>
   aggr_buf_size wl' = aggr_buf_size wl \<Longrightarrow>
   (WL1271_FLAG_DUMMY_PACKET_PENDING \<in> wl_flags wl' \<longleftrightarrow> WL1271_FLAG_DUMMY_PACKET_PENDING \<in> wl_flags wl) \<Longrightarrow> tx_trim wl wl'"
  by (simp add: tx_trim_def dummy_same_def)

section \<open>Completions keep the invariant\<close>

lemma skb_pull_len_le: "skb_len (skb_pull n s) \<le> skb_len s"
  by (simp add: skb_pull_def)

lemma remove_headers_trim:
  assumes "p \<noteq> dummy_packet wl"
  shows "tx_trim wl (remove_tx_headers wl p)"
proof -
  let ?w = "upd_skb p (skb_pull TX_DESC_LEN) wl"
  have 1: "tx_trim wl ?w" by (rule tx_trim_skb) (simp_all add: skb_pull_len_le assms)
  have 2: "tx_trim ?w (upd_skb p (\<lambda>s. skb_pull WL1271_EXTRA_SPACE_TKIP
      (skb_write WL1271_EXTRA_SPACE_TKIP (buf_read 0 (ieee80211_get_hdrlen_from_skb s) (skb_bytes s)) s)) ?w)"
    by (rule tx_trim_skb) (use assms in \<open>simp_all add: skb_pull_def skb_write_def upd_skb_def\<close>)
  show ?thesis using 1 tx_trim_trans [OF 1 2] by (simp add: remove_tx_headers_def Let_def)
qed

lemma deferred_trim: "tx_trim wl (queue_deferred_tx wl p)"
  by (rule tx_trim_same) (simp_all add: queue_deferred_tx_def emit_def)

lemma free_id_trim: "tx_trim wl (wl1271_free_tx_id wl i)"
  by (rule tx_trim_same) (auto simp: wl1271_free_tx_id_def Let_def clear_flag_def)

lemma hand_back_trim:
  assumes "tx_trim wl w" and "p \<noteq> dummy_packet wl"
  shows "tx_trim wl (wl1271_free_tx_id (queue_deferred_tx (remove_tx_headers w p) p) i)"
proof -
  have "p \<noteq> dummy_packet w" using assms by (simp add: tx_trim_def dummy_same_def)
  note r = remove_headers_trim [OF this]
  show ?thesis by (rule tx_trim_trans [OF tx_trim_trans [OF tx_trim_trans [OF assms(1) r] deferred_trim] free_id_trim])
qed

lemma apply_result_skbs:
  "\<exists>w band. skbs (tx_apply_result r p wl)
     = (skbs wl)(p := (skbs wl p)\<lparr>skb_info := tx_result_info w band r (skb_info (skbs wl p))\<rparr>)"
proof -
  define info where "info = skb_info (skbs wl p)"
  define v where "v = (case ti_vif info of Some v \<Rightarrow> v | None \<Rightarrow> 0)"
  define wl1 where "wl1 = (if ti_vif info = None \<and> (res_status r = TX_SUCCESS \<or> key_counts_seq (ti_hw_key info))
      then emit C_oops wl else wl)"
  define wl2 where "wl2 = (if res_status r = TX_RETRY_EXCEEDED
      then wl1\<lparr>stats_excessive_retries := stats_excessive_retries wl1 + 1\<rparr> else wl1)"
  have "skbs wl2 = skbs wl" by (simp add: wl2_def wl1_def emit_def)
  moreover have "skbs (tx_apply_result r p wl)
      = skbs (upd_skb p (\<lambda>s. s\<lparr>skb_info := tx_result_info wl2 (vif_band (vifs wl2 v)) r (skb_info s)\<rparr>) wl2)"
    unfolding tx_apply_result_def Let_def info_def [symmetric] v_def [symmetric] wl1_def [symmetric] wl2_def [symmetric]
    by (simp add: upd_vif_def)
  ultimately show ?thesis by (auto simp: upd_skb_def)
qed

lemma apply_result_trim: "tx_trim wl (tx_apply_result r p wl)"
proof -
  obtain w band where sk: "skbs (tx_apply_result r p wl)
     = (skbs wl)(p := (skbs wl p)\<lparr>skb_info := tx_result_info w band r (skb_info (skbs wl p))\<rparr>)"
    using apply_result_skbs [of r p wl] by blast
  have k: "ti_hw_key (tx_result_info w band r i) = ti_hw_key i" for i by (simp add: tx_result_info_def Let_def)
  show ?thesis
    using quiet_step_apply_result [of wl r p] by (simp add: tx_trim_def dummy_same_def quiet_step_def sk k)
qed

lemma complete_packet_trim: "tx_trim wl (wl1271_tx_complete_packet r wl)"
  using hand_back_trim [OF apply_result_trim [of wl r]] free_id_trim
  by (simp add: wl1271_tx_complete_packet_def Let_def wl12xx_is_dummy_packet_def split: option.split)

lemma complete_one_keeps: "tx_keeps wl (tx_complete_one b wl)"
proof -
  let ?w = "wl1271_tx_complete_packet (res_descr_at (8 + 16 * unat (tx_results_count wl AND 0xf)) b) wl"
  have 1: "tx_keeps wl ?w" by (rule tx_keeps_trim [OF complete_packet_progress complete_packet_trim])
  have 2: "tx_keeps ?w (?w\<lparr>tx_results_count := n\<rparr>)" for n by (rule tx_keeps_quiet [OF quiet_step_stats(3)]) simp
  show ?thesis unfolding tx_complete_one_def Let_def by (rule tx_keeps_trans [OF 1 2])
qed

lemma tx_complete_keeps: "tx_keeps wl (snd (wlcore_tx_complete env wl))"
proof -
  have "tx_keeps w ((tx_complete_one b ^^ n) w)" for b n w
    by (induction n) (auto intro: tx_keeps_trans complete_one_keeps)
  then show ?thesis
    unfolding wlcore_tx_complete_def Let_def
    by (intro tx_keeps_seq) (simp_all add: tx_keeps_io io_step_read io_step_write32)
qed

lemma netstack_keeps: "tx_keeps wl (wl1271_netstack_work wl)"
proof (rule tx_keeps_trim [OF netstack_progress(1)])
  have "wl1271_netstack_work wl = wl\<lparr>deferred_rx_queue := [], deferred_tx_queue := [],
      log := log wl @ map C_rx (deferred_rx_queue wl) @ map C_tx_status (deferred_tx_queue wl)\<rparr>"
    by (simp add: wl1271_netstack_work_def wl1271_flush_deferred_work_def Let_def fold_emit)
  then show "tx_trim wl (wl1271_netstack_work wl)" by (intro tx_trim_same) simp_all
qed

section \<open>The work keeps the invariant\<close>

lemma outside_same_trans:
  "outside_same a b \<Longrightarrow> outside_same b c \<Longrightarrow> owned b \<subseteq># owned a \<Longrightarrow> dummy_packet b = dummy_packet a \<Longrightarrow> outside_same a c"
  unfolding outside_same_def by (auto dest: mset_subset_eqD)

context chip_tx
begin

lemma tx_iter_outside:
  assumes ok: "tx_ok wl"
  shows "outside_same wl (iter_state (tx_iter ops env st wl))"
  using ok
proof (cases rule: tx_iter_cases [where env = env and st = st])
  case (idle wl1)
  then show ?thesis
    using rr_eq_queue(12) [OF idle(1)] by (intro outside_sameI) (simp add: iter_state_def upd_reason_def)
next
  case (sent p wl1 wl2 d len)
  have "skb_queue_mapping (skbs wl2 x) = skb_queue_mapping (skbs wl x)" if "x \<notin># owned wl" "x \<noteq> dummy_packet wl" for x
  proof -
    have "x \<noteq> p" using that sent(1) by (auto simp: dequeued_def split: if_splits)
    then have "skb_body (skbs wl2 x) = skb_body (skbs wl x)" using sent(1,2) by (simp add: sent_def dequeued_def)
    then have "skb_queue_mapping (skb_body (skbs wl2 x)) = skb_queue_mapping (skb_body (skbs wl x))" by simp
    then show ?thesis by (simp add: skb_body_def)
  qed
  then show ?thesis by (simp add: outside_same_def sent(3) iter_state_def tx_frame_sent_def)
next
  case (failed p h wl1 wl2 v e)
  have s: "skbs wl2 = skbs wl" using failed(1,3) by (simp add: dequeued_def)
  have w: "skbs (wl1271_skb_queue_head wl2 v p h) = skbs wl2" by (rule queue_head_frame(9) [OF refl])
  have fl: "skbs (snd (tx_flush_aggr ops env x a b)) = skbs x" for x a b by (rule flush_aggr_quiet(2))
  have "skbs (iter_state (tx_frame_failed ops env st wl2 p v h e)) = skbs wl"
    using fl [of "wl1271_skb_queue_head wl2 v p h" "tl_buf_offset st" "tl_last_len st"]
    by (auto simp: tx_frame_failed_def iter_state_def upd_reason_def w s emit_def set_flag_def split: sum.split prod.split)
  then show ?thesis by (intro outside_sameI) (simp add: failed(6))
qed

lemma tx_loop_outside:
  "tx_loop ops env st wl = Some r \<Longrightarrow> tx_ok wl \<Longrightarrow> outside_same wl (snd (snd r))"
proof (induction rule: tx_loop_induct)
  case (1 st wl r)
  then show ?case using tx_iter_outside [of wl env st] by (simp add: iter_state_def split_beta)
next
  case (2 st wl st' wl' r)
  have p: "tx_progress wl wl'" using tx_iter_progress [of wl env st] 2 by (simp add: iter_state_def)
  have "outside_same wl wl'" using 2 tx_iter_outside [of wl env st] by (simp add: iter_state_def)
  then show ?case using 2 p outside_same_trans [of wl wl'] by (simp add: tx_progress_def)
qed

lemma tx_out_ack_outside: "outside_same wl (snd (tx_out_ack ops env st wl))"
proof (rule outside_sameI)
  have l: "skbs (wl1271_handle_tx_low_watermark w) = skbs w" for w
    using stop_step_low_watermark [of w] by (auto simp: stop_step_def)
  have r: "skbs (wl12xx_rearm_rx_streaming w hs) = skbs w" for w hs
    using io_step_rearm_rx_streaming [of w hs] by (auto elim!: io_stepE)
  have i: "skbs (snd (wlcore_write32 env w a x)) = skbs w" for w a x
    using io_step_write32 [of w env a x] by (auto elim!: io_stepE)
  have s: "skbs (snd (and_then m f)) = skbs w" if "skbs (snd m) = skbs w" "\<And>x u. skbs (snd (f x u)) = skbs u"
    for m w and f :: "'c \<Rightarrow> wl1271 \<Rightarrow> 'd res \<times> wl1271"
    using that by (cases m, cases "fst m") auto
  have "skbs (snd (tx_out_ack ops env st wl)) = skbs wl"
    unfolding tx_out_ack_def by (intro s) (auto intro!: s simp: flush_aggr_quiet(2) l r i)
  then show "skb_queue_mapping (skbs (snd (tx_out_ack ops env st wl)) p) = skb_queue_mapping (skbs wl p)" for p by simp
qed

lemma tx_work_locked_outside:
  assumes w: "wlcore_tx_work_locked ops env wl = Some (r, wl')" and ok: "tx_ok wl"
  shows "outside_same wl wl'"
proof (cases "tx_loop ops env tx_locals_init wl")
  case None
  then show ?thesis using w by (auto simp: wlcore_tx_work_locked_def outside_same_def split: if_splits)
next
  case (Some z)
  then obtain x st w where z: "tx_loop ops env tx_locals_init wl = Some (x, st, w)" by (cases z) auto
  have f: "outside_same wl w" using tx_loop_outside [OF z ok] by simp
  have p: "tx_progress wl w" using tx_loop_progress [OF z ok] by simp
  have "outside_same wl (snd (tx_out_ack ops env st w))"
    using outside_same_trans [OF f tx_out_ack_outside] p by (simp add: tx_progress_def)
  then show ?thesis
    using assms(1) z f by (cases x) (auto simp: wlcore_tx_work_locked_def outside_same_def split: if_splits)
qed

text \<open>The loop ends and keeps the invariant.\<close>

lemma tx_work_locked_keeps:
  assumes inv: "tx_inv wl"
  obtains r wl' where "wlcore_tx_work_locked ops env wl = Some (r, wl')" and "tx_keeps wl wl'"
proof -
  have ok: "tx_ok wl" and fit: "frames_fit wl" and d: "dummy_ok wl" using inv by (simp_all add: tx_inv_def)
  obtain r wl' where w: "wlcore_tx_work_locked ops env wl = Some (r, wl')"
    using tx_work_locked_ends [OF ok fit] by fast
  note p = tx_work_locked_progress [OF w ok]
  note f = tx_work_locked_fits [OF w ok fit]
  have "dummy_ok wl'" using dummy_ok_same [OF tx_work_locked_dummy [OF w ok d]] d by simp
  then have "tx_keeps wl wl'"
    using p f inv tx_work_locked_outside [OF w ok] by (simp add: tx_keeps_def tx_inv_def tx_progress_def)
  with w show thesis by (rule that)
qed

end

text \<open>Announcing the dummy packet adds it to the counts and to nothing else.\<close>

definition dummy_announced :: "wl1271 \<Rightarrow> wl1271" where
  "dummy_announced wl =
     (let q = skb_ac wl (dummy_packet wl); wl1 = set_flag WL1271_FLAG_DUMMY_PACKET_PENDING wl
      in wl1\<lparr>tx_queue_count := (tx_queue_count wl1)(q := tx_queue_count wl1 q + 1)\<rparr>)"

lemma dummy_announced_keeps:
  assumes "WL1271_FLAG_DUMMY_PACKET_PENDING \<notin> wl_flags wl"
  shows "tx_keeps wl (dummy_announced wl)"
proof -
  define w where "w = dummy_announced wl"
  define q where "q = skb_ac wl (dummy_packet wl)"
  have w: "w = wl\<lparr>wl_flags := insert WL1271_FLAG_DUMMY_PACKET_PENDING (wl_flags wl),
      tx_queue_count := (tx_queue_count wl)(q := tx_queue_count wl q + 1)\<rparr>"
    by (simp add: w_def dummy_announced_def set_flag_def q_def Let_def)
  have s: "skb_ac w = skb_ac wl" by (simp add: w skb_ac_def fun_eq_iff)
  have qd: "queued w = queued wl" by (rule queued_cong) (simp add: w)
  have wp: "well_placed w = well_placed wl" using s by (simp add: well_placed_def) (simp add: w)
  have "dummy_count w i = dummy_count wl i + (if i = q then 1 else 0)" for i
    using assms s by (simp add: dummy_count_def q_def) (simp add: w)
  moreover have "queue_total w = queue_total wl" by (simp add: queue_total_def w fun_eq_iff)
  ultimately have "counts_ok wl \<Longrightarrow> counts_ok w" by (auto simp: counts_ok_def w)
  then have ok: "tx_ok wl \<Longrightarrow> tx_ok w"
    using wp qd by (simp add: tx_ok_def queue_ok_def) (simp add: w links_ok_def ids_ok_def)
  have fl: "in_flight w = in_flight wl" "returned w = returned wl" by (simp_all add: w in_flight_def returned_def)
  have ow: "owned w = owned wl" using qd fl(1) by (simp add: owned_def) (simp add: w)
  have ff: "frames_fit wl \<Longrightarrow> dummy_ok wl \<Longrightarrow> frames_fit w"
    using qd ow by (simp add: frames_fit_def dummy_ok_def fits_def) (simp add: w)
  have "dummy_ok w = dummy_ok wl" "stop_view_ok w = stop_view_ok wl"
    by (simp_all add: w dummy_ok_def fits_def stop_view_ok_def wlcore_is_queue_stopped_def)
  then have "tx_inv wl \<Longrightarrow> tx_inv w" using ok ff by (simp add: tx_inv_def)
  then show ?thesis
    using ow fl unfolding w_def [symmetric] tx_keeps_def
    by (simp add: accounted_def outside_same_def) (simp add: w)
qed

context chip_tx
begin

lemma tx_dummy_packet_keeps:
  assumes inv: "tx_inv wl"
  obtains r wl' where "wl1271_tx_dummy_packet ops env wl = Some (r, wl')" and "tx_keeps wl wl'"
proof (cases "WL1271_FLAG_DUMMY_PACKET_PENDING \<in> wl_flags wl")
  case True
  then show thesis using that [of "Inr ()" wl] by (simp add: wl1271_tx_dummy_packet_def)
next
  case False
  define w where "w = dummy_announced wl"
  note k = dummy_announced_keeps [OF False, folded w_def]
  have "tx_inv w" using k inv by (simp add: tx_keeps_def)
  then obtain r wl' where t: "wlcore_tx_work_locked ops env w = Some (r, wl')" "tx_keeps w wl'"
    by (rule tx_work_locked_keeps)
  have e: "wl1271_tx_dummy_packet ops env wl
      = (if WL1271_FLAG_FW_TX_BUSY \<notin> wl_flags w then wlcore_tx_work_locked ops env w else Some (Inr (), w))"
    using False by (simp add: wl1271_tx_dummy_packet_def w_def dummy_announced_def skb_ac_def Let_def set_flag_def)
  show thesis
    using that [of r wl'] that [of "Inr ()" w] t k tx_keeps_trans [OF k t(2)] by (cases "WL1271_FLAG_FW_TX_BUSY \<in> wl_flags w") (simp_all add: e)
qed

end

end
