(* ===== verification/WlEvent.thy ===== *)
theory WlEvent
  imports WlTxInv
begin

unbundle bit_operations_syntax

text \<open>
  Events of the firmware (wlcore/event.c): the driver reads one of two mailboxes, handles every event
  that is set and not masked, and acknowledges. With the operations the events need: streaming
  reception and the authorisation of a station (wlcore/main.c) and the end of a scan
  (\<open>wl12xx_scan_completed\<close> of wlcore/scan.c).
\<close>

section \<open>The mailbox\<close>

record event_mailbox =
  mb_events_vector :: u32
  mb_events_mask :: u32
  mb_soft_gemini_sense_info :: u8
  mb_rssi_metric :: u8                   \<comment> \<open>\<open>rssi_snr_trigger_metric[0]\<close>, read as signed\<close>
  mb_sta_aging_status :: u16
  mb_sta_tx_retry_exceeded :: u16
  mb_role_id :: u8
  mb_rx_ba_allowed :: u8
  mb_channel_switch_status :: u8

abbreviation (input) EVENT_MAILBOX_LEN :: nat where "EVENT_MAILBOX_LEN \<equiv> 64"

definition mailbox_of :: "bytes \<Rightarrow> event_mailbox" where
  "mailbox_of b =
     \<lparr>mb_events_vector = get_le32 0 b, mb_events_mask = get_le32 4 b,
      mb_soft_gemini_sense_info = byte_at 20 b, mb_rssi_metric = byte_at 22 b,
      mb_sta_aging_status = get_le16 36 b, mb_sta_tx_retry_exceeded = get_le16 38 b,
      mb_role_id = byte_at 44 b, mb_rx_ba_allowed = byte_at 45 b, mb_channel_switch_status = byte_at 49 b\<rparr>"

text \<open>Events by their bit in the vector.\<close>

abbreviation (input) RSSI_SNR_TRIGGER_0_EVENT :: nat where "RSSI_SNR_TRIGGER_0_EVENT \<equiv> 0"
abbreviation (input) SCAN_COMPLETE_EVENT :: nat where "SCAN_COMPLETE_EVENT \<equiv> 10"
abbreviation (input) CHANNEL_SWITCH_COMPLETE_EVENT :: nat where "CHANNEL_SWITCH_COMPLETE_EVENT \<equiv> 17"
abbreviation (input) BSS_LOSE_EVENT :: nat where "BSS_LOSE_EVENT \<equiv> 18"
abbreviation (input) REGAINED_BSS_EVENT :: nat where "REGAINED_BSS_EVENT \<equiv> 19"
abbreviation (input) MAX_TX_RETRY_EVENT :: nat where "MAX_TX_RETRY_EVENT \<equiv> 20"
abbreviation (input) DUMMY_PACKET_EVENT :: nat where "DUMMY_PACKET_EVENT \<equiv> 21"
abbreviation (input) SOFT_GEMINI_SENSE_EVENT :: nat where "SOFT_GEMINI_SENSE_EVENT \<equiv> 22"
abbreviation (input) INACTIVE_STA_EVENT :: nat where "INACTIVE_STA_EVENT \<equiv> 26"
abbreviation (input) PERIODIC_SCAN_COMPLETE_EVENT :: nat where "PERIODIC_SCAN_COMPLETE_EVENT \<equiv> 28"
abbreviation (input) BA_SESSION_RX_CONSTRAINT_EVENT :: nat where "BA_SESSION_RX_CONSTRAINT_EVENT \<equiv> 30"
abbreviation (input) REMAIN_ON_CHANNEL_COMPLETE_EVENT :: nat where "REMAIN_ON_CHANNEL_COMPLETE_EVENT \<equiv> 31"

section \<open>Streaming reception\<close>

definition wl1271_set_rx_streaming ::
  "wlcore_ops \<Rightarrow> wl_env \<Rightarrow> wl1271 \<Rightarrow> vif_ptr \<Rightarrow> bool \<Rightarrow> unit res \<times> wl1271" where
  "wl1271_set_rx_streaming ops env wl v enable =
     and_then (wl1271_acx_ps_rx_streaming ops env wl v enable) (\<lambda>_ wl1.
       (Inr (), upd_vif v (\<lambda>vf. vf\<lparr>vif_flags :=
          (if enable then insert WLVIF_FLAG_RX_STREAMING_STARTED (vif_flags vf)
           else vif_flags vf - {WLVIF_FLAG_RX_STREAMING_STARTED})\<rparr>) wl1))"

definition wl1271_recalc_rx_streaming ::
  "wlcore_ops \<Rightarrow> wl_env \<Rightarrow> wl1271 \<Rightarrow> vif_ptr \<Rightarrow> unit res \<times> wl1271" where
  "wl1271_recalc_rx_streaming ops env wl v =
     (if WLVIF_FLAG_RX_STREAMING_STARTED \<notin> vif_flags (vifs wl v) then (Inr (), wl)
      else if cf_rx_streaming_interval (conf wl) \<noteq> 0
              \<and> WLVIF_FLAG_STA_ASSOCIATED \<in> vif_flags (vifs wl v)
              \<and> (cf_rx_streaming_always (conf wl) \<or> WL1271_FLAG_SOFT_GEMINI \<in> wl_flags wl)
      then wl1271_set_rx_streaming ops env wl v True
      else (let (r, wl1) = wl1271_set_rx_streaming ops env wl v False in (r, emit (C_del_timer v) wl1)))"

definition wl1271_rx_streaming_enable_work ::
  "wlcore_ops \<Rightarrow> wl_env \<Rightarrow> wl1271 \<Rightarrow> vif_ptr \<Rightarrow> wl1271" where
  "wl1271_rx_streaming_enable_work ops env wl v =
     (if WLVIF_FLAG_RX_STREAMING_STARTED \<in> vif_flags (vifs wl v)
         \<or> WLVIF_FLAG_STA_ASSOCIATED \<notin> vif_flags (vifs wl v)
         \<or> \<not> cf_rx_streaming_always (conf wl) \<and> WL1271_FLAG_SOFT_GEMINI \<notin> wl_flags wl then wl
      else if cf_rx_streaming_interval (conf wl) = 0 then wl
      else case wl1271_ps_elp_wakeup env wl of
        (Inl e, wl1) \<Rightarrow> wl1
      | (Inr _, wl1) \<Rightarrow>
          (case wl1271_set_rx_streaming ops env wl1 v True of
             (Inl e, wl2) \<Rightarrow> wl1271_ps_elp_sleep wl2
           | (Inr _, wl2) \<Rightarrow>
               wl1271_ps_elp_sleep (emit (C_mod_timer v (cf_rx_streaming_duration (conf wl2))) wl2)))"

definition wl1271_rx_streaming_disable_work ::
  "wlcore_ops \<Rightarrow> wl_env \<Rightarrow> wl1271 \<Rightarrow> vif_ptr \<Rightarrow> wl1271" where
  "wl1271_rx_streaming_disable_work ops env wl v =
     (if WLVIF_FLAG_RX_STREAMING_STARTED \<notin> vif_flags (vifs wl v) then wl
      else case wl1271_ps_elp_wakeup env wl of
        (Inl e, wl1) \<Rightarrow> wl1
      | (Inr _, wl1) \<Rightarrow> wl1271_ps_elp_sleep (snd (wl1271_set_rx_streaming ops env wl1 v False)))"

definition wl1271_rx_streaming_timer :: "wl1271 \<Rightarrow> vif_ptr \<Rightarrow> wl1271" where
  "wl1271_rx_streaming_timer wl v = emit (C_queue_work (RX_STREAMING_DISABLE_WORK v)) wl"

section \<open>The authorisation of a station\<close>

abbreviation (input) CMD_SET_PEER_STATE :: u16 where "CMD_SET_PEER_STATE \<equiv> 27"

definition wl12xx_cmd_set_peer_state ::
  "wlcore_ops \<Rightarrow> wl_env \<Rightarrow> wl1271 \<Rightarrow> vif_ptr \<Rightarrow> nat \<Rightarrow> unit res \<times> wl1271" where
  "wl12xx_cmd_set_peer_state ops env wl v hlid =
     and_then (kzalloc env 8 wl) (\<lambda>_ wl1.
     and_then (wl1271_cmd_send ops env wl1 CMD_SET_PEER_STATE
                 [of_nat hlid, 1,
                  if vif_bss_type (vifs wl1 v) = BSS_TYPE_STA_BSS \<and> vif_wmm_enabled (vifs wl1 v) then 1 else 0,
                  0] 0) (\<lambda>_ wl2. (Inr (), wl2)))"

definition wl12xx_set_authorized ::
  "wlcore_ops \<Rightarrow> wl_env \<Rightarrow> wl1271 \<Rightarrow> vif_ptr \<Rightarrow> unit res \<times> wl1271" where
  "wl12xx_set_authorized ops env wl v =
     (if vif_bss_type (vifs wl v) \<noteq> BSS_TYPE_STA_BSS then (Inl EINVAL, emit C_warn wl)
      else if WLVIF_FLAG_STA_ASSOCIATED \<notin> vif_flags (vifs wl v) then (Inr (), wl)
      else if WLVIF_FLAG_STA_STATE_SENT \<in> vif_flags (vifs wl v) then (Inr (), wl)
      else
        let wl1 = upd_vif v (\<lambda>vf. vf\<lparr>vif_flags := insert WLVIF_FLAG_STA_STATE_SENT (vif_flags vf)\<rparr>) wl
        in wl12xx_cmd_set_peer_state ops env wl1 v (sta_hlid (vifs wl1 v)))"

section \<open>Single events\<close>

definition wl12xx_scan_completed :: "wl1271 \<Rightarrow> wl1271" where
  "wl12xx_scan_completed wl =
     emit (C_queue_delayed_work SCAN_COMPLETE_WORK 0)
       (emit (C_cancel_work SCAN_COMPLETE_WORK) (wl\<lparr>scan_failed := False\<rparr>))"

definition sched_scan_complete :: "wl1271 \<Rightarrow> wl1271" where
  "sched_scan_complete wl =
     (if sched_vif wl \<noteq> None then (emit C_sched_scan_stopped wl)\<lparr>sched_vif := None\<rparr> else wl)"

definition wl1271_event_rssi_trigger :: "event_mailbox \<Rightarrow> vif_ptr \<Rightarrow> wl1271 \<Rightarrow> wl1271" where
  "wl1271_event_rssi_trigger mbox v wl =
     (let metric = sint (mb_rssi_metric mbox);
          event = (if metric \<le> rssi_thold (vifs wl v) then NL80211_CQM_RSSI_THRESHOLD_EVENT_LOW
                   else NL80211_CQM_RSSI_THRESHOLD_EVENT_HIGH);
          wl1 = (if Some event \<noteq> last_rssi_event (vifs wl v) then emit (C_cqm_rssi_notify v event) wl else wl)
      in upd_vif v (\<lambda>vf. vf\<lparr>last_rssi_event := Some event\<rparr>) wl1)"

definition stop_ba_link :: "vif_ptr \<Rightarrow> nat \<Rightarrow> wl1271 \<Rightarrow> wl1271" where
  "stop_ba_link v hlid wl =
     (if lnk_ba_bitmap (links wl hlid) = 0 then wl
      else emit (C_stop_rx_ba_session v (lnk_ba_bitmap (links wl hlid)) (lnk_addr (links wl hlid))) wl)"

definition wl1271_stop_ba_event :: "vif_ptr \<Rightarrow> wl1271 \<Rightarrow> wl1271" where
  "wl1271_stop_ba_event v wl =
     (if vif_bss_type (vifs wl v) \<noteq> BSS_TYPE_AP_BSS then
        (if sta_ba_rx_bitmap (vifs wl v) = 0 then wl
         else emit (C_stop_rx_ba_session v (sta_ba_rx_bitmap (vifs wl v)) (bssid (vifs wl v))) wl)
      else fold (stop_ba_link v) (set_bits_upto (ap_sta_hlid_map (vifs wl v)) WL12XX_MAX_LINKS) wl)"

definition ba_constraint_vif :: "event_mailbox \<Rightarrow> vif_ptr \<Rightarrow> wl1271 \<Rightarrow> wl1271" where
  "ba_constraint_vif mbox v wl =
     (if mb_role_id mbox \<noteq> 0xff \<and> unat (mb_role_id mbox) \<noteq> role_id (vifs wl v) then wl
      else
        let allowed = (mb_rx_ba_allowed mbox \<noteq> 0);
            wl1 = upd_vif v (\<lambda>vf. vf\<lparr>ba_allowed := allowed\<rparr>) wl
        in if allowed then wl1 else wl1271_stop_ba_event v wl1)"

definition wl12xx_event_soft_gemini_sense ::
  "wlcore_ops \<Rightarrow> wl_env \<Rightarrow> u8 \<Rightarrow> wl1271 \<Rightarrow> wl1271" where
  "wl12xx_event_soft_gemini_sense ops env enable wl =
     (if enable \<noteq> 0 then set_flag WL1271_FLAG_SOFT_GEMINI wl
      else
        let wl1 = clear_flag WL1271_FLAG_SOFT_GEMINI wl
        in fold (\<lambda>v w. snd (wl1271_recalc_rx_streaming ops env w v)) (wlvifs_of_type BSS_TYPE_STA_BSS wl1) wl1)"

definition bss_lose :: "wl1271 \<Rightarrow> wl1271" where
  "bss_lose wl =
     (let wl1 = emit (C_queue_delayed_work CONNECTION_LOSS_WORK
                        (cf_synch_fail_thold (conf wl) * cf_bss_lose_timeout (conf wl))) wl
      in fold (\<lambda>v. emit (C_cqm_rssi_notify v NL80211_CQM_RSSI_BEACON_LOSS_EVENT))
           (wlvifs_of_type BSS_TYPE_STA_BSS wl1) wl1)"

definition bss_regained :: "u32 \<Rightarrow> wl1271 \<Rightarrow> wl1271" where
  "bss_regained vector wl =
     (let wl1 = emit (C_cancel_work CONNECTION_LOSS_WORK) wl
      in if bit vector BSS_LOSE_EVENT then emit C_warn wl1 else wl1)"

definition chswitch_vif :: "event_mailbox \<Rightarrow> vif_ptr \<Rightarrow> wl1271 \<Rightarrow> wl1271" where
  "chswitch_vif mbox v wl =
     (if WLVIF_FLAG_CS_PROGRESS \<notin> vif_flags (vifs wl v) then wl
      else emit (C_chswitch_done v (mb_channel_switch_status mbox = 0))
             (upd_vif v (\<lambda>vf. vf\<lparr>vif_flags := vif_flags vf - {WLVIF_FLAG_CS_PROGRESS}\<rparr>) wl))"

text \<open>The access point a station is connected to is the first one that knows the link.\<close>

definition disconnect_link :: "wl_env \<Rightarrow> nat \<Rightarrow> wl1271 \<Rightarrow> wl1271" where
  "disconnect_link env h wl =
     (case find (\<lambda>v. h \<in> ap_sta_hlid_map (vifs wl v)) (wlvifs_of_type BSS_TYPE_AP_BSS wl) of
        None \<Rightarrow> wl
      | Some v \<Rightarrow>
          if e_find_sta env (log wl) v (lnk_addr (links wl h))
          then emit (C_report_low_ack v (lnk_addr (links wl h)) (cf_max_tx_retries (conf wl))) wl
          else wl)"

definition word_bits :: "u16 \<Rightarrow> nat set" where
  "word_bits w = {n. bit w n}"

section \<open>All events of a mailbox\<close>

text \<open>The events before the dummy packet, in the order of the code.\<close>

definition event_first_part ::
  "wlcore_ops \<Rightarrow> wl_env \<Rightarrow> event_mailbox \<Rightarrow> u32 \<Rightarrow> wl1271 \<Rightarrow> wl1271" where
  "event_first_part ops env mbox vector wl =
     (let wl1 = (if bit vector SCAN_COMPLETE_EVENT then wl12xx_scan_completed wl else wl);
          wl2 = (if bit vector PERIODIC_SCAN_COMPLETE_EVENT then sched_scan_complete wl1 else wl1);
          wl3 = (if bit vector SOFT_GEMINI_SENSE_EVENT
                 then wl12xx_event_soft_gemini_sense ops env (mb_soft_gemini_sense_info mbox) wl2 else wl2);
          wl4 = (if bit vector BSS_LOSE_EVENT then bss_lose wl3 else wl3);
          wl5 = (if bit vector REGAINED_BSS_EVENT then bss_regained vector wl4 else wl4);
          wl6 = (if bit vector RSSI_SNR_TRIGGER_0_EVENT
                 then fold (wl1271_event_rssi_trigger mbox) (wlvifs_of_type BSS_TYPE_STA_BSS wl5) wl5 else wl5);
          wl7 = (if bit vector BA_SESSION_RX_CONSTRAINT_EVENT
                 then fold (ba_constraint_vif mbox) (wlvif_list wl6) wl6 else wl6)
      in if bit vector CHANNEL_SWITCH_COMPLETE_EVENT
         then fold (chswitch_vif mbox) (wlvifs_of_type BSS_TYPE_STA_BSS wl7) wl7 else wl7)"

text \<open>The events after it: stations that no longer answer are reported once each.\<close>

definition event_last_part :: "wl_env \<Rightarrow> event_mailbox \<Rightarrow> u32 \<Rightarrow> wl1271 \<Rightarrow> wl1271" where
  "event_last_part env mbox vector wl =
     (let sta_bitmap = (if bit vector MAX_TX_RETRY_EVENT then mb_sta_tx_retry_exceeded mbox else 0)
                       OR (if bit vector INACTIVE_STA_EVENT then mb_sta_aging_status mbox else 0);
          disconnect_sta = bit vector MAX_TX_RETRY_EVENT \<or> bit vector INACTIVE_STA_EVENT;
          wl1 = (if bit vector REMAIN_ON_CHANNEL_COMPLETE_EVENT then emit C_ready_on_channel wl else wl)
      in if disconnect_sta
         then fold (disconnect_link env) (set_bits_upto (word_bits sta_bitmap) WL12XX_MAX_LINKS) wl1 else wl1)"

definition wl1271_event_process ::
  "wlcore_ops \<Rightarrow> wl_env \<Rightarrow> wl1271 \<Rightarrow> event_mailbox \<Rightarrow> (unit res \<times> wl1271) option" where
  "wl1271_event_process ops env wl mbox =
     (let vector = mb_events_vector mbox AND NOT (mb_events_mask mbox);
          wl1 = event_first_part ops env mbox vector wl
      in case (if bit vector DUMMY_PACKET_EVENT then wl1271_tx_dummy_packet ops env wl1 else Some (Inr (), wl1)) of
           None \<Rightarrow> None
         | Some (Inl e, wl2) \<Rightarrow> Some (Inl e, wl2)
         | Some (Inr _, wl2) \<Rightarrow> Some (Inr (), event_last_part env mbox vector wl2))"

section \<open>The event mask and the handler\<close>

definition wl1271_acx_event_mbox_mask ::
  "wlcore_ops \<Rightarrow> wl_env \<Rightarrow> wl1271 \<Rightarrow> u32 \<Rightarrow> unit res \<times> wl1271" where
  "wl1271_acx_event_mbox_mask ops env wl ev_mask =
     and_then (kzalloc env 16 wl) (\<lambda>_ wl1.
       wl1271_cmd_configure ops env wl1 0x0011 (le32 ev_mask @ le32 0xffffffff))"

definition wl1271_event_unmask :: "wlcore_ops \<Rightarrow> wl_env \<Rightarrow> wl1271 \<Rightarrow> unit res \<times> wl1271" where
  "wl1271_event_unmask ops env wl = wl1271_acx_event_mbox_mask ops env wl (NOT (event_mask wl))"

definition wl1271_event_handle ::
  "wlcore_ops \<Rightarrow> wl_env \<Rightarrow> wl1271 \<Rightarrow> nat \<Rightarrow> (unit res \<times> wl1271) option" where
  "wl1271_event_handle ops env wl mbox_num =
     (if 1 < mbox_num then Some (Inl EINVAL, wl)
      else case wlcore_read env wl (mbox_ptr wl mbox_num) EVENT_MAILBOX_LEN False of
        (Inl e, wl1) \<Rightarrow> Some (Inl e, wl1)
      | (Inr bs, wl1) \<Rightarrow>
          (case wl1271_event_process ops env wl1 (mailbox_of bs) of
             None \<Rightarrow> None
           | Some (Inl e, wl2) \<Rightarrow> Some (Inl e, wl2)
           | Some (Inr _, wl2) \<Rightarrow> Some (op_ack_event ops env wl2)))"

section \<open>Events keep the invariant\<close>

text \<open>Setting a member that the transmit path does not use.\<close>

lemma tx_keeps_scan:
  "tx_keeps wl (wl\<lparr>scan_failed := b\<rparr>)" "tx_keeps wl (wl\<lparr>sched_vif := v\<rparr>)"
  by (rule tx_keeps_quiet; (rule quiet_stepI [where l = "[]"])?; simp)+

lemma tx_keeps_flag:
  "f \<noteq> WL1271_FLAG_DUMMY_PACKET_PENDING \<Longrightarrow> tx_keeps wl (set_flag f wl)"
  "f \<noteq> WL1271_FLAG_DUMMY_PACKET_PENDING \<Longrightarrow> tx_keeps wl (clear_flag f wl)"
  by (rule tx_keeps_quiet; (rule quiet_stepI [where l = "[]"])?; simp add: set_flag_def clear_flag_def)+

lemma scan_completed_keeps: "tx_keeps wl (wl12xx_scan_completed wl)"
  unfolding wl12xx_scan_completed_def
  by (rule tx_keeps_trans [OF tx_keeps_trans [OF tx_keeps_scan(1) tx_keeps_emit] tx_keeps_emit]) simp_all

lemma sched_scan_complete_keeps: "tx_keeps wl (sched_scan_complete wl)"
  using tx_keeps_trans [OF tx_keeps_emit tx_keeps_scan(2)] by (simp add: sched_scan_complete_def)

lemma rssi_trigger_keeps: "tx_keeps wl (wl1271_event_rssi_trigger mbox v wl)"
proof -
  define ev where "ev = (if sint (mb_rssi_metric mbox) \<le> rssi_thold (vifs wl v) then NL80211_CQM_RSSI_THRESHOLD_EVENT_LOW
      else NL80211_CQM_RSSI_THRESHOLD_EVENT_HIGH)"
  define w where "w = (if Some ev \<noteq> last_rssi_event (vifs wl v) then emit (C_cqm_rssi_notify v ev) wl else wl)"
  have "tx_keeps wl w" by (simp add: w_def tx_keeps_emit)
  then have "tx_keeps wl (upd_vif v (\<lambda>vf. vf\<lparr>last_rssi_event := Some ev\<rparr>) w)"
    by (rule tx_keeps_trans [OF _ tx_keeps_vif]) simp
  then show ?thesis unfolding wl1271_event_rssi_trigger_def Let_def ev_def [symmetric] w_def [symmetric] .
qed

lemma stop_ba_keeps: "tx_keeps wl (wl1271_stop_ba_event v wl)"
proof -
  have "tx_keeps w (stop_ba_link v h w)" for h w by (simp add: stop_ba_link_def tx_keeps_emit)
  then show ?thesis by (auto simp: wl1271_stop_ba_event_def tx_keeps_emit intro: tx_keeps_fold)
qed

lemma ba_constraint_keeps: "tx_keeps wl (ba_constraint_vif mbox v wl)"
proof -
  have 1: "tx_keeps wl (upd_vif v (\<lambda>vf. vf\<lparr>ba_allowed := b\<rparr>) wl)" for b by (rule tx_keeps_vif) simp
  show ?thesis
    using 1 tx_keeps_trans [OF 1 stop_ba_keeps] by (simp add: ba_constraint_vif_def Let_def)
qed

lemma chswitch_keeps: "tx_keeps wl (chswitch_vif mbox v wl)"
proof -
  have "tx_keeps wl (upd_vif v (\<lambda>vf. vf\<lparr>vif_flags := vif_flags vf - {WLVIF_FLAG_CS_PROGRESS}\<rparr>) wl)"
    by (rule tx_keeps_vif) simp
  then show ?thesis by (auto simp: chswitch_vif_def intro: tx_keeps_trans [OF _ tx_keeps_emit])
qed

lemma bss_keeps: "tx_keeps wl (bss_lose wl)" "tx_keeps wl (bss_regained x wl)"
proof -
  have "tx_keeps w (fold (\<lambda>v. emit (C_cqm_rssi_notify v e)) vs w)" for e vs w
    by (rule tx_keeps_fold) (simp add: tx_keeps_emit)
  then show "tx_keeps wl (bss_lose wl)"
    unfolding bss_lose_def Let_def by (rule tx_keeps_trans [OF tx_keeps_emit, rotated]) simp
  show "tx_keeps wl (bss_regained x wl)"
    using tx_keeps_trans [OF tx_keeps_emit tx_keeps_emit] tx_keeps_emit by (simp add: bss_regained_def Let_def)
qed

lemma disconnect_keeps: "tx_keeps wl (disconnect_link env h wl)"
  by (simp add: disconnect_link_def tx_keeps_emit split: option.split)

lemma event_last_keeps: "tx_keeps wl (event_last_part env mbox vector wl)"
proof -
  define w where "w = (if bit vector REMAIN_ON_CHANNEL_COMPLETE_EVENT then emit C_ready_on_channel wl else wl)"
  have 1: "tx_keeps wl w" by (simp add: w_def tx_keeps_emit)
  have "tx_keeps w (fold (disconnect_link env) hs w)" for hs by (rule tx_keeps_fold) (rule disconnect_keeps)
  then have "tx_keeps wl (fold (disconnect_link env) hs w)" for hs by (rule tx_keeps_trans [OF 1])
  then show ?thesis using 1 unfolding event_last_part_def Let_def w_def [symmetric] by simp
qed

context chip_bus
begin

lemma set_rx_streaming_keeps: "tx_keeps wl (snd (wl1271_set_rx_streaming ops env wl v b))"
  unfolding wl1271_set_rx_streaming_def
  by (rule tx_keeps_seq [OF tx_keeps_cmd [OF ps_rx_streaming_step]]) (simp add: tx_keeps_vif)

lemma recalc_rx_streaming_keeps: "tx_keeps wl (snd (wl1271_recalc_rx_streaming ops env wl v))"
  using set_rx_streaming_keeps tx_keeps_trans [OF set_rx_streaming_keeps tx_keeps_emit [of "C_del_timer v"]]
  by (simp add: wl1271_recalc_rx_streaming_def split_beta)

lemma soft_gemini_keeps: "tx_keeps wl (wl12xx_event_soft_gemini_sense ops env e wl)"
proof -
  have "tx_keeps w (fold (\<lambda>v w. snd (wl1271_recalc_rx_streaming ops env w v)) vs w)" for vs w
    by (rule tx_keeps_fold) (rule recalc_rx_streaming_keeps)
  then show ?thesis
    using tx_keeps_trans [OF tx_keeps_flag(2) [of WL1271_FLAG_SOFT_GEMINI wl]]
    by (simp add: wl12xx_event_soft_gemini_sense_def Let_def tx_keeps_flag(1))
qed

lemma event_first_keeps: "tx_keeps wl (event_first_part ops env mbox vector wl)"
proof -
  define wl1 where "wl1 = (if bit vector SCAN_COMPLETE_EVENT then wl12xx_scan_completed wl else wl)"
  define wl2 where "wl2 = (if bit vector PERIODIC_SCAN_COMPLETE_EVENT then sched_scan_complete wl1 else wl1)"
  define wl3 where "wl3 = (if bit vector SOFT_GEMINI_SENSE_EVENT
      then wl12xx_event_soft_gemini_sense ops env (mb_soft_gemini_sense_info mbox) wl2 else wl2)"
  define wl4 where "wl4 = (if bit vector BSS_LOSE_EVENT then bss_lose wl3 else wl3)"
  define wl5 where "wl5 = (if bit vector REGAINED_BSS_EVENT then bss_regained vector wl4 else wl4)"
  define wl6 where "wl6 = (if bit vector RSSI_SNR_TRIGGER_0_EVENT
      then fold (wl1271_event_rssi_trigger mbox) (wlvifs_of_type BSS_TYPE_STA_BSS wl5) wl5 else wl5)"
  define wl7 where "wl7 = (if bit vector BA_SESSION_RX_CONSTRAINT_EVENT
      then fold (ba_constraint_vif mbox) (wlvif_list wl6) wl6 else wl6)"
  define wl8 where "wl8 = (if bit vector CHANNEL_SWITCH_COMPLETE_EVENT
      then fold (chswitch_vif mbox) (wlvifs_of_type BSS_TYPE_STA_BSS wl7) wl7 else wl7)"
  have "tx_keeps wl wl1" by (simp add: wl1_def scan_completed_keeps)
  also have "tx_keeps wl1 wl2" by (simp add: wl2_def sched_scan_complete_keeps)
  also have "tx_keeps wl2 wl3" by (simp add: wl3_def soft_gemini_keeps)
  also have "tx_keeps wl3 wl4" by (simp add: wl4_def bss_keeps)
  also have "tx_keeps wl4 wl5" by (simp add: wl5_def bss_keeps)
  also have "tx_keeps wl5 wl6" by (simp add: wl6_def tx_keeps_fold rssi_trigger_keeps)
  also have "tx_keeps wl6 wl7" by (simp add: wl7_def tx_keeps_fold ba_constraint_keeps)
  also have "tx_keeps wl7 wl8" by (simp add: wl8_def tx_keeps_fold chswitch_keeps)
  finally show ?thesis
    unfolding event_first_part_def Let_def wl1_def [symmetric] wl2_def [symmetric] wl3_def [symmetric]
      wl4_def [symmetric] wl5_def [symmetric] wl6_def [symmetric] wl7_def [symmetric] wl8_def [symmetric] .
qed

end

text \<open>A whole mailbox is handled in finitely many steps and keeps every packet.\<close>

context chip_tx
begin

lemma event_process_keeps:
  assumes inv: "tx_inv wl"
  obtains r wl' where "wl1271_event_process ops env wl mbox = Some (r, wl')" and "tx_keeps wl wl'"
proof -
  define vector where "vector = mb_events_vector mbox AND NOT (mb_events_mask mbox)"
  define wl1 where "wl1 = event_first_part ops env mbox vector wl"
  have k1: "tx_keeps wl wl1" unfolding wl1_def by (rule event_first_keeps)
  then have "tx_inv wl1" using inv by (simp add: tx_keeps_def)
  then obtain q wl2' where t: "wl1271_tx_dummy_packet ops env wl1 = Some (q, wl2')" "tx_keeps wl1 wl2'"
    by (rule tx_dummy_packet_keeps)
  obtain r2 wl2 where d: "(if bit vector DUMMY_PACKET_EVENT then wl1271_tx_dummy_packet ops env wl1
      else Some (Inr (), wl1)) = Some (r2, wl2)" and k2: "tx_keeps wl1 wl2"
    using t by (cases "bit vector DUMMY_PACKET_EVENT") auto
  have k: "tx_keeps wl wl2" by (rule tx_keeps_trans [OF k1 k2])
  have e: "wl1271_event_process ops env wl mbox = (case Some (r2, wl2) of None \<Rightarrow> None
      | Some (Inl e, wl2) \<Rightarrow> Some (Inl e, wl2) | Some (Inr _, wl2) \<Rightarrow> Some (Inr (), event_last_part env mbox vector wl2))"
    unfolding wl1271_event_process_def Let_def vector_def [symmetric] wl1_def [symmetric] d ..
  show thesis
  proof (cases r2)
    case (Inl x)
    then show thesis using that [of "Inl x" wl2] e k by simp
  next
    case (Inr u)
    then show thesis using that [of "Inr ()"] e tx_keeps_trans [OF k event_last_keeps] by simp
  qed
qed

lemma event_handle_keeps:
  assumes inv: "tx_inv wl"
  obtains r wl' where "wl1271_event_handle ops env wl n = Some (r, wl')" and "tx_keeps wl wl'"
proof (cases "1 < n")
  case True
  then show thesis using that by (simp add: wl1271_event_handle_def)
next
  case False
  obtain q wl1 where q: "wlcore_read env wl (mbox_ptr wl n) EVENT_MAILBOX_LEN False = (q, wl1)" by (rule prod.exhaust)
  have k1: "tx_keeps wl wl1" using tx_keeps_io [OF io_step_read] q by (metis snd_conv)
  show thesis
  proof (cases q)
    case (Inl e)
    then show thesis using that [of "Inl e" wl1] False q k1 by (simp add: wl1271_event_handle_def)
  next
    case (Inr bs)
    have "tx_inv wl1" using k1 inv by (simp add: tx_keeps_def)
    then obtain r wl2 where p: "wl1271_event_process ops env wl1 (mailbox_of bs) = Some (r, wl2)" "tx_keeps wl1 wl2"
      by (rule event_process_keeps)
    have k2: "tx_keeps wl wl2" by (rule tx_keeps_trans [OF k1 p(2)])
    have k3: "tx_keeps wl (snd (op_ack_event ops env wl2))"
      by (rule tx_keeps_trans [OF k2 tx_keeps_io [OF ack_event_io]])
    show thesis
      using that [of r wl2] that [of "fst (op_ack_event ops env wl2)" "snd (op_ack_event ops env wl2)"] k2 k3 False q Inr p
      by (cases r) (simp_all add: wl1271_event_handle_def)
  qed
qed

end

section \<open>Stations that no longer answer\<close>

text \<open>The access point a link belongs to.\<close>

definition ap_of_link :: "wl1271 \<Rightarrow> nat \<Rightarrow> vif_ptr option" where
  "ap_of_link wl h = find (\<lambda>v. h \<in> ap_sta_hlid_map (vifs wl v)) (wlvifs_of_type BSS_TYPE_AP_BSS wl)"

definition low_ack_reports :: "wl1271 \<Rightarrow> nat set \<Rightarrow> wl_call list" where
  "low_ack_reports wl hs =
     concat (map (\<lambda>h. case ap_of_link wl h of
         None \<Rightarrow> [] | Some v \<Rightarrow> [C_report_low_ack v (lnk_addr (links wl h)) (cf_max_tx_retries (conf wl))])
       (set_bits_upto hs WL12XX_MAX_LINKS))"

lemma disconnect_links_log:
  assumes "\<And>l v a. e_find_sta env l v a"
  shows "fold (disconnect_link env) hs wl = wl\<lparr>log := log wl @ concat (map (\<lambda>h. case ap_of_link wl h of
         None \<Rightarrow> [] | Some v \<Rightarrow> [C_report_low_ack v (lnk_addr (links wl h)) (cf_max_tx_retries (conf wl))]) hs)\<rparr>"
proof (induction hs arbitrary: wl)
  case (Cons h hs)
  have a: "ap_of_link (w\<lparr>log := l\<rparr>) k = ap_of_link w k" for w l k by (simp add: ap_of_link_def wlvifs_of_type_def)
  have "disconnect_link env h wl = wl\<lparr>log := log wl @ (case ap_of_link wl h of
         None \<Rightarrow> [] | Some v \<Rightarrow> [C_report_low_ack v (lnk_addr (links wl h)) (cf_max_tx_retries (conf wl))])\<rparr>"
    using assms by (simp add: disconnect_link_def ap_of_link_def emit_def split: option.split)
  then show ?case using Cons [of "disconnect_link env h wl"] by (simp add: a cong: option.case_cong)
qed simp



end
