(* ===== verification/WlIrq.thy ===== *)
theory WlIrq
  imports WlEvent
begin

unbundle bit_operations_syntax

text \<open>
  The interrupt (wlcore/main.c): reading the firmware's status, which frees the memory of sent packets
  and tells which stations sleep; the loop of the interrupt thread, which receives, sends, completes
  and handles events until the firmware has nothing more to say; and the watchdog of transmission.
\<close>

section \<open>The status block\<close>

text \<open>
  \<open>struct wl_fw_status_1\<close> is eight bytes and the receive descriptors; \<open>struct wl_fw_status_2\<close> follows.
\<close>

definition st2_at :: "wl1271 \<Rightarrow> nat" where
  "st2_at wl = 8 + 4 * num_rx_desc wl"

abbreviation (input) FW_STATUS_2_LEN :: nat where "FW_STATUS_2_LEN \<equiv> 44"

definition st_intr :: "bytes \<Rightarrow> u32" where
  "st_intr b = get_le32 0 b"

definition st_fw_localtime :: "nat \<Rightarrow> bytes \<Rightarrow> u32" where
  "st_fw_localtime o2 b = get_le32 o2 b"

definition st_link_ps_bitmap :: "nat \<Rightarrow> bytes \<Rightarrow> u32" where
  "st_link_ps_bitmap o2 b = get_le32 (o2 + 4) b"

definition st_total_released_blks :: "nat \<Rightarrow> bytes \<Rightarrow> u32" where
  "st_total_released_blks o2 b = get_le32 (o2 + 12) b"

definition st_tx_total :: "nat \<Rightarrow> bytes \<Rightarrow> u32" where
  "st_tx_total o2 b = get_le32 (o2 + 16) b"

definition st_tx_released_pkts :: "nat \<Rightarrow> bytes \<Rightarrow> nat \<Rightarrow> u8" where
  "st_tx_released_pkts o2 b q = byte_at (o2 + 20 + q) b"

definition st_tx_lnk_free_pkts :: "nat \<Rightarrow> bytes \<Rightarrow> nat \<Rightarrow> u8" where
  "st_tx_lnk_free_pkts o2 b hlid = byte_at (o2 + 24 + hlid) b"

definition st_log_start_addr :: "nat \<Rightarrow> bytes \<Rightarrow> u32" where
  "st_log_start_addr o2 b = get_le32 (o2 + 40) b"

section \<open>Sleeping stations\<close>

definition wl12xx_irq_ps_regulate_link :: "wl_env \<Rightarrow> wl1271 \<Rightarrow> vif_ptr \<Rightarrow> nat \<Rightarrow> u8 \<Rightarrow> wl1271" where
  "wl12xx_irq_ps_regulate_link env wl v hlid tx_pkts =
     (let fw_ps = bit (ap_fw_ps_map wl) hlid; single_sta = (active_sta_count wl = 1)
      in if \<not> fw_ps \<or> unat tx_pkts < WL1271_PS_STA_MAX_PACKETS then wl12xx_ps_link_end env wl v hlid
         else if \<not> single_sta \<and> fw_ps \<and> WL1271_PS_STA_MAX_PACKETS \<le> unat tx_pkts
         then wl12xx_ps_link_start env wl v hlid True else wl)"

definition update_link_status :: "wl_env \<Rightarrow> vif_ptr \<Rightarrow> nat \<Rightarrow> bytes \<Rightarrow> nat \<Rightarrow> wl1271 \<Rightarrow> wl1271" where
  "update_link_status env v o2 st hlid wl =
     (let freed = st_tx_lnk_free_pkts o2 st hlid;
          cnt = freed - prev_freed_pkts (links wl hlid);
          wl1 = upd_link hlid (\<lambda>l. l\<lparr>prev_freed_pkts := freed, allocated_pkts := allocated_pkts l - cnt\<rparr>) wl
      in wl12xx_irq_ps_regulate_link env wl1 v hlid (allocated_pkts (links wl1 hlid)))"

definition wl12xx_irq_update_links_status :: "wl_env \<Rightarrow> nat \<Rightarrow> bytes \<Rightarrow> vif_ptr \<Rightarrow> wl1271 \<Rightarrow> wl1271" where
  "wl12xx_irq_update_links_status env o2 st v wl =
     (let wl1 = wl\<lparr>ap_fw_ps_map := st_link_ps_bitmap o2 st\<rparr>
      in fold (update_link_status env v o2 st)
           (set_bits_upto (ap_sta_hlid_map (vifs wl1 v)) WL12XX_MAX_LINKS) wl1)"

section \<open>The memory of the firmware\<close>

definition release_pkts :: "nat \<Rightarrow> bytes \<Rightarrow> nat \<Rightarrow> wl1271 \<Rightarrow> wl1271" where
  "release_pkts o2 st q wl =
     (let released = ucast (st_tx_released_pkts o2 st q) :: u32
      in wl\<lparr>tx_allocated_pkts := (tx_allocated_pkts wl)
               (q := tx_allocated_pkts wl q - ((released - tx_pkts_freed wl q) AND 0xff)),
            tx_pkts_freed := (tx_pkts_freed wl)(q := released)\<rparr>)"

text \<open>
  The number of blocks freed is the difference of two 32-bit counters. The code computes it in 64 bits
  when the counter has wrapped around and stores it in an \<open>int\<close>.
\<close>

definition freed_blocks :: "u32 \<Rightarrow> u32 \<Rightarrow> u32" where
  "freed_blocks old new_total =
     (if old \<le> new_total then new_total - old else word_of_int (0x100000000 - uint old + uint new_total))"

definition release_blocks :: "nat \<Rightarrow> bytes \<Rightarrow> wl1271 \<Rightarrow> wl1271" where
  "release_blocks o2 st wl =
     (let released = st_total_released_blks o2 st;
          freed = freed_blocks (tx_blocks_freed wl) released;
          wl1 = wl\<lparr>tx_blocks_freed := released, tx_allocated_blocks := tx_allocated_blocks wl - freed\<rparr>
      in if freed \<noteq> 0 then
           (if tx_allocated_blocks wl1 \<noteq> 0 then wl12xx_rearm_tx_watchdog_locked wl1
            else emit (C_cancel_work TX_WATCHDOG_WORK) wl1)
         else wl1)"

text \<open>The number of available blocks is compared as a signed number and never decreases here.\<close>

definition update_available :: "u32 \<Rightarrow> nat \<Rightarrow> bytes \<Rightarrow> wl1271 \<Rightarrow> wl1271" where
  "update_available old_tx_blk_count o2 st wl =
     (let avail = sint (st_tx_total o2 st - tx_allocated_blocks wl);
          wl1 = wl\<lparr>tx_blocks_available := word_of_int (max (sint (tx_blocks_available wl)) avail)\<rparr>
      in if old_tx_blk_count < tx_blocks_available wl1 then clear_flag WL1271_FLAG_FW_TX_BUSY wl1 else wl1)"

definition wlcore_fw_status :: "wl_env \<Rightarrow> wl1271 \<Rightarrow> unit res \<times> wl1271" where
  "wlcore_fw_status env wl =
     (let old_tx_blk_count = tx_blocks_available wl; o2 = st2_at wl
      in and_then (wlcore_raw_read_data env wl REG_RAW_FW_STATUS_ADDR
                     (o2 + FW_STATUS_2_LEN + fw_status_priv_len wl) False) (\<lambda>st wl0.
           let wl1 = fold (release_pkts o2 st) [0..<NUM_TX_QUEUES] (wl0\<lparr>fw_status_buf := st\<rparr>);
               wl2 = update_available old_tx_blk_count o2 st (release_blocks o2 st wl1);
               wl3 = fold (wl12xx_irq_update_links_status env o2 st) (wlvifs_of_type BSS_TYPE_AP_BSS wl2) wl2;
               wl4 = emit C_gettime wl3
           in (Inr (), wl4\<lparr>time_offset := drop_bit 10 (e_time_ns env (log wl4)) - uint (st_fw_localtime o2 st)\<rparr>)))"

section \<open>The interrupt thread\<close>

abbreviation (input) WL1271_IRQ_MAX_LOOPS :: nat where "WL1271_IRQ_MAX_LOOPS \<equiv> 256"
abbreviation (input) WLCORE_ALL_INTR_MASK :: u32 where "WLCORE_ALL_INTR_MASK \<equiv> 0x26D"
abbreviation (input) INTR_WATCHDOG :: nat where "INTR_WATCHDOG \<equiv> 0"
abbreviation (input) INTR_EVENT_A :: nat where "INTR_EVENT_A \<equiv> 2"
abbreviation (input) INTR_EVENT_B :: nat where "INTR_EVENT_B \<equiv> 3"
abbreviation (input) INTR_DATA :: nat where "INTR_DATA \<equiv> 6"
abbreviation (input) SW_INTR_WATCHDOG :: nat where "SW_INTR_WATCHDOG \<equiv> 9"

text \<open>Sequencing of operations whose loops may run forever.\<close>

definition and_then_opt ::
  "('a res \<times> wl1271) option \<Rightarrow> (wl1271 \<Rightarrow> ('b res \<times> wl1271) option) \<Rightarrow> ('b res \<times> wl1271) option" where
  "and_then_opt m f = (case m of None \<Rightarrow> None | Some (Inl e, wl) \<Rightarrow> Some (Inl e, wl) | Some (Inr _, wl) \<Rightarrow> f wl)"

definition wants_tx :: "wl1271 \<Rightarrow> bool" where
  "wants_tx wl \<longleftrightarrow> WL1271_FLAG_FW_TX_BUSY \<notin> wl_flags wl \<and> 0 < wl1271_tx_total_queue_count wl"

definition irq_data :: "wlcore_ops \<Rightarrow> wl_env \<Rightarrow> wl1271 \<Rightarrow> (unit res \<times> wl1271) option" where
  "irq_data ops env wl =
     and_then_opt (wlcore_rx ops env wl (fw_status_buf wl)) (\<lambda>wl1.
     and_then_opt (if wants_tx wl1 then wlcore_tx_work_locked ops env wl1 else Some (Inr (), wl1)) (\<lambda>wl2.
     and_then_opt (Some (wlcore_hw_tx_delayed_compl ops env wl2)) (\<lambda>wl3.
       let defer_count = length (deferred_tx_queue wl3) + length (deferred_rx_queue wl3)
       in Some (Inr (), if WL1271_DEFERRED_QUEUE_LIMIT < defer_count then wl1271_flush_deferred_work wl3 else wl3))))"

text \<open>
  One round: \<open>Inr True\<close> is the end of the loop, because the firmware reported nothing.
\<close>

definition irq_round :: "wlcore_ops \<Rightarrow> wl_env \<Rightarrow> wl1271 \<Rightarrow> (bool res \<times> wl1271) option" where
  "irq_round ops env wl =
     and_then_opt (Some (wlcore_fw_status env (clear_flag WL1271_FLAG_IRQ_RUNNING wl))) (\<lambda>wl1.
       let wl2 = wlcore_hw_tx_immediate_compl ops env wl1;
           intr = st_intr (fw_status_buf wl2) AND WLCORE_ALL_INTR_MASK
       in if intr = 0 then Some (Inr True, wl2)
          else if bit intr INTR_WATCHDOG \<or> bit intr SW_INTR_WATCHDOG
          then Some (Inl EIO, wl2\<lparr>watchdog_recovery := True\<rparr>)
          else
            and_then_opt (if bit intr INTR_DATA then irq_data ops env wl2 else Some (Inr (), wl2)) (\<lambda>wl3.
            and_then_opt (if bit intr INTR_EVENT_A then wl1271_event_handle ops env wl3 0 else Some (Inr (), wl3)) (\<lambda>wl4.
            and_then_opt (if bit intr INTR_EVENT_B then wl1271_event_handle ops env wl4 1 else Some (Inr (), wl4)) (\<lambda>wl5.
              Some (Inr False, wl5)))))"

primrec irq_loop :: "wlcore_ops \<Rightarrow> wl_env \<Rightarrow> nat \<Rightarrow> wl1271 \<Rightarrow> (unit res \<times> wl1271) option" where
  "irq_loop ops env 0 wl = Some (Inr (), wl)"
| "irq_loop ops env (Suc loopcount) wl =
     (case irq_round ops env wl of
        None \<Rightarrow> None
      | Some (Inl e, wl1) \<Rightarrow> Some (Inl e, wl1)
      | Some (Inr done, wl1) \<Rightarrow> if done then Some (Inr (), wl1) else irq_loop ops env loopcount wl1)"

definition wlcore_irq_locked :: "wlcore_ops \<Rightarrow> wl_env \<Rightarrow> wl1271 \<Rightarrow> (unit res \<times> wl1271) option" where
  "wlcore_irq_locked ops env wl =
     (if wl_state wl \<noteq> WLCORE_STATE_ON then Some (Inr (), wl)
      else
        and_then_opt (Some (wl1271_ps_elp_wakeup env wl)) (\<lambda>wl1.
        and_then_opt (irq_loop ops env (if edge_irq_quirk wl then 1 else WL1271_IRQ_MAX_LOOPS) wl1) (\<lambda>wl2.
          Some (Inr (), wl1271_ps_elp_sleep wl2))))"

definition wlcore_irq :: "wlcore_ops \<Rightarrow> wl_env \<Rightarrow> wl1271 \<Rightarrow> wl1271 option" where
  "wlcore_irq ops env wl =
     (let wl0 = emit (C_cancel_work TX_WORK) (set_flag WL1271_FLAG_TX_PENDING wl)
      in case wlcore_irq_locked ops env wl0 of
           None \<Rightarrow> None
         | Some (r, wl1) \<Rightarrow>
             let wl2 = (case r of Inl e \<Rightarrow> wl12xx_queue_recovery_work wl1 | Inr _ \<Rightarrow> wl1);
                 wl3 = clear_flag WL1271_FLAG_TX_PENDING wl2;
                 wl4 = (if wants_tx wl3 then emit (C_queue_work TX_WORK) wl3 else wl3)
             in Some (clear_flag WL1271_FLAG_WAKE_LOCK wl4))"

section \<open>The watchdog of transmission\<close>

definition wl12xx_tx_watchdog_work :: "wl1271 \<Rightarrow> wl1271" where
  "wl12xx_tx_watchdog_work wl =
     (if wl_state wl \<noteq> WLCORE_STATE_ON then wl
      else if tx_allocated_blocks wl = 0 then wl
      else if find_first_bit (roc_map wl) WL12XX_MAX_ROLES < WL12XX_MAX_ROLES then wl12xx_rearm_tx_watchdog_locked wl
      else if wl_scan_state wl \<noteq> WL1271_SCAN_STATE_IDLE then wl12xx_rearm_tx_watchdog_locked wl
      else if active_sta_count wl \<noteq> 0 then wl12xx_rearm_tx_watchdog_locked wl
      else wl12xx_queue_recovery_work wl)"

section \<open>The freed blocks\<close>

lemma freed_blocks_diff: "freed_blocks old new_total = new_total - old"
proof (cases "old \<le> new_total")
  case False
  have "(word_of_int (0x100000000 - uint old + uint new_total) :: u32) = word_of_int 0x100000000 - old + new_total"
    by (simp only: word_of_int_uint wi_hom_sub [symmetric] wi_hom_add [symmetric])
  also have "(word_of_int 0x100000000 :: u32) = 0" by simp
  finally show ?thesis using False by (simp add: freed_blocks_def)
qed (simp add: freed_blocks_def)

section \<open>The status keeps the invariant\<close>

lemma tx_keeps_drain:
  assumes d: "drain_step UNIV wl wl'" and s: "dummy_same wl wl'"
  shows "tx_keeps wl wl'"
  unfolding tx_keeps_def
proof (intro impI)
  assume inv: "tx_inv wl"
  then have ok: "tx_ok wl" by (simp add: tx_inv_def)
  note k = d [unfolded drain_step_def, rule_format, OF ok]
  have b: "skb_body (skbs wl' x) = skb_body (skbs wl x)" for x using k by blast
  have "frames_fit wl'"
    by (rule frames_fit_sub [of wl]) (use inv k in \<open>simp_all add: tx_inv_def\<close>)
  moreover have "dummy_ok wl'" using dummy_ok_same [OF s] inv by (simp add: tx_inv_def)
  moreover have "outside_same wl wl'"
  proof (rule outside_sameI)
    fix p
    have "skb_queue_mapping (skb_body (skbs wl' p)) = skb_queue_mapping (skb_body (skbs wl p))" by (simp add: b)
    then show "skb_queue_mapping (skbs wl' p) = skb_queue_mapping (skbs wl p)" by (simp add: skb_body_def)
  qed
  ultimately show "tx_inv wl' \<and> accounted wl' = accounted wl \<and> owned wl' \<subseteq># owned wl
      \<and> dummy_packet wl' = dummy_packet wl \<and> outside_same wl wl'
      \<and> (wl_state wl' = WLCORE_STATE_OFF \<longleftrightarrow> wl_state wl = WLCORE_STATE_OFF)"
    using inv k by (simp add: tx_inv_def)
qed

lemma ps_link_start_keeps: "h < WL12XX_MAX_LINKS \<Longrightarrow> tx_keeps wl (wl12xx_ps_link_start env wl v h c)"
  by (rule tx_keeps_drain [OF drain_step_ps_link_start dummy_same_ps_link_start])

lemma ps_link_end_keeps: "tx_keeps wl (wl12xx_ps_link_end env wl v h)"
proof -
  have 1: "tx_keeps wl (wl\<lparr>ap_ps_map := m\<rparr>)" for m by (rule tx_keeps_quiet [OF quiet_step_blocks(4)]) simp
  show ?thesis using 1 tx_keeps_trans [OF 1 tx_keeps_emit] by (simp add: wl12xx_ps_link_end_def Let_def)
qed

lemma update_link_keeps:
  assumes "h < WL12XX_MAX_LINKS"
  shows "tx_keeps wl (update_link_status env v o2 st h wl)"
proof -
  have 1: "tx_keeps wl (upd_link h (\<lambda>l. l\<lparr>prev_freed_pkts := a, allocated_pkts := allocated_pkts l - b\<rparr>) wl)" for a b
    by (rule tx_keeps_quiet [OF quiet_step_link]) (simp_all add: upd_link_def)
  have "tx_keeps w (wl12xx_irq_ps_regulate_link env w v h n)" for w n
    by (simp add: wl12xx_irq_ps_regulate_link_def Let_def ps_link_start_keeps ps_link_end_keeps assms)
  then show ?thesis unfolding update_link_status_def Let_def by (rule tx_keeps_trans [OF 1])
qed

lemma update_links_keeps: "tx_keeps wl (wl12xx_irq_update_links_status env o2 st v wl)"
proof -
  let ?w = "wl\<lparr>ap_fw_ps_map := st_link_ps_bitmap o2 st\<rparr>"
  have 1: "tx_keeps wl ?w" by (rule tx_keeps_quiet; (rule quiet_stepI [where l = "[]"])?; simp)
  have "tx_keeps ?w (fold (update_link_status env v o2 st) (set_bits_upto m WL12XX_MAX_LINKS) ?w)" for m
    by (rule tx_keeps_fold) (simp add: update_link_keeps)
  then show ?thesis unfolding wl12xx_irq_update_links_status_def Let_def by (rule tx_keeps_trans [OF 1])
qed

lemma release_keeps: "tx_keeps wl (release_pkts o2 st q wl)" "tx_keeps wl (release_blocks o2 st wl)"
proof -
  show "tx_keeps wl (release_pkts o2 st q wl)"
    unfolding release_pkts_def Let_def by (rule tx_keeps_quiet; (rule quiet_stepI [where l = "[]"])?; simp)
  have 1: "tx_keeps wl (wl\<lparr>tx_blocks_freed := a, tx_allocated_blocks := b\<rparr>)" for a b
    by (rule tx_keeps_quiet; (rule quiet_stepI [where l = "[]"])?; simp)
  have 2: "tx_keeps w (wl12xx_rearm_tx_watchdog_locked w)" for w by (rule tx_keeps_quiet [OF quiet_step_rearm]) simp
  have 3: "tx_keeps w (emit (C_cancel_work TX_WATCHDOG_WORK) w)" for w by (simp add: tx_keeps_emit)
  show "tx_keeps wl (release_blocks o2 st wl)"
    using 1 tx_keeps_trans [OF 1 2] tx_keeps_trans [OF 1 3]
    unfolding release_blocks_def Let_def by (simp only: if_split simp_thms)
qed

lemma update_available_keeps: "tx_keeps wl (update_available old o2 st wl)"
proof -
  have 1: "tx_keeps wl (wl\<lparr>tx_blocks_available := a\<rparr>)" for a
    by (rule tx_keeps_quiet; (rule quiet_stepI [where l = "[]"])?; simp)
  show ?thesis
    using 1 tx_keeps_trans [OF 1 tx_keeps_flag(2) [of WL1271_FLAG_FW_TX_BUSY]] by (simp add: update_available_def Let_def)
qed

lemma fw_status_keeps: "tx_keeps wl (snd (wlcore_fw_status env wl))"
proof -
  have body: "tx_keeps wl0 (snd (let wl1 = fold (release_pkts o2 st) [0..<NUM_TX_QUEUES] (wl0\<lparr>fw_status_buf := st\<rparr>);
               wl2 = update_available old o2 st (release_blocks o2 st wl1);
               wl3 = fold (wl12xx_irq_update_links_status env o2 st) (wlvifs_of_type BSS_TYPE_AP_BSS wl2) wl2;
               wl4 = emit C_gettime wl3
           in (Inr (), wl4\<lparr>time_offset := t wl4\<rparr>)))" for wl0 o2 st old and t :: "wl1271 \<Rightarrow> int"
  proof -
    define wa where "wa = wl0\<lparr>fw_status_buf := st\<rparr>"
    define wl1 where "wl1 = fold (release_pkts o2 st) [0..<NUM_TX_QUEUES] wa"
    define wl2 where "wl2 = update_available old o2 st (release_blocks o2 st wl1)"
    define wl3 where "wl3 = fold (wl12xx_irq_update_links_status env o2 st) (wlvifs_of_type BSS_TYPE_AP_BSS wl2) wl2"
    define wl4 where "wl4 = emit C_gettime wl3"
    have "tx_keeps wl0 wa" unfolding wa_def by (rule tx_keeps_quiet; (rule quiet_stepI [where l = "[]"])?; simp)
    also have "tx_keeps wa wl1" unfolding wl1_def by (rule tx_keeps_fold) (rule release_keeps)
    also have "tx_keeps wl1 (release_blocks o2 st wl1)" by (rule release_keeps)
    also have "tx_keeps (release_blocks o2 st wl1) wl2" unfolding wl2_def by (rule update_available_keeps)
    also have "tx_keeps wl2 wl3" unfolding wl3_def by (rule tx_keeps_fold) (rule update_links_keeps)
    also have "tx_keeps wl3 wl4" unfolding wl4_def by (simp add: tx_keeps_emit)
    also have "tx_keeps wl4 (wl4\<lparr>time_offset := t wl4\<rparr>)"
      by (rule tx_keeps_quiet; (rule quiet_stepI [where l = "[]"])?; simp)
    finally show ?thesis
      unfolding Let_def wa_def [symmetric] wl1_def [symmetric] wl2_def [symmetric] wl3_def [symmetric]
        wl4_def [symmetric] by simp
  qed
  show ?thesis
    unfolding wlcore_fw_status_def
    by (subst Let_def, subst Let_def, rule tx_keeps_seq [OF tx_keeps_io [OF io_step_raw_read_data]]) (rule body)
qed

section \<open>The interrupt thread keeps the invariant and ends\<close>

text \<open>
  \<open>ends_keeping env wl m\<close>: the computation returns, and what it returns keeps the invariant. Memory the
  allocator hands out stays fresh on the way.
\<close>

definition ends_keeping :: "wl_env \<Rightarrow> wl1271 \<Rightarrow> ('a res \<times> wl1271) option \<Rightarrow> bool" where
  "ends_keeping env wl m \<longleftrightarrow> (\<exists>r wl'. m = Some (r, wl') \<and> tx_keeps wl wl')"

lemma ends_keepingI: "tx_keeps wl wl' \<Longrightarrow> ends_keeping env wl (Some (r, wl'))"
  by (simp add: ends_keeping_def)

lemma ends_keeping_then:
  assumes inv: "tx_inv wl" "fresh_skbs env wl" and m: "ends_keeping env wl m"
    and f: "\<And>w. tx_keeps wl w \<Longrightarrow> tx_inv w \<Longrightarrow> fresh_skbs env w \<Longrightarrow> ends_keeping env w (f w)"
  shows "ends_keeping env wl (and_then_opt m f)"
proof -
  from m obtain r w where r: "m = Some (r, w)" and k: "tx_keeps wl w" by (auto simp: ends_keeping_def)
  show ?thesis
  proof (cases r)
    case (Inl e)
    then show ?thesis using r k by (simp add: and_then_opt_def ends_keeping_def)
  next
    case (Inr x)
    have "tx_inv w" using k inv by (simp add: tx_keeps_def)
    moreover have "fresh_skbs env w" by (rule fresh_keeps [OF k inv])
    ultimately obtain r' w' where "f w = Some (r', w')" "tx_keeps w w'"
      using f [OF k] by (auto simp: ends_keeping_def)
    then show ?thesis using r Inr tx_keeps_trans [OF k] by (simp add: and_then_opt_def ends_keeping_def)
  qed
qed

text \<open>What the interrupt relies on in a chip besides sending and receiving: completions keep the invariant.\<close>

locale chip_irq = chip_tx + chip_rx +
  assumes delayed_keeps: "op_tx_delayed_compl ops = Some f \<Longrightarrow> tx_keeps wl (snd (f env wl))"
    and immediate_keeps: "op_tx_immediate_compl ops = Some g \<Longrightarrow> tx_keeps wl (g env wl)"
begin

lemma rx_keeps:
  assumes "fresh_skbs env wl"
  shows "ends_keeping env wl (wlcore_rx ops env wl st)"
proof (cases "num_rx_desc wl = 0")
  case True
  then show ?thesis by (simp add: wlcore_rx_def ends_keepingI tx_keeps_emit)
next
  case False
  then obtain r wl' where "wlcore_rx ops env wl st = Some (r, wl')" "rx_step env wl wl'"
    using wlcore_rx_returns [of wl env st] by auto
  then show ?thesis using tx_keeps_rx assms by (simp add: ends_keeping_def)
qed

lemma delayed_compl_keeps: "tx_keeps wl (snd (wlcore_hw_tx_delayed_compl ops env wl))"
  by (auto simp: wlcore_hw_tx_delayed_compl_def split: option.split intro: delayed_keeps)

lemma immediate_compl_keeps: "tx_keeps wl (wlcore_hw_tx_immediate_compl ops env wl)"
  by (auto simp: wlcore_hw_tx_immediate_compl_def split: option.split intro: immediate_keeps)

lemma tx_locked_ends_keeping: "tx_inv wl \<Longrightarrow> ends_keeping env wl (wlcore_tx_work_locked ops env wl)"
  by (rule tx_work_locked_keeps [of wl env]) (auto simp: ends_keeping_def)

lemma irq_data_keeps:
  assumes inv: "tx_inv wl" "fresh_skbs env wl"
  shows "ends_keeping env wl (irq_data ops env wl)"
  unfolding irq_data_def
proof (rule ends_keeping_then [OF inv])
  show "ends_keeping env wl (wlcore_rx ops env wl (fw_status_buf wl))" by (rule rx_keeps [OF inv(2)])
  fix w1
  assume i1: "tx_inv w1" "fresh_skbs env w1"
  show "ends_keeping env w1 (and_then_opt (if wants_tx w1 then wlcore_tx_work_locked ops env w1 else Some (Inr (), w1)) (\<lambda>wl2.
     and_then_opt (Some (wlcore_hw_tx_delayed_compl ops env wl2)) (\<lambda>wl3.
       let defer_count = length (deferred_tx_queue wl3) + length (deferred_rx_queue wl3)
       in Some (Inr (), if WL1271_DEFERRED_QUEUE_LIMIT < defer_count then wl1271_flush_deferred_work wl3 else wl3))))"
  proof (rule ends_keeping_then [OF i1])
    show "ends_keeping env w1 (if wants_tx w1 then wlcore_tx_work_locked ops env w1 else Some (Inr (), w1))"
      by (simp add: tx_locked_ends_keeping i1 ends_keepingI)
    fix w2
    assume i2: "tx_inv w2" "fresh_skbs env w2"
    have d: "ends_keeping env w2 (Some (wlcore_hw_tx_delayed_compl ops env w2))"
      using delayed_compl_keeps [of w2 env] by (cases "wlcore_hw_tx_delayed_compl ops env w2") (simp add: ends_keeping_def)
    show "ends_keeping env w2 (and_then_opt (Some (wlcore_hw_tx_delayed_compl ops env w2)) (\<lambda>wl3.
       let defer_count = length (deferred_tx_queue wl3) + length (deferred_rx_queue wl3)
       in Some (Inr (), if WL1271_DEFERRED_QUEUE_LIMIT < defer_count then wl1271_flush_deferred_work wl3 else wl3)))"
      by (rule ends_keeping_then [OF i2 d])
        (use netstack_keeps in \<open>simp add: ends_keepingI wl1271_netstack_work_def Let_def\<close>)
  qed
qed

lemma event_ends_keeping: "tx_inv wl \<Longrightarrow> ends_keeping env wl (wl1271_event_handle ops env wl n)"
  by (rule event_handle_keeps [of wl env n]) (auto simp: ends_keeping_def)

lemma irq_handlers_keep:
  assumes inv: "tx_inv wl" "fresh_skbs env wl"
  shows "ends_keeping env wl
     (and_then_opt (if d then irq_data ops env wl else Some (Inr (), wl)) (\<lambda>wl3.
      and_then_opt (if a then wl1271_event_handle ops env wl3 0 else Some (Inr (), wl3)) (\<lambda>wl4.
      and_then_opt (if b then wl1271_event_handle ops env wl4 1 else Some (Inr (), wl4)) (\<lambda>wl5.
        Some (Inr False, wl5)))))"
  by (intro ends_keeping_then inv)
    (simp_all add: irq_data_keeps inv event_ends_keeping ends_keepingI)

lemma irq_round_keeps:
  assumes inv: "tx_inv wl" "fresh_skbs env wl"
  shows "ends_keeping env wl (irq_round ops env wl)"
  unfolding irq_round_def
proof (rule ends_keeping_then [OF inv])
  have "tx_keeps wl (snd (wlcore_fw_status env (clear_flag WL1271_FLAG_IRQ_RUNNING wl)))"
    by (rule tx_keeps_trans [OF tx_keeps_flag(2) fw_status_keeps]) simp
  then show "ends_keeping env wl (Some (wlcore_fw_status env (clear_flag WL1271_FLAG_IRQ_RUNNING wl)))"
    by (cases "wlcore_fw_status env (clear_flag WL1271_FLAG_IRQ_RUNNING wl)") (simp add: ends_keeping_def)
  fix w1
  assume i1: "tx_inv w1" "fresh_skbs env w1"
  define w2 where "w2 = wlcore_hw_tx_immediate_compl ops env w1"
  define intr where "intr = st_intr (fw_status_buf w2) AND WLCORE_ALL_INTR_MASK"
  have k: "tx_keeps w1 w2" unfolding w2_def by (rule immediate_compl_keeps)
  have i2: "tx_inv w2" "fresh_skbs env w2" using k i1 fresh_keeps [OF k i1] by (simp_all add: tx_keeps_def)
  have wd: "tx_keeps w2 (w2\<lparr>watchdog_recovery := True\<rparr>)"
    by (rule tx_keeps_quiet; (rule quiet_stepI [where l = "[]"])?; simp)
  have h: "ends_keeping env w1 m" if "ends_keeping env w2 m" for m :: "('c res \<times> wl1271) option"
    using that tx_keeps_trans [OF k] by (auto simp: ends_keeping_def)
  show "ends_keeping env w1 (let wl2 = wlcore_hw_tx_immediate_compl ops env w1;
           intr = st_intr (fw_status_buf wl2) AND WLCORE_ALL_INTR_MASK
       in if intr = 0 then Some (Inr True, wl2)
          else if bit intr INTR_WATCHDOG \<or> bit intr SW_INTR_WATCHDOG
          then Some (Inl EIO, wl2\<lparr>watchdog_recovery := True\<rparr>)
          else
            and_then_opt (if bit intr INTR_DATA then irq_data ops env wl2 else Some (Inr (), wl2)) (\<lambda>wl3.
            and_then_opt (if bit intr INTR_EVENT_A then wl1271_event_handle ops env wl3 0 else Some (Inr (), wl3)) (\<lambda>wl4.
            and_then_opt (if bit intr INTR_EVENT_B then wl1271_event_handle ops env wl4 1 else Some (Inr (), wl4)) (\<lambda>wl5.
              Some (Inr False, wl5)))))"
    unfolding Let_def w2_def [symmetric] intr_def [symmetric]
    by (simp add: ends_keepingI k tx_keeps_trans [OF k wd] h [OF irq_handlers_keep [OF i2]])
qed

lemma irq_loop_keeps: "tx_inv wl \<Longrightarrow> fresh_skbs env wl \<Longrightarrow> ends_keeping env wl (irq_loop ops env n wl)"
proof (induction n arbitrary: wl)
  case 0
  then show ?case by (simp add: ends_keepingI)
next
  case (Suc n)
  obtain r w where r: "irq_round ops env wl = Some (r, w)" and k: "tx_keeps wl w"
    using irq_round_keeps [OF Suc.prems] by (auto simp: ends_keeping_def)
  have "tx_inv w" "fresh_skbs env w" using k Suc.prems(1) fresh_keeps [OF k Suc.prems] by (simp_all add: tx_keeps_def)
  from Suc.IH [OF this] k show ?case
    using tx_keeps_trans [OF k] r by (cases r) (auto simp: ends_keeping_def)
qed

lemma irq_locked_keeps:
  assumes inv: "tx_inv wl" "fresh_skbs env wl"
  shows "ends_keeping env wl (wlcore_irq_locked ops env wl)"
proof -
  have w: "ends_keeping env wl (Some (wl1271_ps_elp_wakeup env wl))"
    using tx_keeps_quiet [OF quiet_step_elp_wakeup, of wl env]
    by (cases "wl1271_ps_elp_wakeup env wl") (simp add: ends_keeping_def)
  have s: "tx_keeps x (wl1271_ps_elp_sleep x)" for x
    by (rule tx_keeps_quiet [OF quiet_step_elp_sleep]) (simp add: wl1271_ps_elp_sleep_def Let_def set_flag_def emit_def)
  have "ends_keeping env wl (and_then_opt (Some (wl1271_ps_elp_wakeup env wl)) (\<lambda>wl1.
        and_then_opt (irq_loop ops env n wl1) (\<lambda>wl2. Some (Inr (), wl1271_ps_elp_sleep wl2))))" for n
    by (intro ends_keeping_then inv w) (simp_all add: irq_loop_keeps ends_keepingI s)
  then show ?thesis by (simp add: wlcore_irq_locked_def ends_keepingI)
qed

lemma irq_keeps:
  assumes inv: "tx_inv wl" "fresh_skbs env wl"
  obtains wl' where "wlcore_irq ops env wl = Some wl'" and "tx_keeps wl wl'"
proof -
  define wl0 where "wl0 = emit (C_cancel_work TX_WORK) (set_flag WL1271_FLAG_TX_PENDING wl)"
  have k0: "tx_keeps wl wl0"
    unfolding wl0_def by (rule tx_keeps_trans [OF tx_keeps_flag(1) tx_keeps_emit]) simp_all
  have "tx_inv wl0" "fresh_skbs env wl0" using k0 inv fresh_keeps [OF k0 inv] by (simp_all add: tx_keeps_def)
  from irq_locked_keeps [OF this] obtain r wl1 where r: "wlcore_irq_locked ops env wl0 = Some (r, wl1)"
    and k1: "tx_keeps wl0 wl1" by (auto simp: ends_keeping_def)
  define wl2 where "wl2 = (case r of Inl e \<Rightarrow> wl12xx_queue_recovery_work wl1 | Inr _ \<Rightarrow> wl1)"
  define wl3 where "wl3 = clear_flag WL1271_FLAG_TX_PENDING wl2"
  define wl4 where "wl4 = (if wants_tx wl3 then emit (C_queue_work TX_WORK) wl3 else wl3)"
  have "tx_keeps wl wl1" by (rule tx_keeps_trans [OF k0 k1])
  also have "tx_keeps wl1 wl2" by (simp add: wl2_def tx_keeps_cmd split: sum.split)
  also have "tx_keeps wl2 wl3" unfolding wl3_def by (rule tx_keeps_flag) simp
  also have "tx_keeps wl3 wl4" by (simp add: wl4_def tx_keeps_emit)
  also have "tx_keeps wl4 (clear_flag WL1271_FLAG_WAKE_LOCK wl4)" by (rule tx_keeps_flag) simp
  finally have k: "tx_keeps wl (clear_flag WL1271_FLAG_WAKE_LOCK wl4)" .
  have "wlcore_irq ops env wl = Some (clear_flag WL1271_FLAG_WAKE_LOCK wl4)"
    using r by (simp add: wlcore_irq_def wl0_def Let_def wl2_def wl3_def wl4_def)
  then show thesis using k by (rule that)
qed

end

section \<open>The accounts of the firmware's memory\<close>

text \<open>What the driver keeps of the firmware's memory, together with the status it last read.\<close>

definition fw_memory :: "wl1271 \<Rightarrow> u32 \<times> u32 \<times> u32 \<times> bool \<times> (nat \<Rightarrow> u32) \<times> (nat \<Rightarrow> u32) \<times> bytes" where
  "fw_memory wl = (tx_blocks_freed wl, tx_allocated_blocks wl, tx_blocks_available wl,
     WL1271_FLAG_FW_TX_BUSY \<in> wl_flags wl, tx_allocated_pkts wl, tx_pkts_freed wl, fw_status_buf wl)"

lemma fw_memory_filter: "fw_memory (wl1271_ps_filter_frames wl h) = fw_memory wl"
  by (rule filter_frames_shape [of wl h]) (simp add: fw_memory_def)

lemma fw_memory_update_link: "fw_memory (update_link_status env v o2 st h wl) = fw_memory wl"
proof -
  have 1: "fw_memory (emit c w) = fw_memory w" "fw_memory (upd_link h f w) = fw_memory w"
    "fw_memory (w\<lparr>ap_ps_map := m\<rparr>) = fw_memory w" for c w f m
    by (simp_all add: fw_memory_def emit_def upd_link_def)
  show ?thesis
    by (simp add: update_link_status_def wl12xx_irq_ps_regulate_link_def wl12xx_ps_link_start_def
        wl12xx_ps_link_end_def Let_def 1 fw_memory_filter)
qed

lemma fold_same: "(\<And>x w. f (g x w) = f w) \<Longrightarrow> f (fold g xs w) = f w"
  by (induction xs arbitrary: w) simp_all

lemma fw_memory_update_links: "fw_memory (wl12xx_irq_update_links_status env o2 st v wl) = fw_memory wl"
proof -
  have "fw_memory (wl\<lparr>ap_fw_ps_map := m\<rparr>) = fw_memory wl" for m by (simp add: fw_memory_def)
  then show ?thesis
    by (simp add: wl12xx_irq_update_links_status_def Let_def fold_same [of fw_memory, OF fw_memory_update_link])
qed

lemma release_pkts_all:
  "fold (release_pkts o2 st) [0..<NUM_TX_QUEUES] wl = wl\<lparr>
     tx_allocated_pkts := (\<lambda>q. if q < NUM_TX_QUEUES
       then tx_allocated_pkts wl q - ((ucast (st_tx_released_pkts o2 st q) - tx_pkts_freed wl q) AND 0xff)
       else tx_allocated_pkts wl q),
     tx_pkts_freed := (\<lambda>q. if q < NUM_TX_QUEUES then ucast (st_tx_released_pkts o2 st q) else tx_pkts_freed wl q)\<rparr>"
proof -
  have l: "[0..<NUM_TX_QUEUES] = [0, 1, 2, 3]" by (simp add: upt_rec)
  have "q < NUM_TX_QUEUES \<longleftrightarrow> q = 0 \<or> q = 1 \<or> q = 2 \<or> q = 3" for q by auto
  then show ?thesis unfolding l by (auto simp: release_pkts_def Let_def fun_eq_iff)
qed

lemma fw_status_result:
  assumes "wlcore_fw_status env wl = (Inr (), wl')"
  shows "\<exists>wl0 st. io_step wl wl0 \<and> wlcore_raw_read_data env wl REG_RAW_FW_STATUS_ADDR
       (st2_at wl + FW_STATUS_2_LEN + fw_status_priv_len wl) False = (Inr st, wl0) \<and> fw_memory wl'
     = fw_memory (update_available (tx_blocks_available wl) (st2_at wl) st (release_blocks (st2_at wl) st
         (fold (release_pkts (st2_at wl) st) [0..<NUM_TX_QUEUES] (wl0\<lparr>fw_status_buf := st\<rparr>))))"
proof -
  let ?len = "st2_at wl + FW_STATUS_2_LEN + fw_status_priv_len wl"
  obtain r wl0 where rd: "wlcore_raw_read_data env wl REG_RAW_FW_STATUS_ADDR ?len False = (r, wl0)" by (rule prod.exhaust)
  have i: "io_step wl wl0" using io_step_raw_read_data [of wl env REG_RAW_FW_STATUS_ADDR ?len False] rd by simp
  obtain st where r: "r = Inr st" using assms rd by (cases r) (simp_all add: wlcore_fw_status_def)
  define wl2 where "wl2 = update_available (tx_blocks_available wl) (st2_at wl) st (release_blocks (st2_at wl) st
         (fold (release_pkts (st2_at wl) st) [0..<NUM_TX_QUEUES] (wl0\<lparr>fw_status_buf := st\<rparr>)))"
  define wl3 where "wl3 = emit C_gettime
      (fold (wl12xx_irq_update_links_status env (st2_at wl) st) (wlvifs_of_type BSS_TYPE_AP_BSS wl2) wl2)"
  have "wl' = wl3\<lparr>time_offset := drop_bit 10 (e_time_ns env (log wl3)) - uint (st_fw_localtime (st2_at wl) st)\<rparr>"
    using assms unfolding wlcore_fw_status_def Let_def rd r wl2_def wl3_def by simp
  then have "fw_memory wl' = fw_memory wl3" by (simp add: fw_memory_def)
  also have "\<dots> = fw_memory wl2"
    unfolding wl3_def using fold_same [of fw_memory, OF fw_memory_update_links] by (simp add: fw_memory_def emit_def)
  finally show ?thesis using i rd unfolding wl2_def r by blast
qed

lemma release_blocks_memory:
  "fw_memory (release_blocks o2 st wl) = (st_total_released_blks o2 st,
     tx_allocated_blocks wl + tx_blocks_freed wl - st_total_released_blks o2 st, tx_blocks_available wl,
     WL1271_FLAG_FW_TX_BUSY \<in> wl_flags wl, tx_allocated_pkts wl, tx_pkts_freed wl, fw_status_buf wl)"
  by (simp add: release_blocks_def Let_def fw_memory_def freed_blocks_diff wl12xx_rearm_tx_watchdog_locked_def emit_def)

lemma update_available_memory:
  "fw_memory (update_available old o2 st wl) =
     (let a = word_of_int (max (sint (tx_blocks_available wl)) (sint (st_tx_total o2 st - tx_allocated_blocks wl)))
      in (tx_blocks_freed wl, tx_allocated_blocks wl, a, WL1271_FLAG_FW_TX_BUSY \<in> wl_flags wl \<and> a \<le> old,
          tx_allocated_pkts wl, tx_pkts_freed wl, fw_status_buf wl))"
  by (auto simp: update_available_def Let_def fw_memory_def clear_flag_def not_less)

lemma fw_status_reads:
  assumes "wlcore_raw_read_data env wl REG_RAW_FW_STATUS_ADDR (st2_at wl + FW_STATUS_2_LEN + fw_status_priv_len wl) False
     = (Inr st, wl0)"
  obtains wl' where "wlcore_fw_status env wl = (Inr (), wl')" and "fw_status_buf wl' = st"
proof -
  have "fst (wlcore_fw_status env wl) = Inr ()" using assms by (simp add: wlcore_fw_status_def Let_def)
  then obtain wl' where w: "wlcore_fw_status env wl = (Inr (), wl')" by (cases "wlcore_fw_status env wl") simp
  have "fw_status_buf (release_blocks o2 b w) = fw_status_buf w" for o2 b w
    using release_blocks_memory [of o2 b w] by (simp add: fw_memory_def)
  with fw_status_result [OF w] assms have "fw_status_buf wl' = st"
    unfolding update_available_memory fw_memory_def [of wl'] by (auto simp: Let_def release_pkts_all)
  with w show thesis by (rule that)
qed

lemma sint_of_max:
  fixes a b :: u32
  shows "sint (word_of_int (max (sint a) (sint b)) :: u32) = max (sint a) (sint b)"
  by (simp add: max_def)

lemma fw_memory_io: "io_step wl wl' \<Longrightarrow> st \<noteq> WL1271_FLAG_IO_FAILED \<Longrightarrow>
    tx_blocks_freed wl' = tx_blocks_freed wl \<and> tx_allocated_blocks wl' = tx_allocated_blocks wl
    \<and> tx_blocks_available wl' = tx_blocks_available wl \<and> (st \<in> wl_flags wl' \<longleftrightarrow> st \<in> wl_flags wl)
    \<and> tx_allocated_pkts wl' = tx_allocated_pkts wl \<and> tx_pkts_freed wl' = tx_pkts_freed wl"
  by (auto elim!: io_stepE)

text \<open>
  C7: Every firmware status settles the accounts of the firmware's memory exactly, also when its 32-bit
  counter of released blocks and its 8-bit counters of released packets have wrapped around: the blocks
  and packets counted as in use decrease by what was released since the last status; the number of
  available blocks is the larger of its old value and what the firmware's pool leaves, so it never
  decreases; and the transmit path is marked free again exactly when that number grew.
\<close>

theorem fw_status_settles:
  assumes "wlcore_fw_status env wl = (Inr (), wl')"
  shows "let o2 = st2_at wl; st = fw_status_buf wl' in
     tx_blocks_freed wl' = st_total_released_blks o2 st
     \<and> tx_allocated_blocks wl' + tx_blocks_freed wl' = tx_allocated_blocks wl + tx_blocks_freed wl
     \<and> sint (tx_blocks_available wl')
         = max (sint (tx_blocks_available wl)) (sint (st_tx_total o2 st - tx_allocated_blocks wl'))
     \<and> (WL1271_FLAG_FW_TX_BUSY \<in> wl_flags wl' \<longleftrightarrow>
         WL1271_FLAG_FW_TX_BUSY \<in> wl_flags wl \<and> tx_blocks_available wl' \<le> tx_blocks_available wl)
     \<and> (\<forall>q. q \<in> {0, 1, 2, 3} \<longrightarrow> tx_pkts_freed wl' q = ucast (st_tx_released_pkts o2 st q)
          \<and> tx_allocated_pkts wl' q = tx_allocated_pkts wl q - ((tx_pkts_freed wl' q - tx_pkts_freed wl q) AND 0xff))"
proof -
  obtain wl0 st where i: "io_step wl wl0" and m: "fw_memory wl'
     = fw_memory (update_available (tx_blocks_available wl) (st2_at wl) st (release_blocks (st2_at wl) st
         (fold (release_pkts (st2_at wl) st) [0..<NUM_TX_QUEUES] (wl0\<lparr>fw_status_buf := st\<rparr>))))"
    using fw_status_result [OF assms] by blast
  note k = fw_memory_io [OF i, of WL1271_FLAG_FW_TX_BUSY]
  define wl1 where "wl1 = release_blocks (st2_at wl) st
         (fold (release_pkts (st2_at wl) st) [0..<NUM_TX_QUEUES] (wl0\<lparr>fw_status_buf := st\<rparr>))"
  note m1 = release_blocks_memory [of "st2_at wl" st
      "fold (release_pkts (st2_at wl) st) [0..<NUM_TX_QUEUES] (wl0\<lparr>fw_status_buf := st\<rparr>)",
      folded wl1_def, unfolded release_pkts_all]
  note m2 = m [folded wl1_def, unfolded update_available_memory Let_def]
  show ?thesis
    using m2 m1 k unfolding fw_memory_def by (simp add: Let_def sint_of_max)
qed


text \<open>The counter of released blocks goes from \<open>0xFFFFFFFE\<close> to 3: five of ten blocks come back.\<close>

definition demo_status :: bytes where
  "demo_status = replicate 20 0 @ [3, 0, 0, 0, 20, 0, 0, 0] @ replicate 24 0"

definition demo_status_wl :: wl1271 where
  "demo_status_wl = wl_zeroed\<lparr>tx_blocks_freed := 0xFFFFFFFE, tx_allocated_blocks := 10\<rparr>"

theorem fw_status_settles_witness:
  "\<exists>wl'. wlcore_fw_status (quiet_env\<lparr>e_read := \<lambda>_. Inr demo_status\<rparr>) demo_status_wl = (Inr (), wl')
     \<and> tx_allocated_blocks wl' = 5 \<and> sint (tx_blocks_available wl') = 15"
proof -
  let ?env = "quiet_env\<lparr>e_read := \<lambda>_. Inr demo_status\<rparr>"
  have l: "length demo_status = 52" by (simp add: demo_status_def)
  have o: "st2_at demo_status_wl = 8" "fw_status_priv_len demo_status_wl = 0" "tx_allocated_blocks demo_status_wl = 10"
    "tx_blocks_freed demo_status_wl = 0xFFFFFFFE" "tx_blocks_available demo_status_wl = 0"
    by (simp_all add: st2_at_def demo_status_wl_def zeroed_defs)
  have "wlcore_raw_read_data ?env demo_status_wl REG_RAW_FW_STATUS_ADDR 52 False
      = (Inr demo_status, emit (C_read (rtable demo_status_wl REG_RAW_FW_STATUS_ADDR) 52 False) demo_status_wl)"
    by (simp add: wlcore_raw_read_data_def wlcore_raw_read_def demo_status_wl_def zeroed_defs l)
  then obtain wl' where w: "wlcore_fw_status ?env demo_status_wl = (Inr (), wl')" and b: "fw_status_buf wl' = demo_status"
    using fw_status_reads [of ?env demo_status_wl] by (auto simp: o)
  have st: "st_total_released_blks 8 demo_status = 3" "st_tx_total 8 demo_status = 20"
    by (simp_all add: st_total_released_blks_def st_tx_total_def get_le32_def byte_at_def demo_status_def nth_append)
  note p = fw_status_settles [OF w, unfolded Let_def b o st]
  have f: "tx_blocks_freed wl' = 3" "tx_allocated_blocks wl' + tx_blocks_freed wl' = 10 + 0xFFFFFFFE"
    "sint (tx_blocks_available wl') = max (sint (0 :: u32)) (sint (20 - tx_allocated_blocks wl'))"
    using p by blast+
  have "tx_allocated_blocks wl' = 10 + 0xFFFFFFFE - 3" using f(1,2) by (metis add_diff_cancel_right')
  also have "\<dots> = 5" by simp
  finally have "tx_allocated_blocks wl' = 5" .
  with f(3) w show ?thesis by simp
qed

end
