(* ===== verification/WlChip12.thy ===== *)
theory WlChip12
  imports WlIrq
begin

unbundle bit_operations_syntax

text \<open>
  The operations of the wl127x and wl128x chips (wl12xx/main.c) that the core calls while the device
  runs, as an operation table, and the contracts of the core's theories discharged for them.
\<close>

section \<open>Constants\<close>

abbreviation (input) CHIP_ID_1271_PG10 :: u32 where "CHIP_ID_1271_PG10 \<equiv> 0x4030101"
abbreviation (input) CHIP_ID_1271_PG20 :: u32 where "CHIP_ID_1271_PG20 \<equiv> 0x4030111"
abbreviation (input) CHIP_ID_1283_PG10 :: u32 where "CHIP_ID_1283_PG10 \<equiv> 0x05030101"
abbreviation (input) CHIP_ID_1283_PG20 :: u32 where "CHIP_ID_1283_PG20 \<equiv> 0x05030111"
abbreviation (input) WL1271_SLV_REG_DATA :: nat where "WL1271_SLV_REG_DATA \<equiv> 0x300008"
abbreviation (input) WL12XX_INTR_TRIG_CMD :: u32 where "WL12XX_INTR_TRIG_CMD \<equiv> 1"
abbreviation (input) WL12XX_INTR_TRIG_EVENT_ACK :: u32 where "WL12XX_INTR_TRIG_EVENT_ACK \<equiv> 2"
abbreviation (input) WL12XX_TX_HW_BLOCK_SPARE_DEFAULT :: nat where "WL12XX_TX_HW_BLOCK_SPARE_DEFAULT \<equiv> 1"
abbreviation (input) WL12XX_TX_HW_BLOCK_GEM_SPARE :: nat where "WL12XX_TX_HW_BLOCK_GEM_SPARE \<equiv> 2"
abbreviation (input) WL12XX_TX_HW_BLOCK_SIZE :: nat where "WL12XX_TX_HW_BLOCK_SIZE \<equiv> 252"
abbreviation (input) TX_HW_ATTR_OFST_LAST_WORD_PAD :: nat where "TX_HW_ATTR_OFST_LAST_WORD_PAD \<equiv> 10"
abbreviation (input) RX_BUF_UNALIGNED_PAYLOAD :: nat where "RX_BUF_UNALIGNED_PAYLOAD \<equiv> 20"

section \<open>The operations\<close>

text \<open>
  Only the first memory block of an aggregate is announced to the firmware. The address wraps at 32
  bits.
\<close>

definition wl127x_prepare_read :: "wl_env \<Rightarrow> wl1271 \<Rightarrow> u32 \<Rightarrow> nat \<Rightarrow> unit res \<times> wl1271" where
  "wl127x_prepare_read env wl rx_desc len =
     (if chip_id wl \<noteq> CHIP_ID_1283_PG20 then
        let mem_block = rx_desc AND 0xFF;
            addr = push_bit 8 mem_block + of_nat (mem_map_pool_start wl)
        in wlcore_write env wl WL1271_SLV_REG_DATA (le32 addr @ le32 (addr + 4)) False
      else (Inr (), wl))"

definition wl12xx_trigger_cmd :: "wl_env \<Rightarrow> wl1271 \<Rightarrow> nat \<Rightarrow> bytes \<Rightarrow> unit res \<times> wl1271" where
  "wl12xx_trigger_cmd env wl addr buf =
     and_then (wlcore_write env wl addr buf False) (\<lambda>_ wl1.
       wlcore_write_reg env wl1 REG_INTERRUPT_TRIG WL12XX_INTR_TRIG_CMD)"

definition wl12xx_ack_event :: "wl_env \<Rightarrow> wl1271 \<Rightarrow> unit res \<times> wl1271" where
  "wl12xx_ack_event env wl = wlcore_write_reg env wl REG_INTERRUPT_TRIG WL12XX_INTR_TRIG_EVENT_ACK"

definition wl12xx_calc_tx_blocks :: "wl1271 \<Rightarrow> nat \<Rightarrow> nat \<Rightarrow> nat" where
  "wl12xx_calc_tx_blocks wl len spare_blks =
     (wlcore_calc_packet_alignment wl len + WL12XX_TX_HW_BLOCK_SIZE - 1) div WL12XX_TX_HW_BLOCK_SIZE + spare_blks"

definition wl12xx_set_tx_desc_blocks ::
  "wl1271 \<Rightarrow> wl1271_tx_hw_descr \<Rightarrow> nat \<Rightarrow> nat \<Rightarrow> wl1271_tx_hw_descr" where
  "wl12xx_set_tx_desc_blocks wl d blks spare_blks =
     (if chip_id wl = CHIP_ID_1283_PG20 then d\<lparr>d_mem0 := of_nat blks\<rparr>
      else d\<lparr>d_mem0 := of_nat spare_blks, d_mem1 := of_nat blks\<rparr>)"

definition wl12xx_set_tx_desc_data_len ::
  "wl1271 \<Rightarrow> wl1271_tx_hw_descr \<Rightarrow> sk_buff \<Rightarrow> wl1271_tx_hw_descr" where
  "wl12xx_set_tx_desc_data_len wl d skb =
     (let aligned_len = wlcore_calc_packet_alignment wl (skb_len skb);
          pad = aligned_len - skb_len skb
      in if chip_id wl = CHIP_ID_1283_PG20
         then d\<lparr>d_mem1 := of_nat pad, d_length := of_nat (aligned_len div 4)\<rparr>
         else d\<lparr>d_tx_attr := d_tx_attr d OR push_bit TX_HW_ATTR_OFST_LAST_WORD_PAD (of_nat pad),
                d_length := of_nat (aligned_len div 4)\<rparr>)"

definition wl12xx_get_rx_buf_align :: "wl1271 \<Rightarrow> u32 \<Rightarrow> wl_rx_buf_align" where
  "wl12xx_get_rx_buf_align wl rx_desc =
     (if bit rx_desc RX_BUF_UNALIGNED_PAYLOAD then WLCORE_RX_BUF_UNALIGNED else WLCORE_RX_BUF_ALIGNED)"

definition rx_desc_pad_len :: "bytes \<Rightarrow> nat" where
  "rx_desc_pad_len rx_data = unat (byte_at 14 rx_data)"

definition wl12xx_get_rx_packet_len :: "wl1271 \<Rightarrow> bytes \<Rightarrow> nat \<Rightarrow> nat" where
  "wl12xx_get_rx_packet_len wl rx_data data_len =
     (if data_len < RX_DESC_LEN \<or> data_len < RX_DESC_LEN + rx_desc_pad_len rx_data then 0
      else data_len - RX_DESC_LEN - rx_desc_pad_len rx_data)"

definition wl12xx_tx_delayed_compl :: "wl_env \<Rightarrow> wl1271 \<Rightarrow> unit res \<times> wl1271" where
  "wl12xx_tx_delayed_compl env wl =
     (if ucast (byte_at 7 (fw_status_buf wl)) = tx_results_count wl AND 0xff then (Inr (), wl)
      else wlcore_tx_complete env wl)"

definition wl12xx_sta_get_ap_rate_mask :: "wl1271 \<Rightarrow> vif_ptr \<Rightarrow> u32" where
  "wl12xx_sta_get_ap_rate_mask wl v = rate_set (vifs wl v)"

definition wl12xx_set_tx_desc_csum :: "wl1271 \<Rightarrow> wl1271_tx_hw_descr \<Rightarrow> sk_buff \<Rightarrow> wl1271_tx_hw_descr" where
  "wl12xx_set_tx_desc_csum wl d skb = d\<lparr>d_csum := 0\<rparr>"

definition wl12xx_get_spare_blocks :: "wl1271 \<Rightarrow> bool \<Rightarrow> nat" where
  "wl12xx_get_spare_blocks wl is_gem =
     (if is_gem then WL12XX_TX_HW_BLOCK_GEM_SPARE else WL12XX_TX_HW_BLOCK_SPARE_DEFAULT)"

text \<open>Routing the firmware's log to the host needs a recent station firmware.\<close>

definition wl12xx_identify_fw :: "wl1271 \<Rightarrow> unit res \<times> wl1271" where
  "wl12xx_identify_fw wl =
     (let v = fw_ver (boot wl) in
      let wl1 = (if v ! FW_VER_IF_TYPE = 1 \<and> v ! FW_VER_MINOR < 70
                 then wl\<lparr>wl_quirks := insert WLCORE_QUIRK_FWLOG_NOT_IMPLEMENTED (wl_quirks wl)\<rparr> else wl) in
      let wl2 = (if v ! FW_VER_IF_TYPE = 2
                 then wl1\<lparr>wl_quirks := insert WLCORE_QUIRK_FWLOG_NOT_IMPLEMENTED (wl_quirks wl1)\<rparr> else wl1)
      in (Inr (), wl2))"

definition wl12xx_ops :: wlcore_ops where
  "wl12xx_ops =
     \<lparr>op_trigger_cmd = wl12xx_trigger_cmd, op_ack_event = wl12xx_ack_event,
      op_calc_tx_blocks = wl12xx_calc_tx_blocks, op_set_tx_desc_blocks = wl12xx_set_tx_desc_blocks,
      op_set_tx_desc_data_len = wl12xx_set_tx_desc_data_len,
      op_get_rx_buf_align = wl12xx_get_rx_buf_align, op_prepare_read = None,
      op_get_rx_packet_len = wl12xx_get_rx_packet_len,
      op_tx_delayed_compl = Some wl12xx_tx_delayed_compl, op_tx_immediate_compl = None,
      op_sta_get_ap_rate_mask = wl12xx_sta_get_ap_rate_mask, op_ap_get_mimo_wide_rate_mask = None,
      op_set_tx_desc_csum = wl12xx_set_tx_desc_csum, op_set_rx_csum = None,
      op_get_spare_blocks = wl12xx_get_spare_blocks, op_pre_pkt_send = None,
      op_identify_fw = Some wl12xx_identify_fw, op_handle_static_data = None\<rparr>"

text \<open>\<open>wl12xx_identify_chip\<close> installs the preparation of reads on wl127x only.\<close>

definition wl127x_ops :: wlcore_ops where
  "wl127x_ops = wl12xx_ops\<lparr>op_prepare_read := Some wl127x_prepare_read\<rparr>"

section \<open>The contracts of the core\<close>

lemma wl12xx_trigger_io: "io_step wl (snd (wl12xx_trigger_cmd env wl a b))"
  unfolding wl12xx_trigger_cmd_def by (rule io_step_seq) (simp_all add: io_step_write io_step_write_reg)

lemma wl12xx_trigger_again:
  assumes "wl_state wl \<noteq> WLCORE_STATE_OFF"
  shows "again_final (wl12xx_trigger_cmd env wl a b)"
  unfolding wl12xx_trigger_cmd_def
  by (rule again_final_seq [OF assms])
    (simp_all add: io_step_write again_final_write again_final_write_reg assms)

lemma wl127x_prepare_read_io: "io_step wl (snd (wl127x_prepare_read env wl d n))"
  by (simp add: wl127x_prepare_read_def Let_def io_step_write)

interpretation wl12xx: chip_tx wl12xx_ops
  by unfold_locales
    (simp_all add: wl12xx_ops_def wl12xx_trigger_io wl12xx_trigger_again wl12xx_ack_event_def io_step_write_reg)

interpretation wl127x: chip_tx wl127x_ops
  by unfold_locales
    (auto simp: wl127x_ops_def wl12xx_ops_def wl12xx_trigger_io wl12xx_trigger_again
      wl12xx_ack_event_def io_step_write_reg wl127x_prepare_read_io)

interpretation wl12xx_rx: chip_rx wl12xx_ops
  by unfold_locales (auto simp: wl12xx_ops_def wl12xx_get_rx_packet_len_def intro: diff_le_mono2)

interpretation wl127x_rx: chip_rx wl127x_ops
  by unfold_locales (auto simp: wl127x_ops_def wl12xx_ops_def wl12xx_get_rx_packet_len_def intro: diff_le_mono2)

interpretation wl12xx_irq: chip_irq wl12xx_ops
  by unfold_locales (auto simp: wl12xx_ops_def wl12xx_tx_delayed_compl_def Let_def tx_complete_keeps)

interpretation wl127x_irq: chip_irq wl127x_ops
  by unfold_locales (auto simp: wl127x_ops_def wl12xx_ops_def wl12xx_tx_delayed_compl_def Let_def tx_complete_keeps)

unbundle bit_operations_syntax

section \<open>The size of a frame reaches the firmware\<close>

lemma alignment_facts:
  "len \<le> wlcore_calc_packet_alignment wl len" "4 dvd wlcore_calc_packet_alignment wl len"
  "wlcore_calc_packet_alignment wl len < len + 256"
  "WLCORE_QUIRK_TX_BLOCKSIZE_ALIGN \<notin> wl_quirks wl \<Longrightarrow> wlcore_calc_packet_alignment wl len < len + 4"
proof -
  have "(4::nat) dvd ALIGN len 256" by (rule dvd_trans [of 4 256]) (simp_all add: ALIGN_dvd)
  then show "4 dvd wlcore_calc_packet_alignment wl len" by (simp add: wlcore_calc_packet_alignment_def)
  show "len \<le> wlcore_calc_packet_alignment wl len"
    by (simp add: wlcore_calc_packet_alignment_def ALIGN_ge)
  show "wlcore_calc_packet_alignment wl len < len + 256"
    using ALIGN_less [of 4 len] ALIGN_less [of 256 len] by (simp add: wlcore_calc_packet_alignment_def)
  show "wlcore_calc_packet_alignment wl len < len + 4" if "WLCORE_QUIRK_TX_BLOCKSIZE_ALIGN \<notin> wl_quirks wl"
    using ALIGN_less [of 4 len] that by (simp add: wlcore_calc_packet_alignment_def)
qed

text \<open>
  The length in the descriptor counts words of the aligned frame; the padding is stored beside it, in
  the attributes on wl127x and in the extra bytes on wl128x. \<open>desc_frame_len\<close> is the length the
  firmware reads back from the two.
\<close>

definition desc_frame_len :: "wl1271 \<Rightarrow> wl1271_tx_hw_descr \<Rightarrow> nat" where
  "desc_frame_len wl d =
     4 * unat (d_length d)
     - (if chip_id wl = CHIP_ID_1283_PG20 then unat (d_mem1 d)
        else unat (drop_bit TX_HW_ATTR_OFST_LAST_WORD_PAD (d_tx_attr d) AND 3))"

lemma pad_field:
  fixes attr :: u16
  assumes "\<not> bit attr 10" "\<not> bit attr 11" and "pad < 4"
  shows "unat (drop_bit 10 (attr OR push_bit 10 (of_nat pad)) AND 3) = pad"
proof -
  have three: "bit (3 :: u16) n \<longleftrightarrow> n < 2" for n
    using bit_mask_iff [of 2 n, where 'a = u16] by (auto simp: mask_eq_exp_minus_1)
  have p: "\<not> bit (of_nat pad :: u16) n" if "2 \<le> n" for n
    using bit_of_nat_less [of pad 2 n, where 'a = 16] assms(3) that by simp
  have "bit (drop_bit 10 (attr OR push_bit 10 (of_nat pad)) AND 3) n = bit (of_nat pad :: u16) n" if "n < 16" for n
  proof (cases "n < 2")
    case True
    then have "n = 0 \<or> n = 1" by arith
    then show ?thesis using assms(1,2) three [of n] by (auto simp: bit_and_iff bit_or_iff bit_drop_bit_eq bit_push_bit_iff)
  next
    case False
    then show ?thesis using three [of n] p [of n] by (simp add: bit_and_iff)
  qed
  then have "drop_bit 10 (attr OR push_bit 10 (of_nat pad)) AND 3 = (of_nat pad :: u16)"
    by (intro bit_word_eqI) simp
  then show ?thesis using assms(3) by (simp add: unat_of_nat)
qed

lemma data_len_decodes:
  assumes l: "skb_len s < 0x3FF00"
    and "chip_id wl = CHIP_ID_1283_PG20
         \<or> WLCORE_QUIRK_TX_BLOCKSIZE_ALIGN \<notin> wl_quirks wl \<and> \<not> bit (d_tx_attr d) 10 \<and> \<not> bit (d_tx_attr d) 11"
  shows "desc_frame_len wl (wl12xx_set_tx_desc_data_len wl d s) = skb_len s"
proof -
  define a where "a = wlcore_calc_packet_alignment wl (skb_len s)"
  note f = alignment_facts [where len = "skb_len s" and wl = wl, folded a_def]
  have "a div 4 < 2 ^ LENGTH(16)" using f(3) l by auto
  then have "unat (of_nat (a div 4) :: u16) = a div 4" by (rule unat_of_nat_less)
  then have len: "4 * unat (of_nat (a div 4) :: u16) = a" using f(2) by simp
  show ?thesis
  proof (cases "chip_id wl = CHIP_ID_1283_PG20")
    case True
    have "a - skb_len s < 2 ^ LENGTH(8)" using f(3) by auto
    then have "unat (of_nat (a - skb_len s) :: u8) = a - skb_len s" by (rule unat_of_nat_less)
    then show ?thesis
      using True len f(1) by (simp add: desc_frame_len_def wl12xx_set_tx_desc_data_len_def a_def [symmetric] Let_def)
  next
    case False
    then have q: "WLCORE_QUIRK_TX_BLOCKSIZE_ALIGN \<notin> wl_quirks wl" "\<not> bit (d_tx_attr d) 10" "\<not> bit (d_tx_attr d) 11"
      using assms(2) by blast+
    have "a - skb_len s < 4" using f(4) [OF q(1)] f(1) by linarith
    then show ?thesis
      using False len f(1) pad_field [OF q(2,3), of "a - skb_len s"]
      by (simp add: desc_frame_len_def wl12xx_set_tx_desc_data_len_def a_def [symmetric] Let_def)
  qed
qed

lemma attr_pad_clear:
  assumes "\<And>v. wlvif = Some v \<Longrightarrow> session_counter (vifs wl v) < 8" and "r < 32" and "n = 10 \<or> n = 11"
  shows "\<not> bit (tx_attr_base wl wlvif p OR push_bit 5 (of_nat r)) n"
    and "\<not> bit ((tx_attr_base wl wlvif p OR push_bit 5 (of_nat r)) OR TX_HW_ATTR_HOST_ENCRYPT) n"
proof -
  have r: "\<not> bit (of_nat r :: u16) (n - 5)" using bit_of_nat_less [of r 5 "n - 5", where 'a = 16] assms by auto
  have sc: "\<not> bit (of_nat k :: u16) (n - 2)" if "k < 8" for k
    using bit_of_nat_less [of k 3 "n - 2", where 'a = 16] that assms(3) by auto
  have c: "\<not> bit (0x2000 :: u16) n" "\<not> bit (0x4000 :: u16) n" "\<not> bit (0x1C :: u16) n"
    using assms(3) by (auto simp: bit_numeral_rec)
  show 1: "\<not> bit (tx_attr_base wl wlvif p OR push_bit 5 (of_nat r)) n"
    using r sc c assms by (auto simp: tx_attr_base_def bit_simps split: option.split)
  then show "\<not> bit ((tx_attr_base wl wlvif p OR push_bit 5 (of_nat r)) OR TX_HW_ATTR_HOST_ENCRYPT) n"
    using c(2) by (simp add: bit_or_iff)
qed

text \<open>
  C31: The firmware learns the exact size of a frame. In the descriptor that the core writes for a
  wl12xx chip, the word count and the padding stored beside it give back the length of the frame with
  its headers, although the frame is handed over padded. On wl127x the two padding bits share a word
  with the session counter and the rate policy, which must stay in their fields.
\<close>

theorem wl12xx_frame_len:
  assumes wf: "skb_wf (skbs wl p)" and l: "skb_len (skbs wl p) < 0x3FF00"
    and fc: "fc = frame_control_at (TX_DESC_LEN + extra) (skbs wl p)"
    and h: "TX_DESC_LEN + ieee80211_hdrlen fc \<le> skb_len (skbs wl p)"
    and c: "chip_id wl = CHIP_ID_1283_PG20 \<or> WLCORE_QUIRK_TX_BLOCKSIZE_ALIGN \<notin> wl_quirks wl"
    and sc: "\<And>v. wlvif = Some v \<Longrightarrow> session_counter (vifs wl v) < 8"
    and r: "tx_rate_idx wl wlvif p fc hlid < 32"
  shows "desc_frame_len wl (skb_desc (skbs (wl1271_tx_fill_hdr wl12xx_ops env wl wlvif p extra hlid) p))
    = skb_len (skbs wl p)"
proof -
  define wl1 where "wl1 = emit C_gettime (upd_skb p (tx_relocate extra fc) wl)"
  define s1 where "s1 = skbs wl1 p"
  have s1: "s1 = tx_relocate extra fc (skbs wl p)" by (simp add: s1_def wl1_def wl_upd_defs)
  have len: "skb_len s1 = skb_len (skbs wl p)" by (simp add: s1 tx_relocate_def skb_write_def)
  have wf1: "skb_wf s1"
  proof -
    let ?b = "buf_read (TX_DESC_LEN + extra) (ieee80211_hdrlen fc) (skb_bytes (skbs wl p))"
    have "length ?b \<le> ieee80211_hdrlen fc" by (simp add: buf_read_def)
    then have "skb_wf (skb_write TX_DESC_LEN ?b (skbs wl p))" using h by (intro skb_wf_write [OF wf]) simp
    then show ?thesis using wf by (simp add: s1 tx_relocate_def skb_wf_def)
  qed
  have f1: "vifs wl1 = vifs wl" "chip_id wl1 = chip_id wl" "wl_quirks wl1 = wl_quirks wl"
    by (simp_all add: wl1_def wl_upd_defs)
  have r1: "tx_rate_idx wl1 wlvif p fc hlid = tx_rate_idx wl wlvif p fc hlid"
    by (simp add: tx_rate_idx_def wl1_def wl_upd_defs tx_relocate_def skb_write_def skb_ac_def
        wl12xx_is_dummy_packet_def Let_def cong: option.case_cong if_cong)
  define attr where "attr = tx_attr_base wl1 wlvif p OR push_bit 5 (of_nat (tx_rate_idx wl1 wlvif p fc hlid))"
  define attr' where "attr' = (if ieee80211_is_auth fc \<and> ieee80211_has_protected fc
       then attr OR TX_HW_ATTR_HOST_ENCRYPT else attr)"
  have pad: "\<not> bit attr' 10" "\<not> bit attr' 11"
    using attr_pad_clear [of wlvif wl1 "tx_rate_idx wl1 wlvif p fc hlid" _ p] sc r
    by (simp_all add: attr'_def attr_def f1 r1)
  obtain d where d: "skbs (wl1271_tx_fill_hdr wl12xx_ops env wl wlvif p extra hlid) p
      = skb_set_desc (wl12xx_set_tx_desc_data_len wl1 d s1) s1" "d_tx_attr d = attr'"
    unfolding wl1271_tx_fill_hdr_def Let_def fc [symmetric] wl1_def [symmetric] s1_def [symmetric]
      attr_def [symmetric] attr'_def [symmetric]
    by (simp add: wl12xx_ops_def wl12xx_set_tx_desc_csum_def upd_skb_def s1_def)
  have "desc_frame_len wl1 (wl12xx_set_tx_desc_data_len wl1 d s1) = skb_len s1"
    by (rule data_len_decodes) (use l c pad in \<open>simp_all add: len f1 d(2)\<close>)
  moreover have "desc_frame_len wl1 = desc_frame_len wl" by (simp add: desc_frame_len_def fun_eq_iff f1)
  moreover have "TX_DESC_LEN \<le> skb_len s1" using h len by simp
  ultimately show ?thesis using skb_desc_set_desc(1) [OF wf1] d(1) len by simp
qed

theorem wl12xx_frame_len_witness:
  "let wl = demo_wl\<lparr>skbs := (\<lambda>_. skb_zeroed\<lparr>skb_head := replicate 200 0, skb_len := 101\<rparr>)\<rparr>
   in desc_frame_len wl (skb_desc (skbs (wl1271_tx_fill_hdr wl12xx_ops quiet_env wl (Some 1) 9 0 1) 9)) = 101"
proof -
  let ?wl = "demo_wl\<lparr>skbs := (\<lambda>_. skb_zeroed\<lparr>skb_head := replicate 200 0, skb_len := 101\<rparr>)\<rparr>"
  have fc: "frame_control_at (TX_DESC_LEN + 0) (skbs ?wl 9) = 0"
    by (simp add: frame_control_at_def get_le16_def byte_at_def skb_bytes_def buf_read_def zeroed_defs)
  have "TX_DESC_LEN + ieee80211_hdrlen 0 \<le> 101" "tx_rate_idx ?wl (Some 1) 9 0 1 < 32"
    by (simp_all add: ieee80211_hdrlen_def ieee80211_is_data_def ieee80211_is_ctl_def tx_rate_idx_def zeroed_defs Let_def)
  then show ?thesis
    using wl12xx_frame_len [of ?wl 9 0 0 "Some 1" 1 quiet_env] fc
    by (simp add: Let_def skb_wf_def) (simp add: zeroed_defs)
qed

end
