(* ===== verification/WlChip18.thy ===== *)
theory WlChip18
  imports WlIrq
begin

unbundle bit_operations_syntax

text \<open>
  The operations of the wl18xx chip (wl18xx/main.c, wl18xx/tx.c, wl18xx/acx.c) that the core calls
  while the device runs: its way of sizing and padding frames, the ring of released descriptors in the
  firmware status, and the operation table with the contracts of the core's theories discharged for it.
\<close>

section \<open>Constants\<close>

abbreviation (input) WL18XX_INTR_TRIG_EVENT_ACK :: u32 where "WL18XX_INTR_TRIG_EVENT_ACK \<equiv> 0x20000000"
abbreviation (input) WL18XX_CMD_MAX_SIZE :: nat where "WL18XX_CMD_MAX_SIZE \<equiv> 740"
abbreviation (input) WL18XX_TX_HW_BLOCK_SPARE :: nat where "WL18XX_TX_HW_BLOCK_SPARE \<equiv> 1"
abbreviation (input) WL18XX_TX_HW_EXTRA_BLOCK_SPARE :: nat where "WL18XX_TX_HW_EXTRA_BLOCK_SPARE \<equiv> 2"
abbreviation (input) WL18XX_TX_HW_BLOCK_SIZE :: nat where "WL18XX_TX_HW_BLOCK_SIZE \<equiv> 268"
abbreviation (input) WL18XX_TX_CTRL_NOT_PADDED :: u8 where "WL18XX_TX_CTRL_NOT_PADDED \<equiv> 0x80"
abbreviation (input) WL18XX_FW_MAX_TX_STATUS_DESC :: nat where "WL18XX_FW_MAX_TX_STATUS_DESC \<equiv> 33"
abbreviation (input) WL18XX_TX_STATUS_STAT_BIT_IDX :: nat where "WL18XX_TX_STATUS_STAT_BIT_IDX \<equiv> 7"
abbreviation (input) WL18XX_HOST_IF_LEN_SIZE_FIELD :: u32 where "WL18XX_HOST_IF_LEN_SIZE_FIELD \<equiv> 15"
abbreviation (input) RX_BUF_PADDED_PAYLOAD :: nat where "RX_BUF_PADDED_PAYLOAD \<equiv> 30"
abbreviation (input) WL18XX_RX_CHECKSUM_MASK :: u8 where "WL18XX_RX_CHECKSUM_MASK \<equiv> 0x40"
abbreviation (input) CONF_TX_MIMO_RATES :: u32 where "CONF_TX_MIMO_RATES \<equiv> 0x1FE00000"
abbreviation (input) CONF_TX_RATE_USE_WIDE_CHAN :: u32 where "CONF_TX_RATE_USE_WIDE_CHAN \<equiv> 0x80000000"
abbreviation (input) HOST_IF_CFG_RX_FIFO_ENABLE :: u32 where "HOST_IF_CFG_RX_FIFO_ENABLE \<equiv> 0x01"
abbreviation (input) HOST_IF_CFG_TX_PAD_TO_SDIO_BLK :: u32 where "HOST_IF_CFG_TX_PAD_TO_SDIO_BLK \<equiv> 0x08"
abbreviation (input) HOST_IF_CFG_RX_PAD_TO_SDIO_BLK :: u32 where "HOST_IF_CFG_RX_PAD_TO_SDIO_BLK \<equiv> 0x10"
abbreviation (input) HOST_IF_CFG_ADD_RX_ALIGNMENT :: u32 where "HOST_IF_CFG_ADD_RX_ALIGNMENT \<equiv> 0x40"

section \<open>Commands and frames\<close>

text \<open>Commands are padded with zeroes to the size of the mailbox; a longer one overruns the buffer.\<close>

definition wl18xx_trigger_cmd :: "wl_env \<Rightarrow> wl1271 \<Rightarrow> nat \<Rightarrow> bytes \<Rightarrow> unit res \<times> wl1271" where
  "wl18xx_trigger_cmd env wl addr buf =
     (let wl1 = (if WL18XX_CMD_MAX_SIZE < length buf then emit C_oops wl else wl)
      in wlcore_write env wl1 addr (pad_to WL18XX_CMD_MAX_SIZE buf) False)"

definition wl18xx_ack_event :: "wl_env \<Rightarrow> wl1271 \<Rightarrow> unit res \<times> wl1271" where
  "wl18xx_ack_event env wl = wlcore_write_reg env wl REG_INTERRUPT_TRIG WL18XX_INTR_TRIG_EVENT_ACK"

definition wl18xx_calc_tx_blocks :: "wl1271 \<Rightarrow> nat \<Rightarrow> nat \<Rightarrow> nat" where
  "wl18xx_calc_tx_blocks wl len spare_blks =
     (len + WL18XX_TX_HW_BLOCK_SIZE - 1) div WL18XX_TX_HW_BLOCK_SIZE + spare_blks"

definition wl18xx_set_tx_desc_blocks ::
  "wl1271 \<Rightarrow> wl1271_tx_hw_descr \<Rightarrow> nat \<Rightarrow> nat \<Rightarrow> wl1271_tx_hw_descr" where
  "wl18xx_set_tx_desc_blocks wl d blks spare_blks = d\<lparr>d_mem0 := of_nat blks\<rparr>"

definition wl18xx_set_tx_desc_data_len ::
  "wl1271 \<Rightarrow> wl1271_tx_hw_descr \<Rightarrow> sk_buff \<Rightarrow> wl1271_tx_hw_descr" where
  "wl18xx_set_tx_desc_data_len wl d skb =
     d\<lparr>d_length := of_nat (skb_len skb),
       d_mem1 := (if WLCORE_QUIRK_TX_PAD_LAST_FRAME \<in> wl_quirks wl then WL18XX_TX_CTRL_NOT_PADDED else 0)\<rparr>"

definition wl18xx_get_rx_buf_align :: "wl1271 \<Rightarrow> u32 \<Rightarrow> wl_rx_buf_align" where
  "wl18xx_get_rx_buf_align wl rx_desc =
     (if bit rx_desc RX_BUF_PADDED_PAYLOAD then WLCORE_RX_BUF_PADDED else WLCORE_RX_BUF_ALIGNED)"

definition wl18xx_get_rx_packet_len :: "wl1271 \<Rightarrow> bytes \<Rightarrow> nat \<Rightarrow> nat" where
  "wl18xx_get_rx_packet_len wl rx_data data_len = (if data_len < 16 then 0 else data_len - 16)"

text \<open>
  The checksum request: the offset of the IP header (a 32-bit difference, so a header before the MAC
  header counts as too far) and the lowest bit of the protocol. The kernel warning for an offset of 128
  or more is not recorded.
\<close>

definition wl18xx_set_tx_desc_csum :: "wl1271 \<Rightarrow> wl1271_tx_hw_descr \<Rightarrow> sk_buff \<Rightarrow> wl1271_tx_hw_descr" where
  "wl18xx_set_tx_desc_csum wl d skb =
     (if \<not> checksum_param (priv18 wl) \<or> skb_ip_summed skb \<noteq> CHECKSUM_PARTIAL then d\<lparr>d_csum := 0\<rparr>
      else
        let off = skb_network_header skb - skb_mac_header skb
        in if skb_network_header skb < skb_mac_header skb \<or> 128 \<le> off then d\<lparr>d_csum := 0\<rparr>
           else d\<lparr>d_csum := push_bit 1 (of_nat off)
                           OR (byte_at (skb_network_header skb + 9) (skb_head skb) AND 1)\<rparr>)"

definition wl18xx_set_rx_csum :: "wl1271 \<Rightarrow> bytes \<Rightarrow> sk_buff \<Rightarrow> sk_buff" where
  "wl18xx_set_rx_csum wl desc skb =
     (if byte_at 2 desc AND WL18XX_RX_CHECKSUM_MASK \<noteq> 0 then skb\<lparr>skb_ip_summed := CHECKSUM_UNNECESSARY\<rparr>
      else skb)"

definition wl18xx_is_mimo_supported :: "wl1271 \<Rightarrow> bool" where
  "wl18xx_is_mimo_supported wl \<longleftrightarrow> 2 \<le> number_of_assembled_ant2_4 (priv18 wl)"

definition wl18xx_sta_get_ap_rate_mask :: "wl1271 \<Rightarrow> vif_ptr \<Rightarrow> u32" where
  "wl18xx_sta_get_ap_rate_mask wl v =
     (let vf = vifs wl v; rates = rate_set vf
      in if vif_channel_type vf \<in> {NL80211_CHAN_HT40MINUS, NL80211_CHAN_HT40PLUS}
         then (rates OR CONF_TX_RATE_USE_WIDE_CHAN) AND NOT CONF_TX_MIMO_RATES
         else if wl18xx_is_mimo_supported wl then rates OR CONF_TX_MIMO_RATES
         else rates)"

definition wl18xx_ap_get_mimo_wide_rate_mask :: "wl1271 \<Rightarrow> vif_ptr \<Rightarrow> u32" where
  "wl18xx_ap_get_mimo_wide_rate_mask wl v =
     (let vf = vifs wl v
      in if vif_channel_type vf \<in> {NL80211_CHAN_HT40MINUS, NL80211_CHAN_HT40PLUS}
         then (if vif_band vf \<noteq> IEEE80211_BAND_5GHZ then 0 else CONF_TX_RATE_USE_WIDE_CHAN)
         else if wl18xx_is_mimo_supported wl \<and> vif_band vf = IEEE80211_BAND_2GHZ then CONF_TX_MIMO_RATES
         else 0)"

definition wl18xx_get_spare_blocks :: "wl1271 \<Rightarrow> bool \<Rightarrow> nat" where
  "wl18xx_get_spare_blocks wl is_gem =
     (if extra_spare_vif_count (priv18 wl) \<noteq> 0 then WL18XX_TX_HW_EXTRA_BLOCK_SPARE
      else WL18XX_TX_HW_BLOCK_SPARE)"

text \<open>
  Only the last frame of an aggregate is padded to a bus block, and its descriptor says so. The
  control byte is the fourth byte of that descriptor in the aggregation buffer.
\<close>

definition wl18xx_pre_pkt_send :: "wl1271 \<Rightarrow> nat \<Rightarrow> nat \<Rightarrow> nat \<times> wl1271" where
  "wl18xx_pre_pkt_send wl buf_offset last_len =
     (if WLCORE_QUIRK_TX_PAD_LAST_FRAME \<in> wl_quirks wl then
        let i = buf_offset - last_len + 3
        in (ALIGN buf_offset WL12XX_BUS_BLOCK_SIZE,
            wl\<lparr>aggr_buf := (aggr_buf wl)[i := byte_at i (aggr_buf wl) AND NOT WL18XX_TX_CTRL_NOT_PADDED]\<rparr>)
      else (buf_offset, wl))"

section \<open>Completion\<close>

definition wl18xx_tx_result_info :: "bool \<Rightarrow> ieee80211_tx_info \<Rightarrow> ieee80211_tx_info" where
  "wl18xx_tx_result_info success info =
     info\<lparr>ti_flags := (if success \<and> IEEE80211_TX_CTL_NO_ACK \<notin> ti_flags info
                       then insert IEEE80211_TX_STAT_ACK (ti_flags info) else ti_flags info),
          st_rate_idx := -1, st_rate_count := 0, st_rate_flags := 0, st_ack_signal := -1\<rparr>"

definition wl18xx_apply_result :: "bool \<Rightarrow> skb_ptr \<Rightarrow> wl1271 \<Rightarrow> wl1271" where
  "wl18xx_apply_result success p wl =
     (let wl1 = upd_skb p (\<lambda>s. s\<lparr>skb_info := wl18xx_tx_result_info success (skb_info s)\<rparr>) wl
      in if success then wl1 else wl1\<lparr>stats_retry_count := stats_retry_count wl1 + 1\<rparr>)"

definition wl18xx_tx_complete_packet :: "u8 \<Rightarrow> wl1271 \<Rightarrow> wl1271" where
  "wl18xx_tx_complete_packet stat wl =
     (let i = unat (stat AND 0x7F)
      in if num_tx_desc wl \<le> i then wl
         else case tx_frames wl i of
           None \<Rightarrow> wl
         | Some p \<Rightarrow>
             if wl12xx_is_dummy_packet wl p then wl1271_free_tx_id wl i
             else wl1271_free_tx_id
                    (queue_deferred_tx
                       (remove_tx_headers
                          (wl18xx_apply_result (\<not> bit stat WL18XX_TX_STATUS_STAT_BIT_IDX) p wl) p) p) i)"

text \<open>
  The chip's part of the firmware status, after the 44 bytes of the common second part: the index of
  the next slot the firmware will fill, and the ring of released descriptors.
\<close>

definition fw_status_priv_at :: "wl1271 \<Rightarrow> nat" where
  "fw_status_priv_at wl = 8 + 4 * num_rx_desc wl + 44"

definition fw_release_idx :: "wl1271 \<Rightarrow> nat" where
  "fw_release_idx wl = unat (byte_at (fw_status_priv_at wl) (fw_status_buf wl))"

definition released_tx_desc :: "wl1271 \<Rightarrow> nat \<Rightarrow> u8" where
  "released_tx_desc wl i = byte_at (fw_status_priv_at wl + 1 + i) (fw_status_buf wl)"

definition complete_released :: "nat \<Rightarrow> wl1271 \<Rightarrow> wl1271" where
  "complete_released i wl =
     (let wl1 = wl18xx_tx_complete_packet (released_tx_desc wl i) wl
      in wl1\<lparr>tx_results_count := tx_results_count wl1 + 1\<rparr>)"

definition ring_distance :: "nat \<Rightarrow> nat \<Rightarrow> nat" where
  "ring_distance i j =
     (if WL18XX_FW_MAX_TX_STATUS_DESC \<le> i then WL18XX_FW_MAX_TX_STATUS_DESC
      else if i \<le> j then j - i else j + WL18XX_FW_MAX_TX_STATUS_DESC - i)"

lemma ring_distance_step:
  assumes "i \<noteq> j" and "j < WL18XX_FW_MAX_TX_STATUS_DESC"
  shows "ring_distance ((i + 1) mod WL18XX_FW_MAX_TX_STATUS_DESC) j < ring_distance i j"
proof -
  consider "WL18XX_FW_MAX_TX_STATUS_DESC \<le> i" | "i = 32" | "i < 32" by arith
  then show ?thesis
  proof cases
    case 1
    have "(i + 1) mod WL18XX_FW_MAX_TX_STATUS_DESC < WL18XX_FW_MAX_TX_STATUS_DESC" by simp
    with 1 assms show ?thesis by (auto simp: ring_distance_def)
  qed (use assms in \<open>auto simp: ring_distance_def\<close>)
qed

text \<open>
  The walk around the ring. The caller has checked that the end is a slot of the ring; without that
  the C loop would not end, and here it does nothing.
\<close>

function complete_ring :: "nat \<Rightarrow> nat \<Rightarrow> wl1271 \<Rightarrow> wl1271" where
  "complete_ring i last_idx wl =
     (if i = last_idx \<or> WL18XX_FW_MAX_TX_STATUS_DESC \<le> last_idx then wl
      else complete_ring ((i + 1) mod WL18XX_FW_MAX_TX_STATUS_DESC) last_idx (complete_released i wl))"
  by pat_completeness auto

termination
  by (relation "measure (\<lambda>(i, j, wl). ring_distance i j)") (use ring_distance_step in \<open>simp_all del: Suc_eq_plus1_left\<close>)

declare complete_ring.simps [simp del]

definition wl18xx_tx_immediate_complete :: "wl1271 \<Rightarrow> wl1271" where
  "wl18xx_tx_immediate_complete wl =
     (let last_idx = last_fw_rls_idx (priv18 wl); fw_idx = fw_release_idx wl
      in if last_idx = fw_idx then wl
         else if WL18XX_FW_MAX_TX_STATUS_DESC \<le> fw_idx then emit C_warn wl
         else let wl1 = complete_ring last_idx fw_idx wl
              in wl1\<lparr>priv18 := (priv18 wl1)\<lparr>last_fw_rls_idx := fw_idx\<rparr>\<rparr>)"

definition wl18xx_tx_immediate_completion :: "wl_env \<Rightarrow> wl1271 \<Rightarrow> wl1271" where
  "wl18xx_tx_immediate_completion env wl = wl18xx_tx_immediate_complete wl"

text \<open>
  The version of the PHY firmware follows the 64 bytes of the core's static data. It is copied up
  to its terminator, for at most the 32 bytes of the destination: without a terminator the copy
  runs past the 20 bytes that were read from the chip.
\<close>

definition wl18xx_handle_static_data :: "wl1271 \<Rightarrow> bytes \<Rightarrow> unit res \<times> wl1271" where
  "wl18xx_handle_static_data wl static_data =
     (let src = drop 64 static_data;
          wl1 = (if length src < 32 \<and> 0 \<notin> set src then emit C_oops wl else wl)
      in (Inr (), wl1\<lparr>boot := (boot wl1)\<lparr>phy_fw_ver_str := (strncpy src 32)[31 := 0]\<rparr>\<rparr>))"

section \<open>The operation table\<close>

definition wl18xx_ops :: wlcore_ops where
  "wl18xx_ops =
     \<lparr>op_trigger_cmd = wl18xx_trigger_cmd, op_ack_event = wl18xx_ack_event,
      op_calc_tx_blocks = wl18xx_calc_tx_blocks, op_set_tx_desc_blocks = wl18xx_set_tx_desc_blocks,
      op_set_tx_desc_data_len = wl18xx_set_tx_desc_data_len,
      op_get_rx_buf_align = wl18xx_get_rx_buf_align, op_prepare_read = None,
      op_get_rx_packet_len = wl18xx_get_rx_packet_len,
      op_tx_delayed_compl = None, op_tx_immediate_compl = Some wl18xx_tx_immediate_completion,
      op_sta_get_ap_rate_mask = wl18xx_sta_get_ap_rate_mask,
      op_ap_get_mimo_wide_rate_mask = Some wl18xx_ap_get_mimo_wide_rate_mask,
      op_set_tx_desc_csum = wl18xx_set_tx_desc_csum, op_set_rx_csum = Some wl18xx_set_rx_csum,
      op_get_spare_blocks = wl18xx_get_spare_blocks, op_pre_pkt_send = Some wl18xx_pre_pkt_send,
      op_identify_fw = None, op_handle_static_data = Some wl18xx_handle_static_data\<rparr>"

section \<open>Configuration through commands\<close>

definition wl18xx_acx_host_if_cfg_bitmap ::
  "wlcore_ops \<Rightarrow> wl_env \<Rightarrow> wl1271 \<Rightarrow> u32 \<Rightarrow> u32 \<Rightarrow> u32 \<Rightarrow> u32 \<Rightarrow> unit res \<times> wl1271" where
  "wl18xx_acx_host_if_cfg_bitmap ops env wl bitmap sdio_blk_size extra_mem_blks len_field_size =
     and_then (kzalloc env 24 wl) (\<lambda>_ wl1.
       wl1271_cmd_configure ops env wl1 0x0039
         (le32 bitmap @ le32 sdio_blk_size @ le32 extra_mem_blks @ le32 len_field_size))"

definition wl18xx_acx_set_checksum_state :: "wlcore_ops \<Rightarrow> wl_env \<Rightarrow> wl1271 \<Rightarrow> unit res \<times> wl1271" where
  "wl18xx_acx_set_checksum_state ops env wl =
     and_then (kzalloc env 12 wl) (\<lambda>_ wl1. wl1271_cmd_configure ops env wl1 0x0045 [1, 0, 0, 0])"

definition wl18xx_set_host_cfg_bitmap ::
  "wlcore_ops \<Rightarrow> wl_env \<Rightarrow> wl1271 \<Rightarrow> nat \<Rightarrow> unit res \<times> wl1271" where
  "wl18xx_set_host_cfg_bitmap ops env wl extra_mem_blk =
     (let tx = (WLCORE_QUIRK_TX_BLOCKSIZE_ALIGN \<in> wl_quirks wl);
          rx = (WLCORE_QUIRK_RX_BLOCKSIZE_ALIGN \<in> wl_quirks wl);
          bitmap = HOST_IF_CFG_RX_FIFO_ENABLE OR HOST_IF_CFG_ADD_RX_ALIGNMENT
                   OR (if tx then HOST_IF_CFG_TX_PAD_TO_SDIO_BLK else 0)
                   OR (if rx then HOST_IF_CFG_RX_PAD_TO_SDIO_BLK else 0)
      in wl18xx_acx_host_if_cfg_bitmap ops env wl bitmap
           (if tx \<or> rx then of_nat WL12XX_BUS_BLOCK_SIZE else 0) (of_nat extra_mem_blk)
           WL18XX_HOST_IF_LEN_SIZE_FIELD)"

definition wl18xx_hw_init :: "wl_env \<Rightarrow> wl1271 \<Rightarrow> unit res \<times> wl1271" where
  "wl18xx_hw_init env wl =
     (let wl1 = wl\<lparr>priv18 := (priv18 wl)\<lparr>last_fw_rls_idx := 0, extra_spare_vif_count := 0\<rparr>\<rparr>
      in and_then (wl18xx_set_host_cfg_bitmap wl18xx_ops env wl1 WL18XX_TX_HW_BLOCK_SPARE) (\<lambda>_ wl2.
           if checksum_param (priv18 wl2) then wl18xx_acx_set_checksum_state wl18xx_ops env wl2
           else (Inr (), wl2)))"

section \<open>The contracts of the core\<close>

lemma wl18xx_trigger_io: "io_step wl (snd (wl18xx_trigger_cmd env wl a b))"
  unfolding wl18xx_trigger_cmd_def Let_def by (simp add: io_step_write io_step_trans [OF io_step_emit io_step_write])

lemma wl18xx_trigger_again:
  "wl_state wl \<noteq> WLCORE_STATE_OFF \<Longrightarrow> again_final (wl18xx_trigger_cmd env wl a b)"
  unfolding wl18xx_trigger_cmd_def Let_def by (rule again_final_write) (simp add: emit_def)

lemma wl18xx_pre_send:
  "\<exists>b l. snd (wl18xx_pre_pkt_send wl off len) = wl\<lparr>aggr_buf := b, log := log wl @ l\<rparr> \<and> list_all quiet_call l"
proof -
  obtain b where "snd (wl18xx_pre_pkt_send wl off len) = wl\<lparr>aggr_buf := b, log := log wl @ []\<rparr>"
  proof (cases "WLCORE_QUIRK_TX_PAD_LAST_FRAME \<in> wl_quirks wl")
    case True
    show thesis by (rule that) (simp add: wl18xx_pre_pkt_send_def Let_def True)
  next
    case False
    show thesis by (rule that [of "aggr_buf wl"]) (simp add: wl18xx_pre_pkt_send_def False)
  qed
  then show ?thesis by (intro exI [of _ b] exI [of _ "[]"]) simp
qed

interpretation wl18xx: chip_tx wl18xx_ops
  by unfold_locales
    (auto simp: wl18xx_ops_def wl18xx_trigger_io wl18xx_trigger_again wl18xx_ack_event_def io_step_write_reg
      wl18xx_pre_send)

interpretation wl18xx_rx: chip_rx wl18xx_ops
  by unfold_locales (auto simp: wl18xx_ops_def wl18xx_set_rx_csum_def wl18xx_get_rx_packet_len_def)

unbundle bit_operations_syntax

section \<open>Every released descriptor is completed once\<close>

text \<open>The slots between two positions, in the order of the walk.\<close>

definition ring_slots :: "nat \<Rightarrow> nat \<Rightarrow> nat list" where
  "ring_slots i j = (if i \<le> j then [i..<j] else [i..<WL18XX_FW_MAX_TX_STATUS_DESC] @ [0..<j])"

lemma length_ring_slots:
  "i < WL18XX_FW_MAX_TX_STATUS_DESC \<Longrightarrow> length (ring_slots i j) = ring_distance i j"
  by (simp add: ring_slots_def ring_distance_def add.commute)

lemma ring_slots_Cons:
  assumes "i < WL18XX_FW_MAX_TX_STATUS_DESC" and "i \<noteq> j" and "j < WL18XX_FW_MAX_TX_STATUS_DESC"
  shows "ring_slots i j = i # ring_slots ((i + 1) mod WL18XX_FW_MAX_TX_STATUS_DESC) j"
proof -
  consider "i = 32" "j < i" | "i < 32" "i < j" | "i < 32" "j < i" using assms by linarith
  then show ?thesis
  proof cases
    case 1
    then show ?thesis by (simp add: ring_slots_def)
  next
    case 2
    then show ?thesis by (simp add: ring_slots_def upt_conv_Cons)
  next
    case 3
    then show ?thesis by (simp add: ring_slots_def upt_conv_Cons [of i 33])
  qed
qed

lemma complete_ring_fold:
  assumes "i < WL18XX_FW_MAX_TX_STATUS_DESC" and "j < WL18XX_FW_MAX_TX_STATUS_DESC"
  shows "complete_ring i j wl = fold complete_released (ring_slots i j) wl"
  using assms
proof (induction i j wl rule: complete_ring.induct)
  case (1 i j wl)
  show ?case
  proof (cases "i = j")
    case True
    then show ?thesis by (subst complete_ring.simps) (simp add: ring_slots_def)
  next
    case False
    then show ?thesis using 1 ring_slots_Cons [of i j] by (subst complete_ring.simps) simp
  qed
qed

lemma complete_ring_none: "WL18XX_FW_MAX_TX_STATUS_DESC \<le> j \<Longrightarrow> complete_ring i j wl = wl"
  by (subst complete_ring.simps) simp

lemma quiet_step_apply_result18: "quiet_step wl (wl18xx_apply_result b p wl)"
proof -
  have q: "quiet_step wl (upd_skb p (\<lambda>s. s\<lparr>skb_info := wl18xx_tx_result_info b (skb_info s)\<rparr>) wl)"
    by (rule quiet_step_skb) simp
  from this quiet_step_trans [OF q quiet_step_stats(1)] show ?thesis
    by (cases b) (simp_all add: wl18xx_apply_result_def Let_def)
qed

lemma complete_packet18_progress:
  assumes ok: "tx_ok wl"
  shows "tx_progress wl (wl18xx_tx_complete_packet r wl)"
proof -
  have q: "quiet_step wl (remove_tx_headers (wl18xx_apply_result b p wl) p)" for b p
    by (rule quiet_step_trans [OF quiet_step_apply_result18 quiet_step_remove_headers])
  show ?thesis
    using free_id_progress [OF ok] quiet_deferred_free_progress [OF ok _ _ _ q]
    by (simp add: wl18xx_tx_complete_packet_def Let_def wl12xx_is_dummy_packet_def tx_progress_refl ok
        not_le split: option.split)
qed

lemma complete_released_progress: "tx_ok wl \<Longrightarrow> tx_progress wl (complete_released i wl)"
proof -
  assume ok: "tx_ok wl"
  let ?w = "wl18xx_tx_complete_packet (released_tx_desc wl i) wl"
  have p: "tx_progress wl ?w" by (rule complete_packet18_progress [OF ok])
  then have "tx_ok ?w" by (simp add: tx_progress_def)
  then show ?thesis
    unfolding complete_released_def Let_def
    by (rule tx_progress_trans [OF p quiet_tx_progress [OF quiet_step_stats(3)]])
qed

lemma quiet_step_priv18: "quiet_step wl (wl\<lparr>priv18 := x\<rparr>)"
  by (rule quiet_stepI [where l = "[]"]) simp_all

lemma immediate_complete_progress:
  assumes ok: "tx_ok wl"
  shows "tx_progress wl (wl18xx_tx_immediate_complete wl)"
proof -
  have p: "tx_progress wl (complete_ring i j wl)" for i j
    using ok
  proof (induction i j wl rule: complete_ring.induct)
    case (1 i j wl)
    note c = complete_released_progress [OF 1(2), of i]
    then have "tx_ok (complete_released i wl)" by (simp add: tx_progress_def)
    with c 1 show ?case
      by (subst complete_ring.simps) (auto simp: tx_progress_refl intro: tx_progress_trans)
  qed
  have "tx_progress wl (w\<lparr>priv18 := x\<rparr>)" if "tx_progress wl w" for w x
    using tx_progress_trans [OF that quiet_tx_progress [OF quiet_step_priv18]] that by (simp add: tx_progress_def)
  with p show ?thesis
    by (simp add: wl18xx_tx_immediate_complete_def Let_def tx_progress_refl ok quiet_tx_progress quiet_step_emit)
qed

section \<open>Completion keeps the invariant of transmission\<close>

lemma apply_result18_trim: "tx_trim wl (wl18xx_apply_result b p wl)"
  using quiet_step_apply_result18 [of wl b p]
  by (simp add: tx_trim_def dummy_same_def quiet_step_def wl18xx_apply_result_def Let_def upd_skb_def wl18xx_tx_result_info_def)

lemma complete_packet18_trim: "tx_trim wl (wl18xx_tx_complete_packet r wl)"
  using hand_back_trim [OF apply_result18_trim] free_id_trim
  by (simp add: wl18xx_tx_complete_packet_def Let_def wl12xx_is_dummy_packet_def tx_trim_same split: option.split)

lemma complete_released_keeps: "tx_keeps wl (complete_released i wl)"
proof -
  let ?w = "wl18xx_tx_complete_packet (released_tx_desc wl i) wl"
  have 1: "tx_keeps wl ?w" by (rule tx_keeps_trim [OF complete_packet18_progress complete_packet18_trim])
  have 2: "tx_keeps ?w (?w\<lparr>tx_results_count := n\<rparr>)" for n by (rule tx_keeps_quiet [OF quiet_step_stats(3)]) simp
  show ?thesis unfolding complete_released_def Let_def by (rule tx_keeps_trans [OF 1 2])
qed

lemma immediate_complete_keeps: "tx_keeps wl (wl18xx_tx_immediate_complete wl)"
proof -
  have r: "tx_keeps wl (complete_ring i j wl)" for i j
  proof (induction i j wl rule: complete_ring.induct)
    case (1 i j wl)
    then show ?case using tx_keeps_trans [OF complete_released_keeps [of wl i]] by (subst complete_ring.simps) auto
  qed
  have q: "tx_keeps w (w\<lparr>priv18 := x\<rparr>)" for w x
    by (rule tx_keeps_quiet; (rule quiet_step_priv18)?; simp)
  show ?thesis using tx_keeps_trans [OF r q] by (simp add: wl18xx_tx_immediate_complete_def Let_def tx_keeps_emit)
qed

interpretation wl18xx_irq: chip_irq wl18xx_ops
  by unfold_locales (auto simp: wl18xx_ops_def wl18xx_tx_immediate_completion_def immediate_complete_keeps)

text \<open>What a completed slot changes, for the walk over the others.\<close>

lemma apply_result18_frame:
  "tx_frames (wl18xx_apply_result b p wl) = tx_frames wl" "tx_frames_map (wl18xx_apply_result b p wl) = tx_frames_map wl"
  "fw_status_buf (wl18xx_apply_result b p wl) = fw_status_buf wl" "num_rx_desc (wl18xx_apply_result b p wl) = num_rx_desc wl"
  "tx_results_count (wl18xx_apply_result b p wl) = tx_results_count wl" "priv18 (wl18xx_apply_result b p wl) = priv18 wl"
  "num_tx_desc (wl18xx_apply_result b p wl) = num_tx_desc wl"
  by (simp_all add: wl18xx_apply_result_def Let_def upd_skb_def)

lemma hand_back_frame:
  fixes p :: skb_ptr
  defines "w wl \<equiv> queue_deferred_tx (remove_tx_headers wl p) p"
  shows "tx_frames (w wl) = tx_frames wl" "tx_frames_map (w wl) = tx_frames_map wl"
    "fw_status_buf (w wl) = fw_status_buf wl" "num_rx_desc (w wl) = num_rx_desc wl"
    "tx_results_count (w wl) = tx_results_count wl" "priv18 (w wl) = priv18 wl" "num_tx_desc (w wl) = num_tx_desc wl"
  by (simp_all add: w_def queue_deferred_tx_def remove_tx_headers_def Let_def upd_skb_def emit_def)

lemma free_tx_id_status:
  "fw_status_buf (wl1271_free_tx_id wl i) = fw_status_buf wl" "num_rx_desc (wl1271_free_tx_id wl i) = num_rx_desc wl"
  "tx_results_count (wl1271_free_tx_id wl i) = tx_results_count wl" "priv18 (wl1271_free_tx_id wl i) = priv18 wl"
  by (simp_all add: wl1271_free_tx_id_def Let_def clear_flag_def)

definition released_id :: "wl1271 \<Rightarrow> nat \<Rightarrow> nat" where
  "released_id wl k = unat (released_tx_desc wl k AND 0x7F)"

lemma complete_released_frame:
  assumes "ids_ok wl" and w: "w = complete_released k wl"
  shows "fw_status_buf w = fw_status_buf wl" "num_rx_desc w = num_rx_desc wl" "num_tx_desc w = num_tx_desc wl"
    "tx_results_count w = tx_results_count wl + 1" "priv18 w = priv18 wl"
    "tx_frames w = (\<lambda>i. if i < num_tx_desc wl \<and> i = released_id wl k then None else tx_frames wl i)"
proof -
  have m: "i < num_tx_desc wl \<Longrightarrow> i \<in> tx_frames_map wl \<longleftrightarrow> tx_frames wl i \<noteq> None" for i
    using assms(1) by (simp add: ids_ok_def)
  show "fw_status_buf w = fw_status_buf wl" "num_rx_desc w = num_rx_desc wl" "num_tx_desc w = num_tx_desc wl"
    "tx_results_count w = tx_results_count wl + 1" "priv18 w = priv18 wl"
    unfolding w complete_released_def wl18xx_tx_complete_packet_def Let_def
    by (simp_all add: hand_back_frame apply_result18_frame free_tx_id_status split: option.split)
  show "tx_frames w = (\<lambda>i. if i < num_tx_desc wl \<and> i = released_id wl k then None else tx_frames wl i)"
    unfolding w complete_released_def wl18xx_tx_complete_packet_def Let_def released_id_def [symmetric]
    using m by (auto simp: hand_back_frame apply_result18_frame fun_eq_iff split: option.split)
qed

lemma fold_complete_released:
  assumes "tx_ok wl" and "w = fold complete_released ks wl"
  shows "tx_progress wl w \<and> fw_status_buf w = fw_status_buf wl \<and> num_rx_desc w = num_rx_desc wl
    \<and> num_tx_desc w = num_tx_desc wl \<and> tx_results_count w = tx_results_count wl + of_nat (length ks)
    \<and> priv18 w = priv18 wl
    \<and> tx_frames w = (\<lambda>i. if i < num_tx_desc wl \<and> i \<in> released_id wl ` set ks then None else tx_frames wl i)"
  using assms
proof (induction ks arbitrary: wl)
  case Nil
  then show ?case by (simp add: tx_progress_refl)
next
  case (Cons k ks)
  define v where "v = complete_released k wl"
  have p: "tx_progress wl v" unfolding v_def by (rule complete_released_progress [OF Cons.prems(1)])
  then have ok: "tx_ok v" by (simp add: tx_progress_def)
  have "ids_ok wl" using Cons.prems(1) by (simp add: tx_ok_def)
  note f = complete_released_frame [OF this v_def]
  have id: "released_id v = released_id wl"
    using f by (simp add: released_id_def released_tx_desc_def fw_status_priv_at_def fun_eq_iff)
  have w: "w = fold complete_released ks v" using Cons.prems(2) by (simp add: v_def)
  note ih = Cons.IH [OF ok w]
  with p have "tx_progress wl w" using tx_progress_trans by blast
  with ih f id show ?case by (auto simp: fun_eq_iff)
qed



end
