(* ===== verification/WlDriver.thy ===== *)
theory WlDriver
  imports WlChip12 WlChip18
begin

text \<open>
  The driver as a whole: the handlers that run concurrently in the kernel, one at a time because each
  holds the mutex or the spin lock of the device, as events of a transition system over the three
  chips, and what holds of every run.
\<close>

section \<open>The chips\<close>

abbreviation wl_chips :: "wlcore_ops set" where "wl_chips \<equiv> {wl12xx_ops, wl127x_ops, wl18xx_ops}"

lemma chip_irq_all: "ops \<in> wl_chips \<Longrightarrow> chip_irq ops"
  using wl12xx_irq.chip_irq_axioms wl127x_irq.chip_irq_axioms wl18xx_irq.chip_irq_axioms by auto

lemma chip_tx_all: "ops \<in> wl_chips \<Longrightarrow> chip_tx ops"
  using wl12xx.chip_tx_axioms wl127x.chip_tx_axioms wl18xx.chip_tx_axioms by auto

lemma chip_bus_all: "ops \<in> wl_chips \<Longrightarrow> chip_bus ops"
  using wl12xx.chip_bus_axioms wl127x.chip_bus_axioms wl18xx.chip_bus_axioms by auto

section \<open>Events\<close>

text \<open>
  The entry points of the running driver: packets handed over by mac80211, the works, the interrupt and
  its thread, and the stopping and waking of the queues. A packet arrives with its contents.
\<close>

datatype driver_event =
  Op_tx skb_ptr sk_buff | Tx_work wl_env | Irq wl_env | Hardirq | Netstack_work | Tx_watchdog_work
| Elp_work wl_env | Rx_streaming_enable wl_env vif_ptr | Rx_streaming_disable wl_env vif_ptr
| Rx_streaming_timer vif_ptr | Stop_queues wlcore_queue_stop_reason | Wake_queues wlcore_queue_stop_reason

fun driver_do :: "wlcore_ops \<Rightarrow> driver_event \<Rightarrow> wl1271 \<Rightarrow> wl1271 option" where
  "driver_do ops (Op_tx p s) wl = Some (wl1271_op_tx (upd_skb p (\<lambda>_. s) wl) p)"
| "driver_do ops (Tx_work env) wl = wl1271_tx_work ops env wl"
| "driver_do ops (Irq env) wl = wlcore_irq ops env wl"
| "driver_do ops Hardirq wl = Some (snd (wl12xx_hardirq wl))"
| "driver_do ops Netstack_work wl = Some (wl1271_netstack_work wl)"
| "driver_do ops Tx_watchdog_work wl = Some (wl12xx_tx_watchdog_work wl)"
| "driver_do ops (Elp_work env) wl = Some (wl1271_elp_work env wl)"
| "driver_do ops (Rx_streaming_enable env v) wl = Some (wl1271_rx_streaming_enable_work ops env wl v)"
| "driver_do ops (Rx_streaming_disable env v) wl = Some (wl1271_rx_streaming_disable_work ops env wl v)"
| "driver_do ops (Rx_streaming_timer v) wl = Some (wl1271_rx_streaming_timer wl v)"
| "driver_do ops (Stop_queues r) wl = Some (wlcore_stop_queues wl r)"
| "driver_do ops (Wake_queues r) wl = Some (wlcore_wake_queues wl r)"

text \<open>
  What the kernel guarantees: a packet handed over is not one the driver still holds and fits the
  aggregation buffer, and memory the allocator returns is not in use by the transmit path.
\<close>

fun event_ok :: "driver_event \<Rightarrow> wl1271 \<Rightarrow> bool" where
  "event_ok (Op_tx p s) wl \<longleftrightarrow> p \<notin># owned wl \<and> p \<noteq> dummy_packet wl
     \<and> skb_len s + TX_DESC_LEN + WL1271_EXTRA_SPACE_TKIP \<le> aggr_buf_size wl"
| "event_ok (Irq env) wl \<longleftrightarrow> fresh_skbs env wl"
| "event_ok _ wl \<longleftrightarrow> True"

fun given_by :: "driver_event \<Rightarrow> skb_ptr multiset" where
  "given_by (Op_tx p s) = {#p#}"
| "given_by _ = {#}"

inductive driver_run :: "wlcore_ops \<Rightarrow> wl1271 \<Rightarrow> driver_event list \<Rightarrow> wl1271 \<Rightarrow> bool" for ops wl where
  run_start: "driver_run ops wl [] wl"
| run_step: "driver_run ops wl es wl1 \<Longrightarrow> event_ok e wl1 \<Longrightarrow> driver_do ops e wl1 = Some wl2 \<Longrightarrow>
     driver_run ops wl (es @ [e]) wl2"

section \<open>A packet is handed over\<close>

lemma store_packet:
  assumes inv: "tx_inv wl" and p: "p \<notin># owned wl" "p \<noteq> dummy_packet wl"
  shows "tx_inv (upd_skb p (\<lambda>_. s) wl)" and "owned (upd_skb p (\<lambda>_. s) wl) = owned wl"
    and "accounted (upd_skb p (\<lambda>_. s) wl) = accounted wl"
proof -
  let ?w = "upd_skb p (\<lambda>_. s) wl"
  have q: "queued ?w = queued wl" and f: "in_flight ?w = in_flight wl"
    by (simp_all add: queued_def in_flight_def upd_skb_def)
  then show o: "owned ?w = owned wl" by (simp add: owned_def upd_skb_def)
  then show "accounted ?w = accounted wl" by (simp add: accounted_def returned_def upd_skb_def)
  have nq: "p \<notin># queued wl" using p by (auto simp: owned_def)
  have np: "p \<notin> set (tx_queue (links wl h) q)" if "h < WL12XX_MAX_LINKS" "q < NUM_TX_QUEUES" for h q
    using nq that by (auto simp: queued_def set_mset_sum)
  have "queue_ok ?w \<longleftrightarrow> queue_ok wl"
    using np p unfolding queue_ok_def well_placed_def counts_ok_def dummy_count_def queue_total_def skb_ac_def upd_skb_def
    by (auto simp del: less_numeral_extra) (metis+)
  moreover have "links_ok ?w = links_ok wl" "ids_ok ?w = ids_ok wl" by (simp_all add: links_ok_def ids_ok_def upd_skb_def)
  moreover have "stop_view_ok ?w = stop_view_ok wl" by (rule stop_view_ok_cong) (simp_all add: upd_skb_def)
  moreover have "frames_fit ?w = frames_fit wl"
    using nq p unfolding frames_fit_def q o fits_def by (auto simp: upd_skb_def)
  moreover have "dummy_ok ?w = dummy_ok wl" using p by (simp add: dummy_ok_def fits_def upd_skb_def)
  ultimately show "tx_inv ?w" using inv by (simp add: tx_inv_def tx_ok_def q) (simp add: upd_skb_def)
qed

lemma op_tx_frame:
  "skbs (wl1271_op_tx wl p) = skbs wl" "dummy_packet (wl1271_op_tx wl p) = dummy_packet wl"
  "wl_flags (wl1271_op_tx wl p) = wl_flags wl" "aggr_buf_size (wl1271_op_tx wl p) = aggr_buf_size wl"
  "tx_frames (wl1271_op_tx wl p) = tx_frames wl" "tx_frames_map (wl1271_op_tx wl p) = tx_frames_map wl"
  "tx_frames_cnt (wl1271_op_tx wl p) = tx_frames_cnt wl" "num_tx_desc (wl1271_op_tx wl p) = num_tx_desc wl"
  "deferred_tx_queue (wl1271_op_tx wl p) = deferred_tx_queue wl" "vifs (wl1271_op_tx wl p) = vifs wl"
  "system_hlid (wl1271_op_tx wl p) = system_hlid wl"
  by (simp_all add: wl1271_op_tx_def Let_def emit_def upd_link_def wlcore_stop_queue_locked_def)

lemma op_tx_returned:
  "returned (wl1271_op_tx wl p) = (if wl1271_op_tx_drop wl p then add_mset p (returned wl) else returned wl)"
proof -
  have "returned (wlcore_stop_queue_locked w q r) = returned w" for w q r by (rule stop_step_returned [OF stop_step_stop])
  moreover have "returned (w\<lparr>links := l, tx_queue_count := c\<rparr>) = returned w" for w l c by (rule returned_log) simp
  ultimately show ?thesis by (simp add: wl1271_op_tx_def Let_def upd_link_def)
qed

text \<open>The driver holds a packet mac80211 gives it, or has handed it back at once.\<close>

lemma op_tx_takes:
  assumes inv: "tx_inv wl" and p: "p \<notin># owned wl" "p \<noteq> dummy_packet wl" "fits wl p"
  shows "tx_inv (wl1271_op_tx wl p)" and "accounted (wl1271_op_tx wl p) = add_mset p (accounted wl)"
    and "owned (wl1271_op_tx wl p) = (if wl1271_op_tx_drop wl p then owned wl else add_mset p (owned wl))"
proof -
  let ?w = "wl1271_op_tx wl p"
  have ok: "queue_ok wl" "links_ok wl" "ids_ok wl" "dummy_packet wl \<notin># queued wl" "frames_fit wl" "dummy_ok wl" "stop_view_ok wl"
    using inv by (simp_all add: tx_inv_def tx_ok_def)
  note q = op_tx_queue [OF ok(1,2), of p]
  have fl: "in_flight ?w = in_flight wl" by (simp add: in_flight_def op_tx_frame)
  show o: "owned ?w = (if wl1271_op_tx_drop wl p then owned wl else add_mset p (owned wl))"
    using p(2) by (simp add: owned_def fl q(2) op_tx_frame)
  show "accounted ?w = add_mset p (accounted wl)" by (simp add: accounted_def o op_tx_returned)
  have "count (owned ?w) x \<le> 1" for x using ok(5) p(1) by (auto simp: o frames_fit_def count_eq_zero_iff)
  then have "frames_fit ?w" using ok(5) p(3) by (auto simp: frames_fit_def fits_def q(2) op_tx_frame)
  moreover have "dummy_ok ?w" using ok(6) by (simp add: dummy_ok_def fits_def op_tx_frame)
  moreover have "links_ok ?w" "ids_ok ?w" using ok(2,3) by (simp_all add: links_ok_def ids_ok_def op_tx_frame)
  ultimately show "tx_inv ?w"
    using ok p(2) q stop_view_ok_op_tx [OF ok(7)] by (simp add: tx_inv_def tx_ok_def op_tx_frame)
qed

section \<open>The other handlers\<close>

lemma tx_keeps_stop:
  assumes s: "stop_step wl wl'" and v: "stop_view_ok wl \<longrightarrow> stop_view_ok wl'"
  shows "tx_keeps wl wl'"
  unfolding tx_keeps_def
proof (intro impI)
  assume inv: "tx_inv wl"
  then have p: "tx_progress wl wl'" using stop_step_progress [OF s v] by (simp add: tx_inv_def)
  have "skbs wl' = skbs wl" using s by (auto simp: stop_step_def)
  moreover have "frames_fit wl'" "dummy_ok wl'"
    using inv frames_fit_stop [OF s] dummy_ok_same [OF dummy_same_stop [OF s]] by (simp_all add: tx_inv_def)
  ultimately show "tx_inv wl' \<and> accounted wl' = accounted wl \<and> owned wl' \<subseteq># owned wl \<and> dummy_packet wl' = dummy_packet wl
     \<and> outside_same wl wl' \<and> (wl_state wl' = WLCORE_STATE_OFF \<longleftrightarrow> wl_state wl = WLCORE_STATE_OFF)"
    using p inv by (simp add: tx_progress_def tx_inv_def outside_same_def)
qed

lemma elp_sleep_keeps: "tx_keeps wl (wl1271_ps_elp_sleep wl)"
  by (rule tx_keeps_quiet [OF quiet_step_elp_sleep]) (simp add: wl1271_ps_elp_sleep_def Let_def set_flag_def emit_def)

lemma elp_wakeup_keeps: "tx_keeps wl (snd (wl1271_ps_elp_wakeup env wl))"
  by (rule tx_keeps_quiet [OF quiet_step_elp_wakeup])

lemma elp_work_keeps: "tx_keeps wl (wl1271_elp_work env wl)"
proof -
  have w: "tx_keeps wl (snd (wlcore_raw_write32 env wl HW_ACCESS_ELP_CTRL_REG ELPCTRL_SLEEP))"
    by (rule tx_keeps_io [OF io_step_raw_write32])
  have "tx_keeps wl (wl12xx_queue_recovery_work w')" "tx_keeps wl (set_flag WL1271_FLAG_IN_ELP w')"
    if "wlcore_raw_write32 env wl HW_ACCESS_ELP_CTRL_REG ELPCTRL_SLEEP = (r, w')" for r w'
    using tx_keeps_trans [OF w tx_keeps_cmd [OF cmd_step_recovery]] tx_keeps_trans [OF w tx_keeps_flag(1)] that by simp_all
  then show ?thesis by (auto simp: wl1271_elp_work_def split: prod.split sum.split)
qed

lemma watchdog_keeps: "tx_keeps wl (wl12xx_tx_watchdog_work wl)"
  using tx_keeps_cmd [OF cmd_step_recovery] tx_keeps_quiet [OF quiet_step_rearm skbs_rearm] by (simp add: wl12xx_tx_watchdog_work_def)

lemma streaming_disable_keeps:
  assumes "ops \<in> wl_chips"
  shows "tx_keeps wl (wl1271_rx_streaming_disable_work ops env wl v)"
proof -
  have e: "tx_keeps wl w1" if "wl1271_ps_elp_wakeup env wl = (r, w1)" for r w1
    using elp_wakeup_keeps [of wl env] that by simp
  have "tx_keeps w (wl1271_ps_elp_sleep (snd (wl1271_set_rx_streaming ops env w v b)))" for w b
    by (rule tx_keeps_trans [OF chip_bus.set_rx_streaming_keeps [OF chip_bus_all [OF assms]] elp_sleep_keeps])
  then show ?thesis
    using tx_keeps_trans [OF e] by (auto simp: wl1271_rx_streaming_disable_work_def e split: prod.split sum.split)
qed

lemma streaming_enable_keeps:
  assumes "ops \<in> wl_chips"
  shows "tx_keeps wl (wl1271_rx_streaming_enable_work ops env wl v)"
proof -
  have e: "tx_keeps wl w1" if "wl1271_ps_elp_wakeup env wl = (r, w1)" for r w1
    using elp_wakeup_keeps [of wl env] that by simp
  have s: "tx_keeps w w1" if "wl1271_set_rx_streaming ops env w v b = (r, w1)" for w b r w1
    using chip_bus.set_rx_streaming_keeps [OF chip_bus_all [OF assms], of w env v b] that by simp
  have "tx_keeps wl (wl1271_ps_elp_sleep w2)"
    "tx_keeps wl (wl1271_ps_elp_sleep (emit (C_mod_timer v n) w2))"
    if "wl1271_ps_elp_wakeup env wl = (r, w1)" "wl1271_set_rx_streaming ops env w1 v b = (r', w2)" for r w1 b r' w2 n
    using tx_keeps_trans [OF tx_keeps_trans [OF e [OF that(1)] s [OF that(2)]] elp_sleep_keeps]
      tx_keeps_trans [OF tx_keeps_trans [OF tx_keeps_trans [OF e [OF that(1)] s [OF that(2)]] tx_keeps_emit] elp_sleep_keeps]
    by simp_all
  then show ?thesis
    by (auto simp: wl1271_rx_streaming_enable_work_def e split: prod.split sum.split)
qed

lemma tx_work_keeps:
  assumes ops: "ops \<in> wl_chips" and inv: "tx_inv wl"
  obtains wl' where "wl1271_tx_work ops env wl = Some wl'" and "tx_keeps wl wl'"
proof -
  obtain r w1 where w: "wl1271_ps_elp_wakeup env wl = (r, w1)" by (cases "wl1271_ps_elp_wakeup env wl")
  have k1: "tx_keeps wl w1" using elp_wakeup_keeps [of wl env] w by simp
  then have "tx_inv w1" using inv by (simp add: tx_keeps_def)
  then obtain s w2 where t: "wlcore_tx_work_locked ops env w1 = Some (s, w2)" and k2: "tx_keeps w1 w2"
    by (rule chip_tx.tx_work_locked_keeps [OF chip_tx_all [OF ops]])
  note k = tx_keeps_trans [OF k1 k2]
  have "tx_keeps wl (wl12xx_queue_recovery_work w2)" "tx_keeps wl (wl1271_ps_elp_sleep w2)"
    using tx_keeps_trans [OF k tx_keeps_cmd [OF cmd_step_recovery]] tx_keeps_trans [OF k elp_sleep_keeps] by simp_all
  then show thesis using that k1 w t by (cases r; cases s) (simp_all add: wl1271_tx_work_def)
qed

section \<open>Every run keeps the invariant and loses no packet\<close>

lemma driver_do_other:
  assumes ops: "ops \<in> wl_chips" and inv: "tx_inv wl" and ok: "event_ok e wl" and e: "given_by e = {#}"
  obtains wl' where "driver_do ops e wl = Some wl'" and "tx_keeps wl wl'"
proof (cases e)
  case (Irq env)
  then show thesis using chip_irq.irq_keeps [OF chip_irq_all [OF ops] inv, of env] that ok by (auto simp: Irq)
next
  case (Tx_work env)
  then show thesis using tx_work_keeps [OF ops inv, of env] that by (auto simp: Tx_work)
next
  case (Stop_queues r)
  have "tx_keeps wl (wlcore_stop_queues wl r)"
    by (rule tx_keeps_stop) (simp_all add: stop_step_queues stop_view_ok_stop_queues)
  then show thesis using that by (simp add: Stop_queues)
next
  case (Wake_queues r)
  have "tx_keeps wl (wlcore_wake_queues wl r)"
    by (rule tx_keeps_stop) (simp_all add: stop_step_queues stop_view_ok_wake_queues)
  then show thesis using that by (simp add: Wake_queues)
qed (use that e ops netstack_keeps watchdog_keeps elp_work_keeps streaming_enable_keeps streaming_disable_keeps
    tx_keeps_quiet [OF quiet_step_hardirq] in \<open>simp_all add: wl1271_rx_streaming_timer_def tx_keeps_emit\<close>)

lemma driver_do_step:
  assumes ops: "ops \<in> wl_chips" and inv: "tx_inv wl" and ok: "event_ok e wl"
  obtains wl' where "driver_do ops e wl = Some wl'" and "tx_inv wl'" and "accounted wl' = accounted wl + given_by e"
    and "owned wl' \<subseteq># owned wl + given_by e"
proof (cases "given_by e = {#}")
  case True
  then show thesis using driver_do_other [OF ops inv ok] that inv by (auto simp: tx_keeps_def)
next
  case False
  then obtain p s where e: "e = Op_tx p s" by (cases e) auto
  let ?w = "upd_skb p (\<lambda>_. s) wl"
  note st = store_packet [OF inv, of p s]
  have p: "p \<notin># owned ?w" "p \<noteq> dummy_packet ?w" "fits ?w p" "tx_inv ?w"
    using ok st by (simp_all add: e fits_def) (simp_all add: upd_skb_def)
  from op_tx_takes [OF p(4,1,2,3)] show thesis using that ok st by (simp add: e)
qed

lemma driver_run_inv:
  assumes "driver_run ops wl es wl'" and "ops \<in> wl_chips" and "tx_inv wl"
  shows "tx_inv wl' \<and> accounted wl' = accounted wl + (\<Sum>e\<leftarrow>es. given_by e)"
  using assms(1)
proof induction
  case run_start
  then show ?case using assms by simp
next
  case (run_step es wl1 e wl2)
  from driver_do_step [OF assms(2) _ run_step(2)] run_step(3,4) obtain
    "tx_inv wl2" "accounted wl2 = accounted wl1 + given_by e" by (metis option.inject)
  then show ?case using run_step(4) by (simp add: union_assoc)
qed

section \<open>The packet ledger\<close>

text \<open>
  The contract of the driver towards mac80211, with nothing of queues, descriptors, aggregation or power
  saving: a ledger of the packets held and of the packets given back. A packet not held may be taken,
  and packets held may be given back.
\<close>

record packet_ledger =
  held :: "skb_ptr multiset"
  given_back :: "skb_ptr multiset"

inductive ledger_step :: "packet_ledger \<Rightarrow> packet_ledger \<Rightarrow> bool" where
  ledger_take: "p \<notin># held l \<Longrightarrow> ledger_step l (l\<lparr>held := add_mset p (held l)\<rparr>)"
| ledger_give_back: "M \<subseteq># held l \<Longrightarrow> ledger_step l (l\<lparr>held := held l - M, given_back := given_back l + M\<rparr>)"

definition ledger_of :: "wl1271 \<Rightarrow> packet_ledger" where
  "ledger_of wl = \<lparr>held = owned wl, given_back = returned wl\<rparr>"

lemma ledger_settles:
  assumes a: "accounted wl' = accounted wl + G" and o: "owned wl' \<subseteq># owned wl + G"
  shows "ledger_step \<lparr>held = owned wl + G, given_back = returned wl\<rparr> (ledger_of wl')"
proof -
  define M where "M = owned wl + G - owned wl'"
  have h: "owned wl + G = owned wl' + M" using o by (simp add: M_def)
  have "owned wl' + returned wl' = (owned wl + G) + returned wl" using a by (simp add: accounted_def ac_simps)
  also have "\<dots> = owned wl' + (returned wl + M)" by (subst h) (simp add: ac_simps)
  finally have "returned wl' = returned wl + M" by simp
  moreover have "owned wl' = owned wl + G - M" using h by simp
  moreover have "M \<subseteq># owned wl + G" by (simp add: h)
  ultimately show ?thesis
    using ledger_give_back [of M "\<lparr>held = owned wl + G, given_back = returned wl\<rparr>"] by (simp add: ledger_of_def)
qed

lemma driver_do_ledger:
  assumes "ops \<in> wl_chips" and "tx_inv wl" and "event_ok e wl" and d: "driver_do ops e wl = Some wl'"
  shows "ledger_step\<^sup>*\<^sup>* (ledger_of wl) (ledger_of wl')"
proof -
  have a: "accounted wl' = accounted wl + given_by e" and o: "owned wl' \<subseteq># owned wl + given_by e"
    using driver_do_step [OF assms(1-3)] d by (metis option.inject)+
  have "ledger_step\<^sup>*\<^sup>* (ledger_of wl) \<lparr>held = owned wl + given_by e, given_back = returned wl\<rparr>"
  proof (cases "given_by e = {#}")
    case True
    then show ?thesis by (simp add: ledger_of_def)
  next
    case False
    then obtain p s where e: "e = Op_tx p s" by (cases e) auto
    then have "p \<notin># held (ledger_of wl)" using assms(3) by (simp add: ledger_of_def)
    from ledger_take [OF this] show ?thesis by (simp add: e ledger_of_def r_into_rtranclp)
  qed
  with ledger_settles [OF a o] show ?thesis by (rule rtranclp.rtrancl_into_rtrancl [rotated])
qed

lemma driver_run_ledger:
  assumes "driver_run ops wl es wl'" and "ops \<in> wl_chips" and "tx_inv wl"
  shows "ledger_step\<^sup>*\<^sup>* (ledger_of wl) (ledger_of wl')"
  using assms(1)
proof induction
  case (run_step es wl1 e wl2)
  have "tx_inv wl1" using driver_run_inv [OF run_step(1) assms(2,3)] by blast
  from driver_do_ledger [OF assms(2) this run_step(2,3)] run_step(4) show ?case by simp
qed simp

section \<open>Properties\<close>

text \<open>The device of the examples satisfies the invariant.\<close>

lemma demo_tx_inv: "tx_inv demo_wl" "accounted demo_wl = {#}" "owned demo_wl = {#}" "dummy_packet demo_wl = 0"
proof -
  have q: "queued demo_wl = {#}" "in_flight demo_wl = {#}"
    by (simp_all add: queued_def in_flight_def zeroed_defs)
  show d: "dummy_packet demo_wl = 0" by (simp add: zeroed_defs)
  show o: "owned demo_wl = {#}" by (simp add: owned_def q) (simp add: zeroed_defs)
  then show "accounted demo_wl = {#}" by (simp add: accounted_def returned_def zeroed_defs)
  have "tx_ok demo_wl" using queue_ok_demo by (simp add: tx_ok_def q) (simp add: links_ok_def ids_ok_def zeroed_defs)
  moreover have "frames_fit demo_wl" by (simp add: frames_fit_def q o) (simp add: zeroed_defs)
  moreover have "dummy_ok demo_wl" by (simp add: dummy_ok_def fits_def zeroed_defs)
  moreover have "stop_view_ok demo_wl" by (simp add: stop_view_ok_def mac_stopped_def wlcore_is_queue_stopped_def zeroed_defs)
  ultimately show "tx_inv demo_wl" by (simp add: tx_inv_def)
qed

abbreviation demo_events :: "driver_event list" where
  "demo_events \<equiv> [Op_tx 9 skb_zeroed, Stop_queues WLCORE_QUEUE_STOP_REASON_FLUSH, Netstack_work]"

lemma demo_run: "\<exists>wl'. driver_run ops demo_wl demo_events wl'"
proof -
  define w1 where "w1 = wl1271_op_tx (upd_skb 9 (\<lambda>_. skb_zeroed) demo_wl) 9"
  define w2 where "w2 = wlcore_stop_queues w1 WLCORE_QUEUE_STOP_REASON_FLUSH"
  have "event_ok (Op_tx 9 skb_zeroed) demo_wl" by (simp add: demo_tx_inv) (simp add: zeroed_defs)
  then have "driver_run ops demo_wl ([] @ [Op_tx 9 skb_zeroed]) w1"
    by (rule run_step [OF run_start]) (simp add: w1_def)
  then have "driver_run ops demo_wl (([] @ [Op_tx 9 skb_zeroed]) @ [Stop_queues WLCORE_QUEUE_STOP_REASON_FLUSH]) w2"
    by (rule run_step) (simp_all add: w2_def)
  then have "driver_run ops demo_wl ((([] @ [Op_tx 9 skb_zeroed]) @ [Stop_queues WLCORE_QUEUE_STOP_REASON_FLUSH])
      @ [Netstack_work]) (wl1271_netstack_work w2)"
    by (rule run_step) simp_all
  then show ?thesis by auto
qed

text \<open>
  C1: Whatever the order in which packets arrive, works run, interrupts are served and queues are
  stopped and woken, on each of the chips, every packet mac80211 handed over is held by the driver or
  has been given back, once for each time it was handed over; the driver holds no packet twice, its
  counters and descriptors are exact, and mac80211's view of the queues is the driver's.
\<close>

theorem driver_conserves:
  assumes "ops \<in> wl_chips" and "tx_inv wl" and "driver_run ops wl es wl'"
  shows "tx_ok wl' \<and> stop_view_ok wl' \<and> (\<forall>p. count (owned wl') p \<le> 1)
     \<and> owned wl' + returned wl' = owned wl + returned wl + (\<Sum>e\<leftarrow>es. given_by e)"
  using driver_run_inv [OF assms(3,1,2)] by (simp add: accounted_def tx_inv_def frames_fit_def)

theorem driver_conserves_witness:
  "\<exists>wl'. driver_run wl18xx_ops demo_wl demo_events wl' \<and> owned wl' + returned wl' = {#9#} \<and> tx_ok wl'"
proof -
  obtain wl' where r: "driver_run wl18xx_ops demo_wl demo_events wl'" using demo_run by blast
  have "wl18xx_ops \<in> wl_chips" by simp
  from driver_conserves [OF this demo_tx_inv(1) r] demo_tx_inv(2) have "owned wl' + returned wl' = {#9#} \<and> tx_ok wl'"
    by (simp add: accounted_def)
  with r show ?thesis by blast
qed

text \<open>
  C2: The driver never hangs: after any run, every handler returns. The loops of the transmit work, of
  reception and of the interrupt thread end, whatever the bus, the firmware and the allocator answer.
\<close>

theorem driver_never_hangs:
  assumes "ops \<in> wl_chips" and "tx_inv wl" and "driver_run ops wl es wl'" and "event_ok e wl'"
  shows "\<exists>wl''. driver_run ops wl (es @ [e]) wl''"
proof -
  have "tx_inv wl'" using driver_run_inv [OF assms(3,1,2)] by blast
  from driver_do_step [OF assms(1) this assms(4)] obtain wl'' where "driver_do ops e wl' = Some wl''" by blast
  from run_step [OF assms(3,4) this] show ?thesis by blast
qed

theorem driver_never_hangs_witness:
  "\<exists>wl''. driver_run wl127x_ops demo_wl (demo_events @ [Tx_work quiet_env]) wl''"
proof -
  obtain wl' where r: "driver_run wl127x_ops demo_wl demo_events wl'" using demo_run by blast
  have "wl127x_ops \<in> wl_chips" by simp
  from driver_never_hangs [OF this demo_tx_inv(1) r, of "Tx_work quiet_env"] show ?thesis by simp
qed



section \<open>Reception on every chip\<close>

lemma chip_rx_all: "ops \<in> wl_chips \<Longrightarrow> chip_rx ops"
  using wl12xx_rx.chip_rx_axioms wl127x_rx.chip_rx_axioms wl18xx_rx.chip_rx_axioms by auto

abbreviation rx_pending :: "wl1271 \<Rightarrow> bytes \<Rightarrow> nat" where
  "rx_pending wl st \<equiv> rx_dist (num_rx_desc wl) (unat (rx_counter wl) mod num_rx_desc wl) (st_fw_rx_counter st mod num_rx_desc wl)"

text \<open>
  C10: Reception ends on every chip, whatever sizes the firmware announces and whatever the bus and the
  allocator answer; it writes inside the aggregation buffer and inside the page of the firmware log, and
  when it succeeds and the announced sizes are positive and fit the aggregation buffer, the driver's
  position in the descriptor ring is the firmware's: nothing announced is left behind.
\<close>

theorem rx_consumes_announced:
  assumes "ops \<in> wl_chips" and "0 < num_rx_desc wl" and "num_rx_desc wl dvd 2 ^ 32"
    and "aggr_buf_size wl \<le> length (aggr_buf wl)" and "fwlog_ok wl"
  shows "\<exists>r wl'. wlcore_rx ops env wl st = Some (r, wl')
     \<and> length (aggr_buf wl') = length (aggr_buf wl) \<and> fwlog_ok wl'
     \<and> (r = Inr () \<and> rx_sizes_ok wl st (unat (rx_counter wl) mod num_rx_desc wl) (rx_pending wl st)
        \<longrightarrow> unat (rx_counter wl') mod num_rx_desc wl = st_fw_rx_counter st mod num_rx_desc wl)"
  using chip_rx.wlcore_rx_ends [OF chip_rx_all [OF assms(1)] assms(2,3), of env st] assms(4,5)
  by (auto simp: rx_step_def rx_buffers_def)

text \<open>The device with a ring of eight descriptors, and a status that announces two packets of 32 bytes.\<close>

definition demo_rx_wl :: wl1271 where
  "demo_rx_wl = demo_wl\<lparr>num_rx_desc := 8, fwlog := replicate 4096 0\<rparr>"

definition demo_rx_status :: bytes where
  "demo_rx_status = [0, 0, 0, 0, 2, 0, 0, 0, 0, 8, 0, 0, 0, 8, 0, 0]"

lemma demo_rx_facts:
  "num_rx_desc demo_rx_wl = 8" "rx_counter demo_rx_wl = 0" "st_fw_rx_counter demo_rx_status = 2"
  "rx_aligned_size demo_rx_wl demo_rx_status 0 = 32" "rx_aligned_size demo_rx_wl demo_rx_status (Suc 0) = 32"
  "aggr_buf_size demo_rx_wl = 16384" "length (aggr_buf demo_rx_wl) = 16384"
  by (simp_all add: demo_rx_wl_def demo_rx_status_def zeroed_defs st_fw_rx_counter_def rx_aligned_size_def wlcore_rx_get_align_buf_size_def
      wlcore_rx_get_buf_size_def st_rx_pkt_desc_def get_le32_def byte_at_def)

theorem rx_consumes_announced_witness:
  "\<exists>r wl'. wlcore_rx wl18xx_ops quiet_env demo_rx_wl demo_rx_status = Some (r, wl')
     \<and> (r = Inr () \<longrightarrow> unat (rx_counter wl') mod 8 = 2)"
proof -
  have f: "fwlog_ok demo_rx_wl" by (simp add: fwlog_ok_def demo_rx_wl_def zeroed_defs)
  have "rx_sizes_ok demo_rx_wl demo_rx_status 0 2"
    by (simp add: rx_sizes_ok_iff demo_rx_facts less_Suc_eq numeral_2_eq_2)
  then show ?thesis
    using rx_consumes_announced [of wl18xx_ops demo_rx_wl quiet_env demo_rx_status] f
    by (auto simp: demo_rx_facts rx_dist_def)
qed

text \<open>
  C8: Reading in batches is the same as reading packet by packet: a transfer covers as many of the
  announced packets, from the first pending one on, as fit the aggregation buffer, and at least one; and
  the loop that splits the data by offsets handles exactly these packets, in order, each at the end of
  the previous one.
\<close>

theorem rx_batch_is_packetwise:
  assumes ops: "ops \<in> wl_chips" and c: "c < num_rx_desc wl" "d < num_rx_desc wl" "c \<noteq> d"
    and ok: "rx_sizes_ok wl st c (rx_dist (num_rx_desc wl) c d)"
  shows "\<exists>k b. 0 < k \<and> k \<le> rx_dist (num_rx_desc wl) c d
     \<and> b = sum_list (map (rx_aligned_size wl st) (rx_slots (num_rx_desc wl) c k)) \<and> b \<le> aggr_buf_size wl
     \<and> (k < rx_dist (num_rx_desc wl) c d \<longrightarrow> aggr_buf_size wl < b + rx_aligned_size wl st ((c + k) mod num_rx_desc wl))
     \<and> rx_batch wl st d c 0 = Some b
     \<and> rx_split ops env st b c 0 h wl
         = Some ((c + k) mod num_rx_desc wl, rx_each ops env st (rx_slots (num_rx_desc wl) c k) 0 h wl)"
proof -
  let ?n = "num_rx_desc wl" and ?D = "rx_dist (num_rx_desc wl) c d"
  from rx_batch_slots [OF c(1,2), of 0 st] obtain k where k: "k \<le> ?D"
    "rx_batch wl st d c 0 = Some (sum_list (map (rx_aligned_size wl st) (rx_slots ?n c k)))"
    "sum_list (map (rx_aligned_size wl st) (rx_slots ?n c k)) \<le> aggr_buf_size wl"
    "k < ?D \<longrightarrow> aggr_buf_size wl < sum_list (map (rx_aligned_size wl st) (rx_slots ?n c k)) + rx_aligned_size wl st ((c + k) mod ?n)"
    by auto
  have D: "0 < ?D" using rx_dist_0 [OF c(1,2)] c(3) by simp
  have pos: "0 < rx_aligned_size wl st ((c + i) mod ?n)" "rx_aligned_size wl st ((c + i) mod ?n) \<le> aggr_buf_size wl"
    if "i < ?D" for i using ok that by (simp_all add: rx_sizes_ok_iff)
  have k0: "0 < k" using k(4) D pos(2) [OF D] by (cases k) auto
  from chip_rx.rx_split_slots [OF chip_rx_all [OF ops] c(1), of _ 0 st k env h] obtain j where j: "j \<le> k"
    "rx_split ops env st (sum_list (map (rx_aligned_size wl st) (rx_slots ?n c k))) c 0 h wl
       = Some ((c + j) mod ?n, rx_each ops env st (rx_slots ?n c j) 0 h wl)"
    "j < k \<longrightarrow> rx_aligned_size wl st ((c + j) mod ?n) = 0" by auto
  have "j = k" using j(1,3) pos(1) [of j] k(1) by force
  with j k k0 show ?thesis by blast
qed

theorem rx_batch_is_packetwise_witness:
  "rx_batch demo_rx_wl demo_rx_status 2 0 0 = Some 64
   \<and> rx_split wl12xx_ops quiet_env demo_rx_status 64 0 0 {} demo_rx_wl
       = Some (2, rx_each wl12xx_ops quiet_env demo_rx_status [0, 1] 0 {} demo_rx_wl)"
proof -
  have s: "rx_slots 8 0 (Suc 0) = [0]" "rx_slots 8 0 2 = [0, 1]" by (simp_all add: rx_slots_def upt_rec)
  have c: "0 < num_rx_desc demo_rx_wl" "2 < num_rx_desc demo_rx_wl" by (simp_all add: demo_rx_facts)
  have d: "rx_dist 8 0 2 = 2" by (simp add: rx_dist_def)
  have o: "rx_sizes_ok demo_rx_wl demo_rx_status 0 (rx_dist (num_rx_desc demo_rx_wl) 0 2)"
    unfolding demo_rx_facts(1) d by (simp add: rx_sizes_ok_iff demo_rx_facts less_Suc_eq numeral_2_eq_2)
  have w: "wl12xx_ops \<in> wl_chips" by simp
  note th = rx_batch_is_packetwise [OF w c zero_neq_numeral o, of quiet_env "{}", unfolded d demo_rx_facts(1,6) add_0]
  then obtain k b where k: "0 < k \<and> k \<le> 2
    \<and> b = sum_list (map (rx_aligned_size demo_rx_wl demo_rx_status) (rx_slots 8 0 k)) \<and> b \<le> 16384
    \<and> (k < 2 \<longrightarrow> 16384 < b + rx_aligned_size demo_rx_wl demo_rx_status (k mod 8))
    \<and> rx_batch demo_rx_wl demo_rx_status 2 0 0 = Some b
    \<and> rx_split wl12xx_ops quiet_env demo_rx_status b 0 0 {} demo_rx_wl
       = Some (k mod 8, rx_each wl12xx_ops quiet_env demo_rx_status (rx_slots 8 0 k) 0 {} demo_rx_wl)"
    by (elim exE) (rule that)
  have "k \<noteq> 1" using k by (auto simp: s demo_rx_facts)
  then have k2: "k = 2" using k by linarith
  have b: "b = 64" using k unfolding k2 s by (simp add: demo_rx_facts)
  from k show ?thesis unfolding k2 b s by simp
qed

lemma rx_fill_bytes:
  assumes s: "skb_data s = 0" "skb_head s = replicate (n + r) 0" and d: "RX_DESC_LEN + n \<le> length data"
  shows "skb_bytes (rx_fill_skb data n r al s)
     = (if al = WLCORE_RX_BUF_PADDED \<and> RX_BUF_ALIGN \<le> n then drop RX_BUF_ALIGN else id) (buf_read RX_DESC_LEN n data)"
proof -
  define b where "b = buf_read RX_DESC_LEN n data"
  have l: "length b = n" using d by (simp add: b_def)
  show ?thesis
    unfolding rx_fill_skb_def Let_def b_def [symmetric]
    by (auto simp: skb_write_def skb_pull_def skb_bytes_def buf_read_def buf_write_def s l)
qed

lemma rx_handle_success:
  assumes ops: "ops \<in> wl_chips" and h: "wl1271_rx_handle_data ops env wl data len al = (Inr x, wl')"
    and n: "n = op_get_rx_packet_len ops wl data len" "RX_DESC_LEN + n \<le> length data"
    and c: "rxd_packet_class (rx_desc_of data) \<noteq> WL12XX_RX_CLASS_LOGGER"
  shows "\<exists>p \<in> range (e_skb env). deferred_rx_queue wl' = deferred_rx_queue wl @ [p]
     \<and> skb_bytes (skbs wl' p) = (if al = WLCORE_RX_BUF_PADDED \<and> RX_BUF_ALIGN \<le> n then drop RX_BUF_ALIGN else id)
          (buf_read RX_DESC_LEN n data)"
proof -
  define r where "r = (if al = WLCORE_RX_BUF_UNALIGNED then RX_BUF_ALIGN else 0)"
  define p where "p = e_skb env (log wl @ [C_alloc (n + r)])"
  define s0 where "s0 = skb_zeroed\<lparr>skb_head := replicate (n + r) 0\<rparr>"
  define y where "y = (\<lambda>w s. skb_ip_summed (wlcore_hw_set_rx_csum ops w data s))"
  have y: "wlcore_hw_set_rx_csum ops w data s = s\<lparr>skb_ip_summed := y w s\<rparr>" for w s
    unfolding y_def by (rule chip_rx.set_rx_csum_shape [OF chip_rx_all [OF ops]])
  have "deferred_rx_queue wl' = deferred_rx_queue wl @ [p]
      \<and> skb_bytes (skbs wl' p) = skb_bytes (rx_fill_skb data n r al s0)"
    using h c
    by (auto simp: wl1271_rx_handle_data_def dev_alloc_skb_def Let_def emit_def upd_skb_def wl1271_rx_status_def
        y p_def s0_def n(1) [symmetric] r_def [symmetric] skb_bytes_def split: if_splits)
  moreover have "skb_bytes (rx_fill_skb data n r al s0)
      = (if al = WLCORE_RX_BUF_PADDED \<and> RX_BUF_ALIGN \<le> n then drop RX_BUF_ALIGN else id) (buf_read RX_DESC_LEN n data)"
    by (rule rx_fill_bytes) (simp_all add: s0_def skb_zeroed_def n(2))
  ultimately show ?thesis by (auto simp: p_def)
qed

lemma rx_handle_failure:
  assumes "wl1271_rx_handle_data ops env wl data len al = (Inl e, wl')"
  shows "deferred_rx_queue wl' = deferred_rx_queue wl \<and> skbs wl' = skbs wl"
  using assms
  by (auto simp: wl1271_rx_handle_data_def dev_alloc_skb_def Let_def emit_def split: if_splits)

text \<open>
  C9: A received packet reaches mac80211 with its exact bytes: when the descriptor's packet is accepted,
  the driver queues one new buffer whose contents are the bytes behind the receive descriptor, as many as
  the chip's length rule says, without the two bytes of padding of an aligned payload. When it is not
  accepted, because of its length, its status or a lack of memory, nothing is queued and no packet in
  memory changes.
\<close>

theorem rx_delivers_payload:
  assumes "ops \<in> wl_chips" and "n = op_get_rx_packet_len ops wl data len" and "RX_DESC_LEN + n \<le> length data"
    and "rxd_packet_class (rx_desc_of data) \<noteq> WL12XX_RX_CLASS_LOGGER"
    and "wl1271_rx_handle_data ops env wl data len al = (r, wl')"
  shows "if isl r then deferred_rx_queue wl' = deferred_rx_queue wl \<and> skbs wl' = skbs wl
    else (\<exists>p \<in> range (e_skb env). deferred_rx_queue wl' = deferred_rx_queue wl @ [p]
     \<and> skb_bytes (skbs wl' p) = (if al = WLCORE_RX_BUF_PADDED \<and> RX_BUF_ALIGN \<le> n then drop RX_BUF_ALIGN else id)
          (buf_read RX_DESC_LEN n data))"
  using rx_handle_success [OF assms(1) _ assms(2,3,4)] rx_handle_failure assms(5) by (cases r) auto

text \<open>A data frame of four bytes behind two bytes of padding, as wl18xx receives it.\<close>

theorem rx_delivers_payload_witness:
  "let d = replicate 16 0 @ [0, 0, 8, 1, 2, 3]; (r, wl') = wl1271_rx_handle_data wl18xx_ops quiet_env demo_wl d 22 WLCORE_RX_BUF_PADDED
   in \<not> isl r \<and> (\<exists>p. deferred_rx_queue wl' = [p] \<and> skb_bytes (skbs wl' p) = [8, 1, 2, 3])"
proof -
  let ?d = "replicate 16 0 @ [0, 0, 8, 1, 2, 3] :: bytes"
  obtain r wl' where h: "wl1271_rx_handle_data wl18xx_ops quiet_env demo_wl ?d 22 WLCORE_RX_BUF_PADDED = (r, wl')"
    by (rule prod.exhaust)
  have f: "plt demo_wl = False" "log demo_wl = []" "deferred_rx_queue demo_wl = []" by (simp_all add: zeroed_defs)
  have d: "rxd_packet_class (rx_desc_of ?d) = 0" "rxd_status (rx_desc_of ?d) = 0" "rxd_hlid (rx_desc_of ?d) = 0"
    by (simp_all add: rx_desc_of_def byte_at_def nth_append)
  have n: "op_get_rx_packet_len wl18xx_ops demo_wl ?d 22 = 6" by (simp add: wl18xx_ops_def wl18xx_get_rx_packet_len_def)
  obtain x where r: "r = Inr x"
    using h by (auto simp: wl1271_rx_handle_data_def dev_alloc_skb_def Let_def f d n quiet_env_def)
  from rx_delivers_payload [OF _ n [symmetric] _ _ h] obtain p where "deferred_rx_queue wl' = [p]"
    "skb_bytes (skbs wl' p) = [8, 1, 2, 3]"
    by (auto simp: r f d buf_read_def)
  then show ?thesis by (auto simp: h r)
qed

section \<open>Failures lead to recovery\<close>

lemma recovery_from_on:
  "wl_state wl = WLCORE_STATE_ON \<Longrightarrow> wl_state (wl12xx_queue_recovery_work wl) = WLCORE_STATE_RESTARTING
     \<and> WL1271_FLAG_RECOVERY_IN_PROGRESS \<in> wl_flags (wl12xx_queue_recovery_work wl)
     \<and> log (wl12xx_queue_recovery_work wl) \<noteq> []
     \<and> last (log (wl12xx_queue_recovery_work wl)) = C_queue_work RECOVERY_WORK"
  by (simp add: wl12xx_queue_recovery_work_def Let_def emit_def set_flag_def)

text \<open>
  C11: A command of a running device either succeeds, and then the firmware answered with success or one
  of the statuses the caller allows and the device is still running; or it fails, for whatever reason,
  and then the recovery of the firmware has been requested, interrupts are off, and until recovery every
  further command is refused without touching the bus.
\<close>

theorem command_outcome:
  assumes ops: "ops \<in> wl_chips" and on: "wl_state wl = WLCORE_STATE_ON"
    and r: "wlcore_cmd_send_failsafe ops env wl cid body n valid = (r, wl')"
  shows "case r of
      Inr (status, resp) \<Rightarrow> wl_state wl' = WLCORE_STATE_ON \<and> status \<in> insert CMD_STATUS_SUCCESS valid \<and> status < MAX_COMMAND_STATUS
    | Inl e \<Rightarrow> wl_state wl' = WLCORE_STATE_RESTARTING \<and> WL1271_FLAG_RECOVERY_IN_PROGRESS \<in> wl_flags wl'
        \<and> last (log wl') = C_queue_work RECOVERY_WORK
        \<and> (\<forall>cid' body' n'. wlcore_cmd_send_raw ops env wl' cid' body' n' = (Inl EIO, emit C_warn wl'))"
proof -
  obtain s w where s: "wlcore_cmd_send_raw ops env wl cid body n = (s, w)" by (rule prod.exhaust)
  have "io_step wl w" using chip_bus.cmd_send_raw_step [OF chip_bus_all [OF ops], of wl env cid body n] s by simp
  then have w: "wl_state w = WLCORE_STATE_ON" using on by (auto elim!: io_stepE)
  have bad: "wlcore_cmd_send_raw ops env (wl12xx_queue_recovery_work w) c b k
      = (Inl EIO, emit C_warn (wl12xx_queue_recovery_work w))" for c b k
    using recovery_from_on [OF w] by (simp add: wlcore_cmd_send_raw_def)
  show ?thesis
  proof (cases s)
    case (Inl e)
    then show ?thesis using r s recovery_from_on [OF w] bad by (auto simp: wlcore_cmd_send_failsafe_def)
  next
    case (Inr x)
    then show ?thesis
      using r s recovery_from_on [OF w] bad w
      by (cases x) (auto simp: wlcore_cmd_send_failsafe_def split: if_splits)
  qed
qed

text \<open>A device whose bus fails: the first command requests recovery.\<close>

theorem command_outcome_witness:
  "\<exists>wl' e. wlcore_cmd_send_failsafe wl18xx_ops (quiet_env\<lparr>e_write := \<lambda>_. Some EIO\<rparr>) demo_wl 5 [] 0 {} = (Inl e, wl')
     \<and> wl_state wl' = WLCORE_STATE_RESTARTING"
proof -
  let ?env = "quiet_env\<lparr>e_write := \<lambda>_. Some EIO\<rparr>"
  have on: "wl_state demo_wl = WLCORE_STATE_ON" by (simp add: zeroed_defs)
  obtain r wl' where r: "wlcore_cmd_send_failsafe wl18xx_ops ?env demo_wl 5 [] 0 {} = (r, wl')" by (rule prod.exhaust)
  have w: "\<exists>e w'. wlcore_write ?env w a b f = (Inl e, w')" for w a b f
    by (auto simp: wlcore_write_def and_then_def wlcore_raw_write_def Let_def split: prod.split sum.split)
  obtain e where "r = Inl e"
    using r w [of demo_wl "cmd_box_addr demo_wl" "cmd_image 5 []" False] on
    by (auto simp: wlcore_cmd_send_failsafe_def wlcore_cmd_send_raw_def cmd_image_def Let_def demo_wl_def zeroed_defs
        split: sum.splits prod.splits if_splits)
  then show ?thesis using r command_outcome [OF _ on r] by auto
qed

lemma irq_shape:
  assumes "wlcore_irq ops env wl = Some wl'"
  obtains r w w2 where
    "wlcore_irq_locked ops env (emit (C_cancel_work TX_WORK) (set_flag WL1271_FLAG_TX_PENDING wl)) = Some (r, w)"
    and "w2 = (case r of Inl e \<Rightarrow> wl12xx_queue_recovery_work w | Inr _ \<Rightarrow> w)" and "wl_state wl' = wl_state w2"
    and "wl_flags wl' = wl_flags w2 - {WL1271_FLAG_TX_PENDING, WL1271_FLAG_WAKE_LOCK}"
proof -
  obtain r w where l: "wlcore_irq_locked ops env (emit (C_cancel_work TX_WORK) (set_flag WL1271_FLAG_TX_PENDING wl)) = Some (r, w)"
    using assms by (auto simp: wlcore_irq_def Let_def split: option.splits)
  define w2 where "w2 = (case r of Inl e \<Rightarrow> wl12xx_queue_recovery_work w | Inr _ \<Rightarrow> w)"
  define w3 where "w3 = clear_flag WL1271_FLAG_TX_PENDING w2"
  define w4 where "w4 = (if wants_tx w3 then emit (C_queue_work TX_WORK) w3 else w3)"
  have e: "wl' = clear_flag WL1271_FLAG_WAKE_LOCK w4"
    using assms l unfolding wlcore_irq_def Let_def w4_def w3_def w2_def by simp
  have "wl_state w4 = wl_state w2" "wl_flags w4 = wl_flags w2 - {WL1271_FLAG_TX_PENDING}"
    by (simp_all add: w4_def w3_def emit_def clear_flag_def)
  then show thesis using that [OF l w2_def] e by (auto simp: clear_flag_def)
qed



section \<open>Flushing\<close>



end
