(* ===== verification/WlAggr.thy ===== *)
theory WlAggr
  imports WlDriver
begin

text \<open>
  The aggregation buffer of the transmit work: frames are collected in it, each padded to the alignment
  of the chip, and written to the chip in one transfer. The room for a frame is checked before the
  padding is added; what makes this safe is that offsets and the size of the buffer are multiples of
  the alignment.
\<close>

section \<open>What the steps of the loop do to the buffer\<close>

text \<open>The buffer, its size and the quirks that choose the alignment.\<close>

definition aggr_view :: "wl1271 \<Rightarrow> bytes \<times> nat \<times> wlcore_quirk set" where
  "aggr_view wl = (aggr_buf wl, aggr_buf_size wl, wl_quirks wl)"

lemma aggr_view_simps [simp]:
  "aggr_view (emit c wl) = aggr_view wl" "aggr_view (upd_link h f wl) = aggr_view wl"
  "aggr_view (upd_vif v g wl) = aggr_view wl" "aggr_view (upd_skb p k wl) = aggr_view wl"
  "aggr_view (set_flag fl wl) = aggr_view wl" "aggr_view (clear_flag fl wl) = aggr_view wl"
  "aggr_view (wl\<lparr>tx_queue_count := q\<rparr>) = aggr_view wl" "aggr_view (wl\<lparr>last_wlvif := l\<rparr>) = aggr_view wl"
  "aggr_view (queue_count_dec n wl) = aggr_view wl" "aggr_view (upd_reason m r wl) = aggr_view wl"
  by (simp_all add: aggr_view_def emit_def upd_link_def upd_vif_def upd_skb_def set_flag_def clear_flag_def
      queue_count_dec_def upd_reason_def)

lemma lnk_dequeue_view: "aggr_view (snd (wl12xx_lnk_skb_dequeue wl h)) = aggr_view wl"
  by (simp add: wl12xx_lnk_skb_dequeue_def split: option.split list.split)

lemma scan_links_view: "aggr_view (snd (scan_links v hs wl)) = aggr_view wl"
proof (induction hs arbitrary: wl)
  case (Cons h hs)
  have "aggr_view w = aggr_view wl" if "wl12xx_lnk_skb_dequeue wl h = (r, w)" for r w
    using lnk_dequeue_view [of wl h] that by simp
  then show ?case using Cons by (auto split: prod.split option.split)
qed simp

lemma vif_dequeue_view: "aggr_view (snd (wl12xx_vif_skb_dequeue wl v)) = aggr_view wl"
  using scan_links_view [of v "link_order (last_tx_hlid (vifs wl v))" wl]
  by (auto simp: wl12xx_vif_skb_dequeue_def split: prod.split option.split)

lemma continue_pass_view: "aggr_view (snd (continue_pass vs wl)) = aggr_view wl"
proof (induction vs arbitrary: wl)
  case (Cons v vs)
  obtain r w where e: "wl12xx_vif_skb_dequeue wl v = (r, w)" by (rule prod.exhaust)
  then have "aggr_view w = aggr_view wl" using vif_dequeue_view [of wl v] by simp
  then show ?case using e Cons [of w] by (cases r) auto
qed simp

lemma new_pass_view: "aggr_view (snd (new_pass vs wl)) = aggr_view wl"
proof (induction vs arbitrary: wl)
  case (Cons v vs)
  obtain r w where e: "wl12xx_vif_skb_dequeue wl v = (r, w)" by (rule prod.exhaust)
  then have "aggr_view w = aggr_view wl" using vif_dequeue_view [of wl v] by simp
  then show ?case using e Cons [of w] by (cases r) auto
qed simp

lemma dequeue_view: "aggr_view (snd (wl1271_skb_dequeue wl)) = aggr_view wl"
proof -
  have d: "aggr_view (snd (dequeue_dummy w)) = aggr_view w" for w by (simp add: dequeue_dummy_def)
  have r: "aggr_view (snd (dequeue_restart w)) = aggr_view w" for w
  proof -
    obtain a w1 where 1: "wl12xx_lnk_skb_dequeue w (system_hlid w) = (a, w1)" by (rule prod.exhaust)
    obtain b w2 where 2: "new_pass (wlvif_list w1) w1 = (b, w2)" by (rule prod.exhaust)
    show ?thesis
      using lnk_dequeue_view [of w "system_hlid w"] new_pass_view [of "wlvif_list w1" w1] d [of w2] 1 2
      by (auto simp: dequeue_restart_def split: option.split)
  qed
  obtain a w1 where 1: "continue_pass (vifs_after (last_wlvif wl) (wlvif_list wl)) wl = (a, w1)" by (rule prod.exhaust)
  show ?thesis
    using continue_pass_view [of "vifs_after (last_wlvif wl) (wlvif_list wl)" wl] r [of w1] 1
    by (auto simp: wl1271_skb_dequeue_def split: option.split)
qed

lemma queue_head_view: "aggr_view (wl1271_skb_queue_head wl v p h) = aggr_view wl"
  by (simp add: wl1271_skb_queue_head_def Let_def split: option.split)

lemma cmd_step_view: "cmd_step wl wl' \<Longrightarrow> aggr_view wl' = aggr_view wl"
  by (auto simp: aggr_view_def elim!: cmd_stepE)

lemma ps_link_start_view: "aggr_view (wl12xx_ps_link_start env wl v h c) = aggr_view wl"
proof -
  have "aggr_view (wl1271_ps_filter_frames w h) = aggr_view w" for w
    by (rule filter_frames_shape [of w h]) (simp add: aggr_view_def)
  moreover have "aggr_view (w\<lparr>ap_ps_map := m\<rparr>) = aggr_view w" for w m by (simp add: aggr_view_def)
  ultimately show ?thesis by (simp add: wl12xx_ps_link_start_def Let_def)
qed

lemma skbs_frame: "skbs (emit c wl) = skbs wl" "skbs (upd_vif v f wl) = skbs wl" "skbs (upd_link h g wl) = skbs wl"
  by (simp_all add: emit_def upd_vif_def upd_link_def)

lemma select_key_view:
  assumes "ops \<in> wl_chips"
  shows "aggr_view (snd (tx_select_key ops env wl wlvif key)) = aggr_view wl"
    and "skbs (snd (tx_select_key ops env wl wlvif key)) = skbs wl"
proof -
  have c: "cmd_step wl (snd (wl1271_set_default_wep_key ops env (emit C_warn wl) v k))" for v k
    using cmd_step_trans [OF cmd_step_emit chip_bus.set_default_wep_key_step [OF chip_bus_all [OF assms]], of C_warn wl]
    by (simp add: wl1271_set_default_wep_key_def)
  have "aggr_view w = aggr_view wl \<and> skbs w = skbs wl" if "wl1271_set_default_wep_key ops env (emit C_warn wl) v k = (r, w)" for v k r w
    using cmd_step_view [OF c [of v k]] c [of v k] that by (auto elim!: cmd_stepE)
  then show "aggr_view (snd (tx_select_key ops env wl wlvif key)) = aggr_view wl"
    "skbs (snd (tx_select_key ops env wl wlvif key)) = skbs wl"
    by (auto simp: tx_select_key_def and_then_def skbs_frame split: option.split sum.split prod.split)
qed

lemma take_blocks_view:
  "aggr_view (tx_take_blocks wl p n) = aggr_view wl" "skbs (tx_take_blocks wl p n) = skbs wl"
proof -
  define w where "w = wl\<lparr>tx_blocks_available := tx_blocks_available wl - of_nat n, tx_allocated_blocks := tx_allocated_blocks wl + of_nat n\<rparr>"
  define w' where "w' = (if tx_allocated_blocks w = of_nat n then wl12xx_rearm_tx_watchdog_locked w else w)"
  have "aggr_view w = aggr_view wl \<and> skbs w = skbs wl" by (simp add: w_def aggr_view_def)
  then have w: "aggr_view w' = aggr_view wl \<and> skbs w' = skbs wl"
    by (simp add: w'_def wl12xx_rearm_tx_watchdog_locked_def skbs_frame)
  have "tx_take_blocks wl p n = w'\<lparr>tx_allocated_pkts := (tx_allocated_pkts w')(skb_ac w' p := tx_allocated_pkts w' (skb_ac w' p) + 1)\<rparr>"
    unfolding tx_take_blocks_def Let_def w_def [symmetric] w'_def [symmetric] ..
  with w show "aggr_view (tx_take_blocks wl p n) = aggr_view wl" "skbs (tx_take_blocks wl p n) = skbs wl"
    by (simp_all add: aggr_view_def)
qed

lemma tx_allocated_view:
  "aggr_view (tx_allocated ops wl wlvif p extra h i n m) = aggr_view wl"
  "skb_len (skbs (tx_allocated ops wl wlvif p extra h i n m) p) = skb_len (skbs wl p) + TX_DESC_LEN + extra"
proof -
  have 1: "aggr_view (tx_push_desc ops wl p extra i n m) = aggr_view wl" by (simp add: tx_push_desc_def Let_def)
  have 2: "skb_len (skbs (tx_push_desc ops wl p extra i n m) p) = skb_len (skbs wl p) + TX_DESC_LEN + extra"
    by (simp add: tx_push_desc_def Let_def upd_skb_def emit_def skb_push_def skb_set_desc_def skb_write_def)
  have 3: "aggr_view (tx_count_sta w wlvif p h) = aggr_view w \<and> skbs (tx_count_sta w wlvif p h) = skbs w" for w
    by (simp add: tx_count_sta_def skbs_frame split: option.split)
  show "aggr_view (tx_allocated ops wl wlvif p extra h i n m) = aggr_view wl"
    "skb_len (skbs (tx_allocated ops wl wlvif p extra h i n m) p) = skb_len (skbs wl p) + TX_DESC_LEN + extra"
    by (simp_all add: tx_allocated_def 1 2 3 take_blocks_view)
qed

lemma tx_allocate_aggr:
  assumes "wl1271_tx_allocate ops wl wlvif p extra off h g = (r, wl')"
  shows "aggr_view wl' = aggr_view wl"
    and "r = Inr () \<Longrightarrow> off + (skb_len (skbs wl p) + TX_DESC_LEN + extra) \<le> aggr_buf_size wl
           \<and> skb_len (skbs wl' p) = skb_len (skbs wl p) + TX_DESC_LEN + extra"
proof -
  obtain q w where a: "wl1271_alloc_tx_id wl p = (q, w)" by (rule prod.exhaust)
  have w: "aggr_view w = aggr_view wl \<and> skbs w = skbs wl"
    using a by (auto simp: wl1271_alloc_tx_id_def Let_def aggr_view_def set_flag_def split: if_splits)
  have f: "aggr_view (wl1271_free_tx_id w i) = aggr_view w" for i
    by (auto simp: wl1271_free_tx_id_def Let_def aggr_view_def clear_flag_def)
  show "aggr_view wl' = aggr_view wl"
    using assms a w by (cases q) (auto simp: wl1271_tx_allocate_def Let_def tx_allocated_view f split: if_splits)
  show "off + (skb_len (skbs wl p) + TX_DESC_LEN + extra) \<le> aggr_buf_size wl
           \<and> skb_len (skbs wl' p) = skb_len (skbs wl p) + TX_DESC_LEN + extra" if "r = Inr ()"
    using assms a w that by (cases q) (auto simp: wl1271_tx_allocate_def Let_def tx_allocated_view split: if_splits)
qed

lemma regulate_link_aggr:
  "aggr_view (wl1271_tx_regulate_link env wl v h) = aggr_view wl"
  "skb_len (skbs (wl1271_tx_regulate_link env wl v h) p) = skb_len (skbs wl p)"
proof -
  show "aggr_view (wl1271_tx_regulate_link env wl v h) = aggr_view wl"
    by (simp add: wl1271_tx_regulate_link_def Let_def ps_link_start_view)
  have "skb_len (skbs (wl1271_ps_filter_frames w h) p) = skb_len (skbs w p)" for w
  proof (rule filter_frames_shape [of w h])
    fix sk l r
    assume "wl1271_ps_filter_frames w h = w\<lparr>
        tx_queue_count := (\<lambda>i. if i < NUM_TX_QUEUES
            then tx_queue_count w i - int (length (tx_queue (links w h) i)) else tx_queue_count w i),
        queue_stop_reasons := r, links := links (emptied NUM_TX_QUEUES h w),
        skbs := sk, log := log w @ l\<rparr>" and s: "\<And>x. \<exists>i. sk x = (skbs w x)\<lparr>skb_info := i\<rparr>"
    moreover from s [of p] obtain i where "sk p = (skbs w p)\<lparr>skb_info := i\<rparr>" ..
    ultimately show "skb_len (skbs (wl1271_ps_filter_frames w h) p) = skb_len (skbs w p)" by simp
  qed
  then show "skb_len (skbs (wl1271_tx_regulate_link env wl v h) p) = skb_len (skbs wl p)"
    by (simp add: wl1271_tx_regulate_link_def Let_def wl12xx_ps_link_start_def skbs_frame)
qed

lemma finish_frame_aggr:
  assumes ops: "ops \<in> wl_chips" and r: "tx_finish_frame ops env wl wlvif p extra off h = (len, wl')"
  shows "len = wlcore_calc_packet_alignment wl (skb_len (skbs wl p)) \<and> aggr_buf_size wl' = aggr_buf_size wl
    \<and> wl_quirks wl' = wl_quirks wl \<and> (\<exists>bs. length bs \<le> len \<and> aggr_buf wl' = buf_write off bs (aggr_buf wl))"
proof -
  define w1 where "w1 = wl1271_tx_fill_hdr ops env wl wlvif p extra h"
  define w2 where "w2 = (case wlvif of
                   Some v \<Rightarrow>
                     if \<not> wl12xx_is_dummy_packet wl p \<and> vif_bss_type (vifs w1 v) = BSS_TYPE_AP_BSS
                     then wl1271_tx_regulate_link env (wl1271_tx_ap_update_inconnection_sta ops env w1 p) v h
                     else w1
                 | None \<Rightarrow> w1)"
  have 1: "aggr_view w1 = aggr_view wl" "skb_len (skbs w1 p) = skb_len (skbs wl p)"
    unfolding w1_def wl1271_tx_fill_hdr_def Let_def
    by (simp, simp add: upd_skb_def emit_def skb_set_desc_def skb_write_def tx_relocate_def)
  have c: "cmd_step w (wl1271_tx_ap_update_inconnection_sta ops env w p)" for w
    by (simp add: wl1271_tx_ap_update_inconnection_sta_def chip_bus.inconnection_sta_step [OF chip_bus_all [OF ops]])
  have c': "aggr_view (wl1271_tx_ap_update_inconnection_sta ops env w p) = aggr_view w"
    "skbs (wl1271_tx_ap_update_inconnection_sta ops env w p) = skbs w" for w
    using cmd_step_view [OF c [of w]] c [of w] by (auto elim!: cmd_stepE)
  have 2: "aggr_view w2 = aggr_view wl" "skb_len (skbs w2 p) = skb_len (skbs wl p)"
    using 1 by (simp_all add: w2_def regulate_link_aggr c' split: option.split)
  have len: "wlcore_calc_packet_alignment w2 n = wlcore_calc_packet_alignment wl n" for n
    using 2(1) by (simp add: wlcore_calc_packet_alignment_def aggr_view_def)
  define n where "n = skb_len (skbs wl p)"
  define bs where "bs = skb_bytes (skbs w2 p) @ replicate (wlcore_calc_packet_alignment wl n - n) 0"
  define w3 where "w3 = w2\<lparr>aggr_buf := buf_write off bs (aggr_buf w2)\<rparr>"
  have cp: "tx_copy_aggr w2 p off = (wlcore_calc_packet_alignment wl n, w3)"
    by (simp add: tx_copy_aggr_def Let_def 2(2) len bs_def w3_def n_def)
  have e: "len = wlcore_calc_packet_alignment wl n" "wl' = (if wl12xx_is_dummy_packet wl p then upd_skb p (skb_pull TX_DESC_LEN) w3 else w3)"
    using r unfolding tx_finish_frame_def Let_def w1_def [symmetric] w2_def [symmetric] cp by simp_all
  have "n \<le> wlcore_calc_packet_alignment wl n" by (simp add: wlcore_calc_packet_alignment_def ALIGN_ge)
  moreover have "length (skb_bytes (skbs w2 p)) \<le> n" by (simp add: skb_bytes_def buf_read_def 2(2) n_def)
  ultimately have "length bs \<le> len" by (simp add: bs_def e(1))
  moreover have "aggr_view wl' = aggr_view w3" by (simp add: e(2))
  ultimately show ?thesis using 2(1) by (auto simp: aggr_view_def w3_def e(1) n_def)
qed

lemma prepare_aggr:
  assumes ops: "ops \<in> wl_chips" and r: "wl1271_prepare_tx_frame ops env wl wlvif p off h = (r, wl')"
  shows "case r of
      Inl e \<Rightarrow> aggr_view wl' = aggr_view wl
    | Inr len \<Rightarrow> aggr_buf_size wl' = aggr_buf_size wl \<and> wl_quirks wl' = wl_quirks wl
        \<and> (\<exists>n. len = wlcore_calc_packet_alignment wl n \<and> TX_DESC_LEN \<le> n \<and> off + n \<le> aggr_buf_size wl)
        \<and> (\<exists>bs. length bs \<le> len \<and> aggr_buf wl' = buf_write off bs (aggr_buf wl))"
proof (cases "h = WL12XX_INVALID_LINK_ID")
  case True
  then show ?thesis using r by (auto simp: wl1271_prepare_tx_frame_def)
next
  case False
  define key where "key = ti_hw_key (skb_info (skbs wl p))"
  define x where "x = tx_extra wl key"
  obtain a w1 where a: "tx_select_key ops env wl wlvif key = (a, w1)" by (rule prod.exhaust)
  have 1: "aggr_view w1 = aggr_view wl" "skbs w1 = skbs wl" using select_key_view [OF ops, of env wl wlvif key] a by simp_all
  obtain b w2 where b: "wl1271_tx_allocate ops w1 wlvif p x off h (tx_is_gem key) = (b, w2)" by (rule prod.exhaust)
  note 2 = tx_allocate_aggr [OF b]
  obtain len w3 where f: "tx_finish_frame ops env w2 wlvif p x off h = (len, w3)" by (rule prod.exhaust)
  note 3 = finish_frame_aggr [OF ops f]
  have r: "(r, wl') = (case a of Inl e \<Rightarrow> (Inl e, w1) | Inr _ \<Rightarrow> case b of Inl e \<Rightarrow> (Inl e, w2) | Inr _ \<Rightarrow> (Inr len, w3))"
    using r False unfolding wl1271_prepare_tx_frame_def Let_def key_def [symmetric] x_def [symmetric] a
    by (cases a; cases b) (simp_all add: b f)
  have v: "aggr_view w2 = aggr_view wl" using 1 2 by simp
  then have q: "wlcore_calc_packet_alignment w2 n = wlcore_calc_packet_alignment wl n" for n
    by (simp add: wlcore_calc_packet_alignment_def aggr_view_def)
  show ?thesis
  proof (cases "isl a \<or> isl b")
    case True
    then show ?thesis using r 1 v by (cases a; cases b) auto
  next
    case False
    then have e: "r = Inr len" "wl' = w3" "b = Inr ()" using r by (cases a; cases b; simp)+
    have "aggr_buf_size w1 = aggr_buf_size wl" using 1(1) by (simp add: aggr_view_def)
    then show ?thesis using 2(2) [OF e(3)] 3 v q unfolding e by (fastforce simp: aggr_view_def)
  qed
qed

section \<open>The loop stays inside the buffer\<close>

definition aggr_align :: "wl1271 \<Rightarrow> nat" where
  "aggr_align wl = (if WLCORE_QUIRK_TX_PAD_LAST_FRAME \<in> wl_quirks wl \<or> WLCORE_QUIRK_TX_BLOCKSIZE_ALIGN \<notin> wl_quirks wl
     then WL1271_TX_ALIGN_TO else WL12XX_BUS_BLOCK_SIZE)"

lemma calc_alignment: "wlcore_calc_packet_alignment wl n = ALIGN n (aggr_align wl)"
  by (simp add: wlcore_calc_packet_alignment_def aggr_align_def)

lemma aggr_align_facts: "0 < aggr_align wl" "aggr_align wl dvd WL12XX_BUS_BLOCK_SIZE"
  by (auto simp: aggr_align_def)

text \<open>
  The buffer has its size, which is a multiple of a bus block; the offset is aligned and inside, and the
  last frame lies before it.
\<close>

definition aggr_ok :: "tx_locals \<Rightarrow> wl1271 \<Rightarrow> bool" where
  "aggr_ok st wl \<longleftrightarrow> length (aggr_buf wl) = aggr_buf_size wl \<and> WL12XX_BUS_BLOCK_SIZE dvd aggr_buf_size wl
     \<and> aggr_align wl dvd tl_buf_offset st \<and> tl_buf_offset st \<le> aggr_buf_size wl
     \<and> (tl_buf_offset st \<noteq> 0 \<longrightarrow> TX_DESC_LEN \<le> tl_last_len st \<and> tl_last_len st \<le> tl_buf_offset st)"

lemma aggr_ok_view:
  assumes "aggr_buf_size wl' = aggr_buf_size wl" "wl_quirks wl' = wl_quirks wl" "length (aggr_buf wl') = length (aggr_buf wl)"
    and "tl_buf_offset st' = tl_buf_offset st" "tl_last_len st' = tl_last_len st"
  shows "aggr_ok st' wl' = aggr_ok st wl"
  using assms by (simp add: aggr_ok_def aggr_align_def)

lemma flush_aggr_view:
  assumes ops: "ops \<in> wl_chips" and f: "tx_flush_aggr ops env wl off n = (r, wl')"
  shows "aggr_buf_size wl' = aggr_buf_size wl" "wl_quirks wl' = wl_quirks wl" "length (aggr_buf wl') = length (aggr_buf wl)"
proof -
  obtain len w where p: "wlcore_hw_pre_pkt_send ops wl off n = (len, w)" by (rule prod.exhaust)
  have "aggr_buf_size w = aggr_buf_size wl \<and> wl_quirks w = wl_quirks wl \<and> length (aggr_buf w) = length (aggr_buf wl)"
    using p ops by (auto simp: wlcore_hw_pre_pkt_send_def wl12xx_ops_def wl127x_ops_def wl18xx_ops_def
        wl18xx_pre_pkt_send_def Let_def split: if_splits)
  moreover have "io_step w wl'"
    using f io_step_write_data [of w env REG_SLV_MEM_DATA "buf_read 0 len (aggr_buf w)" True]
    by (simp add: tx_flush_aggr_def p)
  ultimately show "aggr_buf_size wl' = aggr_buf_size wl" "wl_quirks wl' = wl_quirks wl" "length (aggr_buf wl') = length (aggr_buf wl)"
    by (auto elim!: io_stepE)
qed

lemma frame_sent_aggr:
  assumes ok: "aggr_ok st wl" and s: "aggr_buf_size wl' = aggr_buf_size wl" "wl_quirks wl' = wl_quirks wl"
    and len: "len = wlcore_calc_packet_alignment wl n" "TX_DESC_LEN \<le> n" "tl_buf_offset st + n \<le> aggr_buf_size wl"
    and b: "length bs \<le> len" "aggr_buf wl' = buf_write (tl_buf_offset st) bs (aggr_buf wl)"
  shows "aggr_ok (fst (tx_frame_sent st wl' p d len)) (snd (tx_frame_sent st wl' p d len))"
proof -
  let ?o = "tl_buf_offset st" and ?a = "aggr_align wl"
  have a: "?a dvd aggr_buf_size wl" using ok dvd_trans [OF aggr_align_facts(2)] by (simp add: aggr_ok_def)
  have "?a dvd aggr_buf_size wl - ?o" using a ok by (simp add: aggr_ok_def)
  then have l: "ALIGN n ?a \<le> aggr_buf_size wl - ?o" using len(3) by (intro ALIGN_le_multiple) (simp_all add: aggr_align_facts)
  have le: "?o + len \<le> aggr_buf_size wl" using l ok len(1) unfolding calc_alignment aggr_ok_def by linarith
  have n: "n \<le> len" using len(1) by (simp add: calc_alignment ALIGN_ge aggr_align_facts)
  have "length (aggr_buf wl') = aggr_buf_size wl"
    unfolding b(2) using ok b(1) le by (subst length_buf_write) (simp_all add: aggr_ok_def)
  moreover have "?a dvd len" unfolding len(1) calc_alignment by simp
  moreover have "aggr_align wl' = ?a" using s(2) by (simp add: aggr_align_def)
  ultimately show ?thesis
    using ok s le n len(2) by (simp add: aggr_ok_def tx_frame_sent_def) (simp add: aggr_align_def)
qed

text \<open>The states the loop goes through, from the start of the work to its exit.\<close>

inductive tx_visits :: "wlcore_ops \<Rightarrow> wl_env \<Rightarrow> wl1271 \<Rightarrow> tx_locals \<Rightarrow> wl1271 \<Rightarrow> bool" for ops env wl0 where
  visit_start: "tx_visits ops env wl0 tx_locals_init wl0"
| visit_next: "tx_visits ops env wl0 st wl \<Longrightarrow> tx_iter ops env st wl = Inr (st', wl') \<Longrightarrow> tx_visits ops env wl0 st' wl'"
| visit_exit: "tx_visits ops env wl0 st wl \<Longrightarrow> tx_iter ops env st wl = Inl (x, st', wl') \<Longrightarrow> tx_visits ops env wl0 st' wl'"

lemma tx_iter_aggr:
  assumes ops: "ops \<in> wl_chips" and ok: "aggr_ok st wl"
  shows "case tx_iter ops env st wl of Inl (x, st', wl') \<Rightarrow> aggr_ok st' wl' | Inr (st', wl') \<Rightarrow> aggr_ok st' wl'"
proof -
  obtain d wl1 where d: "wl1271_skb_dequeue wl = (d, wl1)" by (rule prod.exhaust)
  have ok1: "aggr_ok st wl1" using dequeue_view [of wl] d aggr_ok_view [of wl1 wl st st] ok by (simp add: aggr_view_def)
  have keep: "aggr_ok st w" if "aggr_view w = aggr_view wl1" for w
    using that aggr_ok_view [of w wl1 st st] ok1 by (simp add: aggr_view_def)
  show ?thesis
  proof (cases d)
    case None
    then show ?thesis using d keep by (simp add: tx_iter_def)
  next
    case (Some x)
    obtain p h where x: "x = (p, h)" by (cases x)
    define v where "v = tx_wlvif wl1 p"
    define hl where "hl = (if v = None then system_hlid wl1 else h)"
    obtain r wl2 where r: "wl1271_prepare_tx_frame ops env wl1 v p (tl_buf_offset st) hl = (r, wl2)" by (rule prod.exhaust)
    note pr = prepare_aggr [OF ops r]
    have it: "tx_iter ops env st wl = (case r of Inl e \<Rightarrow> tx_frame_failed ops env st wl2 p v hl e
        | Inr len \<Rightarrow> Inr (tx_frame_sent st wl2 p (v \<noteq> None \<and> wl1271_tx_is_data_present (skbs wl1 p)) len))"
      unfolding tx_iter_def d Some x prod.case option.case Let_def v_def [symmetric] hl_def [symmetric] r
      by (cases r) simp_all
    show ?thesis
    proof (cases r)
      case (Inr len)
      then obtain n bs where "aggr_buf_size wl2 = aggr_buf_size wl1" "wl_quirks wl2 = wl_quirks wl1"
        "len = wlcore_calc_packet_alignment wl1 n" "TX_DESC_LEN \<le> n" "tl_buf_offset st + n \<le> aggr_buf_size wl1"
        "length bs \<le> len" "aggr_buf wl2 = buf_write (tl_buf_offset st) bs (aggr_buf wl1)"
        using pr by auto
      note fs = frame_sent_aggr [OF ok1 this, of p "v \<noteq> None \<and> wl1271_tx_is_data_present (skbs wl1 p)"]
      show ?thesis using fs unfolding it Inr by (simp add: split_beta)
    next
      case (Inl e)
      then have v2: "aggr_view wl2 = aggr_view wl1" using pr by simp
      obtain b w where f: "tx_flush_aggr ops env (wl1271_skb_queue_head wl2 v p hl) (tl_buf_offset st) (tl_last_len st) = (b, w)"
        by (rule prod.exhaust)
      have q: "aggr_view (wl1271_skb_queue_head wl2 v p hl) = aggr_view wl1" using v2 by (simp add: queue_head_view)
      have okw: "aggr_ok st w" using flush_aggr_view [OF ops f] keep [OF q] aggr_ok_view by metis
      then have "aggr_ok (st\<lparr>tl_sent_packets := True, tl_buf_offset := 0\<rparr>) (upd_reason n g w)" for n g
        by (simp add: aggr_ok_def aggr_align_def upd_reason_def)
      then show ?thesis
        using it Inl okw keep q v2 f by (auto simp: tx_frame_failed_def split: sum.split)
    qed
  qed
qed

lemma tx_visits_aggr:
  assumes "tx_visits ops env wl0 st wl" and "ops \<in> wl_chips"
    and "length (aggr_buf wl0) = aggr_buf_size wl0" and "WL12XX_BUS_BLOCK_SIZE dvd aggr_buf_size wl0"
  shows "aggr_ok st wl"
  using assms(1)
proof induction
  case visit_start
  then show ?case using assms by (simp add: aggr_ok_def tx_locals_init_def)
next
  case (visit_next st wl st' wl')
  then show ?case using tx_iter_aggr [OF assms(2), of st wl env] by simp
next
  case (visit_exit st wl x st' wl')
  then show ?case using tx_iter_aggr [OF assms(2), of st wl env] by simp
qed



end
