(* ===== verification/WlBoot.thy ===== *)
theory WlBoot
  imports WlDriver
begin

unbundle bit_operations_syntax

text \<open>
  Booting the chip (wlcore/boot.c): upload of the firmware image through a sliding memory window,
  upload of the calibration data (NVS), start of the embedded processor, and the checks on the
  firmware's version.
\<close>

section \<open>Constants\<close>

abbreviation (input) CHUNK_SIZE :: nat where "CHUNK_SIZE \<equiv> 16384"
abbreviation (input) INIT_LOOP :: nat where "INIT_LOOP \<equiv> 20000"
abbreviation (input) ECPU_CONTROL_HALT :: u32 where "ECPU_CONTROL_HALT \<equiv> 0x101"
abbreviation (input) WL1271_ACX_INTR_INIT_COMPLETE :: u32 where "WL1271_ACX_INTR_INIT_COMPLETE \<equiv> 2"
abbreviation (input) NVS_SECTION_SIZE :: nat where "NVS_SECTION_SIZE \<equiv> 468"
abbreviation (input) LEGACY_NVS_FILE_SIZE :: nat where "LEGACY_NVS_FILE_SIZE \<equiv> 800"

text \<open>The sizes of \<open>struct wl1271_nvs_file\<close> and \<open>struct wl128x_nvs_file\<close>.\<close>

abbreviation (input) WL1271_NVS_FILE_SIZE :: nat where "WL1271_NVS_FILE_SIZE \<equiv> 912"
abbreviation (input) WL128X_NVS_FILE_SIZE :: nat where "WL128X_NVS_FILE_SIZE \<equiv> 1113"

section \<open>The firmware version\<close>

definition wl1271_boot_set_ecpu_ctrl :: "wl_env \<Rightarrow> wl1271 \<Rightarrow> u32 \<Rightarrow> unit res \<times> wl1271" where
  "wl1271_boot_set_ecpu_ctrl env wl flag =
     and_then (wlcore_read_reg env wl REG_ECPU_CONTROL) (\<lambda>cpu_ctrl wl1.
       wlcore_write_reg env wl1 REG_ECPU_CONTROL (cpu_ctrl OR flag))"

text \<open>
  The conversions of \<open>sscanf\<close> the driver uses: \<open>%u\<close> skips white space and reads decimal digits
  into 32 bits; a dot must match.
\<close>

definition isdigit :: "u8 \<Rightarrow> bool" where
  "isdigit c \<longleftrightarrow> 48 \<le> c \<and> c \<le> 57"

definition isspace :: "u8 \<Rightarrow> bool" where
  "isspace c \<longleftrightarrow> c = 32 \<or> (9 \<le> c \<and> c \<le> 13) \<or> c = 0xa0"

definition decimal_value :: "bytes \<Rightarrow> nat" where
  "decimal_value ds = fold (\<lambda>d n. 10 * n + (unat d - 48)) ds 0"

definition scan_u :: "bytes \<Rightarrow> (nat \<times> bytes) option" where
  "scan_u s =
     (let s1 = dropWhile isspace s; ds = takeWhile isdigit s1
      in if ds = [] then None else Some (decimal_value ds mod 2 ^ 32, dropWhile isdigit s1))"

fun scan_dotted :: "nat \<Rightarrow> bytes \<Rightarrow> nat list option" where
  "scan_dotted 0 s = Some []"
| "scan_dotted (Suc 0) s = (case scan_u s of None \<Rightarrow> None | Some (v, r) \<Rightarrow> Some [v])"
| "scan_dotted (Suc n) s =
     (case scan_u s of
        None \<Rightarrow> None
      | Some (v, r) \<Rightarrow>
          (case r of
             c # r1 \<Rightarrow> if c = 46 then map_option (Cons v) (scan_dotted n r1) else None
           | [] \<Rightarrow> None))"

definition wlcore_boot_parse_fw_ver :: "wlcore_ops \<Rightarrow> wl1271 \<Rightarrow> bytes \<Rightarrow> unit res \<times> wl1271" where
  "wlcore_boot_parse_fw_ver ops wl static_data =
     (let s = (strncpy (drop 8 static_data) 32)[31 := 0];
          wl1 = wl\<lparr>boot := (boot wl)\<lparr>fw_ver_str := s\<rparr>\<rparr>
      in case scan_dotted 5 (takeWhile (\<lambda>b. b \<noteq> 0) (drop 4 s)) of
           None \<Rightarrow> (Inl EINVAL, wl1\<lparr>boot := (boot wl1)\<lparr>fw_ver := replicate 5 0\<rparr>\<rparr>)
         | Some v \<Rightarrow> wlcore_identify_fw ops (wl1\<lparr>boot := (boot wl1)\<lparr>fw_ver := v\<rparr>\<rparr>))"

definition wlcore_validate_fw_ver :: "wl1271 \<Rightarrow> unit res" where
  "wlcore_validate_fw_ver wl =
     (let v = fw_ver (boot wl); m = min_fw_ver (boot wl)
      in if m ! FW_VER_CHIP \<noteq> v ! FW_VER_CHIP then Inl EINVAL
         else if m ! FW_VER_IF_TYPE < v ! FW_VER_IF_TYPE then Inr ()
         else if m ! FW_VER_IF_TYPE > v ! FW_VER_IF_TYPE then Inl EINVAL
         else if m ! FW_VER_MAJOR < v ! FW_VER_MAJOR then Inr ()
         else if m ! FW_VER_MAJOR > v ! FW_VER_MAJOR then Inl EINVAL
         else if m ! FW_VER_SUBTYPE < v ! FW_VER_SUBTYPE then Inr ()
         else if m ! FW_VER_SUBTYPE > v ! FW_VER_SUBTYPE then Inl EINVAL
         else if m ! FW_VER_MINOR < v ! FW_VER_MINOR then Inr ()
         else if m ! FW_VER_MINOR > v ! FW_VER_MINOR then Inl EINVAL
         else Inr ())"

definition wlcore_boot_static_data :: "wlcore_ops \<Rightarrow> wl_env \<Rightarrow> wl1271 \<Rightarrow> unit res \<times> wl1271" where
  "wlcore_boot_static_data ops env wl =
     (let len = 64 + static_data_priv_len (boot wl) in
      and_then (kzalloc env len wl) (\<lambda>_ wl1.
      and_then (wlcore_read env wl1 (cmd_box_addr wl1) len False) (\<lambda>static_data wl2.
      and_then (wlcore_boot_parse_fw_ver ops wl2 static_data) (\<lambda>_ wl3.
      and_then (wlcore_validate_fw_ver wl3, wl3) (\<lambda>_ wl4.
        wlcore_handle_static_data ops wl4 static_data)))))"

section \<open>Uploading the firmware\<close>

text \<open>
  A chunk of the image is written in pieces of \<open>CHUNK_SIZE\<close> bytes. Before each piece the memory
  window is moved when the piece after it might not fit. \<open>addr\<close> and \<open>partition_limit\<close> are signed
  32-bit integers.
\<close>

definition chunk_addr :: "u32 \<Rightarrow> nat \<Rightarrow> u32" where
  "chunk_addr dest k = dest + of_nat (k * CHUNK_SIZE)"

definition move_window ::
  "wl_env \<Rightarrow> u32 \<Rightarrow> nat \<Rightarrow> int \<Rightarrow> wlcore_partition_set \<Rightarrow> wl1271
   \<Rightarrow> (int \<times> wlcore_partition_set) res \<times> wl1271" where
  "move_window env dest chunk_num limit part wl =
     (if sint (chunk_addr dest (chunk_num + 2)) > limit then
        let part1 = part\<lparr>part_mem := (part_mem part)\<lparr>part_start := unat (chunk_addr dest chunk_num)\<rparr>\<rparr>
        in and_then (wlcore_set_partition env wl part1) (\<lambda>_ wl1.
             (Inr (int (chunk_num * CHUNK_SIZE + part_size (part_mem (ptable (boot wl1) PART_DOWN))), part1), wl1))
      else (Inr (limit, part), wl))"

fun upload_pieces ::
  "wl_env \<Rightarrow> bytes \<Rightarrow> u32 \<Rightarrow> nat \<Rightarrow> nat \<Rightarrow> int \<Rightarrow> wlcore_partition_set \<Rightarrow> wl1271 \<Rightarrow> unit res \<times> wl1271"
where
  "upload_pieces env buf dest 0 chunk_num limit part wl =
     wlcore_write env wl (unat (chunk_addr dest chunk_num))
       (buf_read (chunk_num * CHUNK_SIZE) (length buf mod CHUNK_SIZE) buf) False"
| "upload_pieces env buf dest (Suc left) chunk_num limit part wl =
     and_then (move_window env dest chunk_num limit part wl) (\<lambda>(limit1, part1) wl1.
     and_then (wlcore_write env wl1 (unat (chunk_addr dest chunk_num))
                 (buf_read (chunk_num * CHUNK_SIZE) CHUNK_SIZE buf) False) (\<lambda>_ wl2.
       upload_pieces env buf dest left (Suc chunk_num) limit1 part1 wl2))"

definition wl1271_boot_upload_firmware_chunk ::
  "wl_env \<Rightarrow> wl1271 \<Rightarrow> bytes \<Rightarrow> u32 \<Rightarrow> unit res \<times> wl1271" where
  "wl1271_boot_upload_firmware_chunk env wl buf dest =
     (if length buf mod 4 \<noteq> 0 then (Inl EIO, wl)
      else and_then (kzalloc env CHUNK_SIZE wl) (\<lambda>_ wl1.
        let down = ptable (boot wl1) PART_DOWN;
            part = down\<lparr>part_mem := (part_mem down)\<lparr>part_start := unat dest\<rparr>\<rparr>
        in and_then (wlcore_set_partition env wl1 part) (\<lambda>_ wl2.
             upload_pieces env buf dest (length buf div CHUNK_SIZE) 0
               (int (part_size (part_mem down))) part wl2)))"

text \<open>
  The image is a big-endian count of chunks and, for each, its address, its length and its bytes.
  The code follows the lengths without comparing them with the size of the file; a read past its end
  is a \<open>C_oops\<close>.
\<close>

definition be32 :: "u32 \<Rightarrow> bytes" where
  "be32 v = rev (le32 v)"

definition be32_to_cpup :: "bytes \<Rightarrow> u32" where
  "be32_to_cpup b = get_le32 0 (rev (take 4 b))"

fun upload_fw_chunks :: "wl_env \<Rightarrow> nat \<Rightarrow> bytes \<Rightarrow> wl1271 \<Rightarrow> unit res \<times> wl1271" where
  "upload_fw_chunks env 0 fw wl = (Inr (), wl)"
| "upload_fw_chunks env (Suc chunks) fw wl =
     (if length fw < 8 then (Inl EFAULT, emit C_oops wl)
      else let addr = be32_to_cpup fw; len = unat (be32_to_cpup (drop 4 fw)); fw1 = drop 8 fw
        in if 300000 < len then (Inl EINVAL, wl)
           else if length fw1 < len then (Inl EFAULT, emit C_oops wl)
           else and_then (wl1271_boot_upload_firmware_chunk env wl (take len fw1) addr) (\<lambda>_ wl1.
             upload_fw_chunks env chunks (drop len fw1) wl1))"

definition wlcore_boot_upload_firmware :: "wl_env \<Rightarrow> wl1271 \<Rightarrow> unit res \<times> wl1271" where
  "wlcore_boot_upload_firmware env wl =
     (let fw = fw_image (boot wl)
      in if length fw < 4 then (Inl EFAULT, emit C_oops wl)
         else upload_fw_chunks env (unat (be32_to_cpup fw)) (drop 4 fw) wl)"

section \<open>Uploading the calibration data\<close>

fun nvs_burst ::
  "wl_env \<Rightarrow> bytes \<Rightarrow> nat \<Rightarrow> nat \<Rightarrow> u32 \<Rightarrow> wl1271 \<Rightarrow> unit res \<times> wl1271" where
  "nvs_burst env nv 0 ptr dest_addr wl = (Inr (), wl)"
| "nvs_burst env nv (Suc n) ptr dest_addr wl =
     (if NVS_SECTION_SIZE \<le> ptr + 3 then (Inl EILSEQ, wl)
      else and_then (wlcore_write32 env wl (unat dest_addr) (get_le32 ptr nv)) (\<lambda>_ wl1.
        nvs_burst env nv n (ptr + 4) (dest_addr + 4) wl1))"

text \<open>The bursts are followed up to the first with length zero, whose offset is returned.\<close>

definition burst_dest :: "bytes \<Rightarrow> nat \<Rightarrow> wl1271 \<Rightarrow> u32" where
  "burst_dest nv ptr wl =
     ((ucast (byte_at (ptr + 1) nv) AND 0xfe) OR push_bit 8 (ucast (byte_at (ptr + 2) nv)))
     + of_nat (part_start (part_reg (curr_part wl)))"

function nvs_bursts :: "wl_env \<Rightarrow> bytes \<Rightarrow> nat \<Rightarrow> wl1271 \<Rightarrow> nat res \<times> wl1271" where
  "nvs_bursts env nv ptr wl =
     (if byte_at ptr nv = 0 then (Inr ptr, wl)
      else let burst_len = unat (byte_at ptr nv); next = ptr + 3 + 4 * burst_len
        in and_then (nvs_burst env nv burst_len (ptr + 3) (burst_dest nv ptr wl) wl) (\<lambda>_ wl1.
             if NVS_SECTION_SIZE \<le> next then (Inl EILSEQ, wl1) else nvs_bursts env nv next wl1))"
  by pat_completeness auto
termination by (relation "measure (\<lambda>(env, nv, ptr, wl). NVS_SECTION_SIZE - ptr)") auto

declare nvs_bursts.simps [simp del]

definition nvs_size_ok :: "wl1271 \<Rightarrow> bytes \<Rightarrow> bool" where
  "nvs_size_ok wl nv \<longleftrightarrow>
     (if WLCORE_QUIRK_LEGACY_NVS \<in> wl_quirks wl
      then length nv = WL1271_NVS_FILE_SIZE \<or> length nv = LEGACY_NVS_FILE_SIZE \<and> \<not> enable_11a (boot wl)
      else length nv = WL128X_NVS_FILE_SIZE)"

text \<open>The general parameters hold whether the module is dual band.\<close>

definition nvs_check_band :: "wl1271 \<Rightarrow> bytes \<Rightarrow> wl1271" where
  "nvs_check_band wl nv =
     (let dual = (if WLCORE_QUIRK_LEGACY_NVS \<in> wl_quirks wl
                  then (length nv = WL1271_NVS_FILE_SIZE \<or> length nv = LEGACY_NVS_FILE_SIZE)
                       \<and> byte_at (NVS_SECTION_SIZE + 4) nv \<noteq> 0
                  else length nv = WL128X_NVS_FILE_SIZE \<and> byte_at (NVS_SECTION_SIZE + 9) nv \<noteq> 0)
      in if dual then wl\<lparr>boot := (boot wl)\<lparr>enable_11a := True\<rparr>\<rparr> else wl)"

definition nvs_set_mac :: "bytes \<Rightarrow> bytes \<Rightarrow> bytes" where
  "nvs_set_mac mac nv =
     nv[11 := mac ! 0, 10 := mac ! 1, 6 := mac ! 2, 5 := mac ! 3, 4 := mac ! 4, 3 := mac ! 5]"

text \<open>Sending the tables behind the bursts, which start at an aligned offset.\<close>

definition nvs_tables :: "wl_env \<Rightarrow> bytes \<Rightarrow> nat \<Rightarrow> wl1271 \<Rightarrow> unit res \<times> wl1271" where
  "nvs_tables env nv ptr wl =
     (let start = ALIGN (ptr + 7) 4 in
      if NVS_SECTION_SIZE \<le> start then (Inl EILSEQ, wl)
      else let len = NVS_SECTION_SIZE - start in
        and_then (wlcore_set_partition env wl (ptable (boot wl) PART_WORK)) (\<lambda>_ wl1.
        and_then (kzalloc env len wl1) (\<lambda>_ wl2.
          wlcore_write_data env wl2 REG_CMD_MBOX_ADDRESS (buf_read start len nv) False)))"

definition wlcore_boot_upload_nvs :: "wl_env \<Rightarrow> wl1271 \<Rightarrow> unit res \<times> wl1271" where
  "wlcore_boot_upload_nvs env wl =
     (case nvs (boot wl) of
        None \<Rightarrow> (Inl ENODEV, wl)
      | Some nv \<Rightarrow>
          let wl1 = nvs_check_band wl nv
          in if \<not> nvs_size_ok wl1 nv then (Inl EILSEQ, wl1\<lparr>boot := (boot wl1)\<lparr>nvs := None\<rparr>\<rparr>)
             else let nv1 = nvs_set_mac (mac_address (boot wl1)) nv;
                      wl2 = wl1\<lparr>boot := (boot wl1)\<lparr>nvs := Some nv1\<rparr>\<rparr>
               in and_then (nvs_bursts env nv1 0 wl2) (\<lambda>ptr wl3. nvs_tables env nv1 ptr wl3))"

section \<open>Running the firmware\<close>

text \<open>At most \<open>n\<close> polls of the interrupt register for the end of the firmware's initialisation.\<close>

fun wait_init :: "wl_env \<Rightarrow> nat \<Rightarrow> wl1271 \<Rightarrow> unit res \<times> wl1271" where
  "wait_init env 0 wl = (Inl EIO, wl)"
| "wait_init env (Suc n) wl =
     and_then (wlcore_read_reg env (emit C_delay wl) REG_INTERRUPT_NO_CLEAR) (\<lambda>intr wl1.
       if intr = 0xffffffff then (Inl EIO, wl1)
       else if intr AND WL1271_ACX_INTR_INIT_COMPLETE \<noteq> 0
       then wlcore_write_reg env wl1 REG_INTERRUPT_ACK WL1271_ACX_INTR_INIT_COMPLETE
       else wait_init env n wl1)"

text \<open>The events the driver asks for, by bit number.\<close>

definition boot_event_mask :: u32 where
  "boot_event_mask =
     2 ^ 18 OR 2 ^ 19 OR 2 ^ 10 OR 2 ^ 15 OR 2 ^ 0 OR 2 ^ 14 OR 2 ^ 22 OR 2 ^ 29 OR 2 ^ 28 OR 2 ^ 21
      OR 2 ^ 27 OR 2 ^ 30 OR 2 ^ 31 OR 2 ^ 26 OR 2 ^ 20 OR 2 ^ 17"

definition boot_mailboxes :: "wl_env \<Rightarrow> wl1271 \<Rightarrow> unit res \<times> wl1271" where
  "boot_mailboxes env wl =
     and_then (wlcore_read_reg env wl REG_COMMAND_MAILBOX_PTR) (\<lambda>a wl1.
       let wl2 = wl1\<lparr>cmd_box_addr := unat a\<rparr> in
     and_then (wlcore_read_reg env wl2 REG_EVENT_MAILBOX_PTR) (\<lambda>b wl3.
       (Inr (), wl3\<lparr>mbox_ptr := (mbox_ptr wl3)(0 := unat b, 1 := unat (b + of_nat EVENT_MAILBOX_LEN))\<rparr>)))"

definition wlcore_boot_run_firmware :: "wlcore_ops \<Rightarrow> wl_env \<Rightarrow> wl1271 \<Rightarrow> unit res \<times> wl1271" where
  "wlcore_boot_run_firmware ops env wl =
     and_then (wlcore_set_partition env wl (ptable (boot wl) PART_BOOT)) (\<lambda>_ wl1.
     and_then (wl1271_boot_set_ecpu_ctrl env wl1 ECPU_CONTROL_HALT) (\<lambda>_ wl2.
     and_then (wlcore_read_reg env wl2 REG_CHIP_ID_B) (\<lambda>chip wl3.
       if chip \<noteq> chip_id wl3 then (Inl EIO, wl3) else
     and_then (wait_init env INIT_LOOP wl3) (\<lambda>_ wl4.
     and_then (boot_mailboxes env wl4) (\<lambda>_ wl5.
     and_then (wlcore_boot_static_data ops env wl5) (\<lambda>_ wl6.
     and_then (wl1271_event_unmask ops env (wl6\<lparr>event_mask := boot_event_mask\<rparr>)) (\<lambda>_ wl7.
       wlcore_set_partition env wl7 (ptable (boot wl7) PART_WORK))))))))"

end
