(* ===== verification/WlFwLoad.thy ===== *)
theory WlFwLoad
  imports WlBoot
begin

unbundle bit_operations_syntax

text \<open>
  The upload of the firmware followed into the memory of the chip: the log of bus writes is read as
  what it does to the window registers and the memory behind them, and a successful upload is shown to
  leave the image there.
\<close>

section \<open>The chip behind the bus\<close>

text \<open>
  The chip as the driver's writes shape it: the registers of the first window (its start in the
  chip's memory and its size) and the memory. A write to an address below the window's size lands in
  memory at the window's start; the other windows are not followed.
\<close>

record chip_view =
  win_start :: nat
  win_size :: nat
  chip_ram :: "nat \<Rightarrow> u8"

definition store :: "nat \<Rightarrow> bytes \<Rightarrow> (nat \<Rightarrow> u8) \<Rightarrow> nat \<Rightarrow> u8" where
  "store a bs m = (\<lambda>x. if a \<le> x \<and> x < a + length bs then bs ! (x - a) else m x)"

fun chip_call :: "wl_call \<Rightarrow> chip_view \<Rightarrow> chip_view" where
  "chip_call (C_write a bs fixed) c =
     (if a = HW_PARTITION_REGISTERS_ADDR + 4 then c\<lparr>win_start := unat (get_le32 0 bs)\<rparr>
      else if a = HW_PARTITION_REGISTERS_ADDR then c\<lparr>win_size := unat (get_le32 0 bs)\<rparr>
      else if \<not> fixed \<and> a + length bs \<le> win_size c
      then c\<lparr>chip_ram := store (win_start c + a) bs (chip_ram c)\<rparr>
      else c)"
| "chip_call x c = c"

definition chip_after :: "wl1271 \<Rightarrow> chip_view \<Rightarrow> chip_view" where
  "chip_after wl c = fold chip_call (log wl) c"

text \<open>The driver's idea of the window is the chip's.\<close>

definition window_known :: "wl1271 \<Rightarrow> chip_view \<Rightarrow> bool" where
  "window_known wl c \<longleftrightarrow>
     win_start (chip_after wl c) = part_start (part_mem (curr_part wl)) \<and>
     win_size (chip_after wl c) = part_size (part_mem (curr_part wl))"

lemma store_append: "store (a + length xs) ys (store a xs m) = store a (xs @ ys) m"
  by (rule ext) (auto simp: store_def nth_append)

lemma store_Nil [simp]: "store a [] m = m"
  by (rule ext) (auto simp: store_def)

lemma chip_after_emit: "chip_after (emit x wl) c = chip_call x (chip_after wl c)"
  by (simp add: chip_after_def emit_def)

lemma chip_after_cong: "log wl' = log wl \<Longrightarrow> chip_after wl' c = chip_after wl c"
  by (simp add: chip_after_def)

text \<open>What a successful operation of the bus leaves behind.\<close>

lemma raw_write_ok:
  "wlcore_raw_write env wl a bs f = (Inr u, wl') \<Longrightarrow> wl' = emit (C_write a bs f) wl"
  by (auto simp: wlcore_raw_write_def Let_def split: if_splits option.splits)

lemma write32_all_ok:
  "write32_all env wl ws = (Inr u, wl') \<Longrightarrow>
   wl' = fold (\<lambda>(a, v). emit (C_write a (le32 v) False)) ws wl"
proof (induction ws arbitrary: wl)
  case (Cons w ws)
  obtain a v where w: "w = (a, v)" by (cases w)
  obtain r wl1 where r: "wlcore_raw_write32 env wl a v = (r, wl1)" by (rule prod.exhaust)
  with Cons.prems have "r \<in> range Inr" by (cases r) (auto simp: w)
  then have "wl1 = emit (C_write a (le32 v) False) wl"
    using r raw_write_ok by (auto simp: wlcore_raw_write32_def)
  then show ?case using Cons r \<open>r \<in> range Inr\<close> by (auto simp: w)
qed simp

lemma get_le32_le32' [simp]: "get_le32 0 (le32 v) = v"
  using get_le32_le32 [of v "[]"] by simp

lemma set_partition_ok:
  assumes "wlcore_set_partition env wl p = (Inr u, wl')"
    and "part_start (part_mem p) < 2 ^ 32" "part_size (part_mem p) < HW_PARTITION_REGISTERS_ADDR"
  shows "window_known wl' c" and "curr_part wl' = p" and "boot wl' = boot wl"
    and "chip_ram (chip_after wl' c) = chip_ram (chip_after wl c)"
proof -
  have wl': "wl' = fold (\<lambda>(a, v). emit (C_write a (le32 v) False)) (partition_writes p) (wl\<lparr>curr_part := p\<rparr>)"
    using write32_all_ok assms(1) by (simp add: wlcore_set_partition_def)
  have c0: "chip_after (wl\<lparr>curr_part := p\<rparr>) c = chip_after wl c" by (rule chip_after_cong) simp
  show "curr_part wl' = p" "boot wl' = boot wl" by (simp_all add: wl' partition_writes_def emit_def)
  then show "window_known wl' c"
    using assms(2,3)
    by (simp add: window_known_def wl' partition_writes_def chip_after_emit c0 unat_of_nat_less)
  show "chip_ram (chip_after wl' c) = chip_ram (chip_after wl c)"
    using assms(3) by (simp add: wl' partition_writes_def chip_after_emit c0 unat_of_nat_less)
qed

lemma window_write_ok:
  assumes "wlcore_write env wl a bs False = (Inr u, wl')" and "window_known wl c"
    and "part_start (part_mem (curr_part wl)) \<le> a"
    and "a + length bs \<le> part_start (part_mem (curr_part wl)) + part_size (part_mem (curr_part wl))"
    and "a < part_start (part_mem (curr_part wl)) + part_size (part_mem (curr_part wl))"
    and "part_size (part_mem (curr_part wl)) < HW_PARTITION_REGISTERS_ADDR"
  shows "chip_ram (chip_after wl' c) = store a bs (chip_ram (chip_after wl c))"
    and "window_known wl' c" and "curr_part wl' = curr_part wl" and "boot wl' = boot wl"
proof -
  let ?s = "part_start (part_mem (curr_part wl))"
  have "wlcore_translate_addr wl a = (a - ?s, wl)"
    using assms(3,5) by (simp add: wlcore_translate_addr_def translate_addr_def in_window_def)
  then have wl': "wl' = emit (C_write (a - ?s) bs False) wl"
    using assms(1) raw_write_ok by (simp add: wlcore_write_def)
  have "a - ?s + length bs \<le> part_size (part_mem (curr_part wl))" using assms(3,4) by arith
  then have "chip_after wl' c = (chip_after wl c)\<lparr>chip_ram := store a bs (chip_ram (chip_after wl c))\<rparr>"
    using assms(2,3,5,6) by (auto simp: wl' chip_after_emit window_known_def)
  then show "chip_ram (chip_after wl' c) = store a bs (chip_ram (chip_after wl c))" "window_known wl' c"
    using assms(2) by (simp_all add: window_known_def wl' emit_def)
  show "curr_part wl' = curr_part wl" "boot wl' = boot wl" by (simp_all add: wl' emit_def)
qed

section \<open>The pieces of a chunk\<close>

text \<open>
  \<open>piece_inv\<close> holds before piece \<open>k\<close>: the window of size \<open>M\<close> was last moved to piece \<open>j\<close> and has
  room for piece \<open>k\<close>.
\<close>

definition piece_inv ::
  "chip_view \<Rightarrow> u32 \<Rightarrow> nat \<Rightarrow> nat \<Rightarrow> nat \<Rightarrow> int \<Rightarrow> wlcore_partition_set \<Rightarrow> wl1271 \<Rightarrow> bool" where
  "piece_inv c dest M j k limit part wl \<longleftrightarrow>
     window_known wl c \<and> curr_part wl = part
     \<and> part_size (part_mem (ptable (boot wl) PART_DOWN)) = M
     \<and> part_size (part_mem part) = M \<and> part_start (part_mem part) = unat dest + j * CHUNK_SIZE
     \<and> j \<le> k \<and> (k + 1) * CHUNK_SIZE \<le> j * CHUNK_SIZE + M \<and> limit \<le> int (j * CHUNK_SIZE + M)"

lemma chunk_addr_nowrap:
  assumes "unat dest + k * CHUNK_SIZE < 2 ^ 31"
  shows "unat (chunk_addr dest k) = unat dest + k * CHUNK_SIZE"
    and "sint (chunk_addr dest k) = int (unat dest + k * CHUNK_SIZE)"
proof -
  have u: "unat (of_nat (k * CHUNK_SIZE) :: u32) = k * CHUNK_SIZE"
    using assms by (intro unat_of_nat_less) simp
  show 1: "unat (chunk_addr dest k) = unat dest + k * CHUNK_SIZE"
    unfolding chunk_addr_def by (subst unat_add_lem [THEN iffD1]) (use assms u in simp_all)
  have "chunk_addr dest k = of_nat (unat dest + k * CHUNK_SIZE)"
    using arg_cong [OF 1, of "of_nat :: nat \<Rightarrow> u32"] by simp
  then have s: "sint (chunk_addr dest k) = signed_take_bit 31 (int (unat dest + k * CHUNK_SIZE))"
    by (simp only: signed_of_nat) simp
  have "signed_take_bit 31 (int n) = int n" if "n < 2 ^ 31" for n
    using that by (intro signed_take_bit_int_eq_self) simp_all
  then show "sint (chunk_addr dest k) = int (unat dest + k * CHUNK_SIZE)"
    using assms by (simp only: s)
qed

lemma move_window_ok:
  assumes "move_window env dest k limit part wl = (Inr (limit1, part1), wl1)"
    and inv: "piece_inv c dest M j k limit part wl"
    and nowrap: "unat dest + (k + 2) * CHUNK_SIZE < 2 ^ 31"
    and M: "2 * CHUNK_SIZE \<le> M" "M < HW_PARTITION_REGISTERS_ADDR"
  obtains j1 where "piece_inv c dest M j1 k limit1 part1 wl1"
    and "(k + 2) * CHUNK_SIZE \<le> j1 * CHUNK_SIZE + M"
    and "chip_ram (chip_after wl1 c) = chip_ram (chip_after wl c)"
    and "boot wl1 = boot wl"
proof (cases "sint (chunk_addr dest (k + 2)) > limit")
  case False
  then have e: "limit1 = limit" "part1 = part" "wl1 = wl" using assms(1) by (simp_all add: move_window_def)
  have "int (unat dest + (k + 2) * CHUNK_SIZE) \<le> int (j * CHUNK_SIZE + M)"
    using False inv chunk_addr_nowrap(2) [OF nowrap] by (simp only: piece_inv_def) linarith
  then have "(k + 2) * CHUNK_SIZE \<le> j * CHUNK_SIZE + M" by linarith
  then show ?thesis using that [of j] inv by (simp add: e)
next
  case True
  define p where "p = part\<lparr>part_mem := (part_mem part)\<lparr>part_start := unat (chunk_addr dest k)\<rparr>\<rparr>"
  obtain r wl2 where r: "wlcore_set_partition env wl p = (r, wl2)" by (rule prod.exhaust)
  with True assms(1) obtain u where u: "r = Inr u"
    by (cases r) (simp_all add: move_window_def p_def)
  have e: "part1 = p" "wl1 = wl2"
    "limit1 = int (k * CHUNK_SIZE + part_size (part_mem (ptable (boot wl2) PART_DOWN)))"
    using assms(1) True r u by (auto simp: move_window_def p_def)
  have st: "part_start (part_mem p) = unat dest + k * CHUNK_SIZE" "part_size (part_mem p) = M"
    using nowrap inv by (simp_all add: p_def piece_inv_def chunk_addr_nowrap)
  have p32: "part_start (part_mem p) < 2 ^ 32" "part_size (part_mem p) < HW_PARTITION_REGISTERS_ADDR"
    using st nowrap M by simp_all
  note ok = set_partition_ok [OF r [unfolded u] p32]
  have "piece_inv c dest M k k limit1 part1 wl1"
    using ok(1) [of c] ok(2,3) inv st M by (simp add: piece_inv_def e)
  then show ?thesis using that [of k] ok(3,4) M by (simp add: e)
qed

lemma upload_pieces_loads:
  assumes "upload_pieces env buf dest left k limit part wl = (Inr u, wl')"
    and "k + left = length buf div CHUNK_SIZE"
    and "unat dest + length buf + 2 * CHUNK_SIZE < 2 ^ 31"
    and M: "2 * CHUNK_SIZE \<le> M" "M < HW_PARTITION_REGISTERS_ADDR"
    and "piece_inv c dest M j k limit part wl"
  shows "chip_ram (chip_after wl' c) = store (unat dest + k * CHUNK_SIZE) (drop (k * CHUNK_SIZE) buf) (chip_ram (chip_after wl c))
    \<and> boot wl' = boot wl"
  using assms(1,2,6)
proof (induction left arbitrary: k limit part wl j)
  case 0
  have k: "k = length buf div CHUNK_SIZE" using 0 by simp
  have rem: "length buf = k * CHUNK_SIZE + length buf mod CHUNK_SIZE" by (simp add: k)
  have "length buf mod CHUNK_SIZE < CHUNK_SIZE" by simp
  have a: "unat (chunk_addr dest k) = unat dest + k * CHUNK_SIZE"
    using assms(3) rem by (intro chunk_addr_nowrap) linarith
  have bs: "buf_read (k * CHUNK_SIZE) (length buf mod CHUNK_SIZE) buf = drop (k * CHUNK_SIZE) buf"
    unfolding buf_read_def by (rule take_all) (use rem in simp)
  have w: "wlcore_write env wl (unat dest + k * CHUNK_SIZE) (drop (k * CHUNK_SIZE) buf) False = (Inr u, wl')"
    using 0(1) by (simp only: upload_pieces.simps a bs)
  have inv: "window_known wl c" "part_start (part_mem (curr_part wl)) = unat dest + j * CHUNK_SIZE"
    "part_size (part_mem (curr_part wl)) = M" "j \<le> k" "(k + 1) * CHUNK_SIZE \<le> j * CHUNK_SIZE + M"
    using 0(3) by (simp_all add: piece_inv_def)
  have "length (drop (k * CHUNK_SIZE) buf) < CHUNK_SIZE" using rem by (simp add: k)
  then show ?case using window_write_ok [OF w inv(1)] inv M by simp
next
  case (Suc left)
  obtain r wl1 where r: "move_window env dest k limit part wl = (r, wl1)" by (rule prod.exhaust)
  then obtain limit1 part1 where r': "r = Inr (limit1, part1)"
    using Suc.prems(1) by (cases r) auto
  obtain q wl2 where q: "wlcore_write env wl1 (unat (chunk_addr dest k)) (buf_read (k * CHUNK_SIZE) CHUNK_SIZE buf) False = (q, wl2)"
    by (rule prod.exhaust)
  then obtain v where q': "q = Inr v" using Suc.prems(1) r r' by (cases q) auto
  have rest: "upload_pieces env buf dest left (Suc k) limit1 part1 wl2 = (Inr u, wl')"
    using Suc.prems(1) r r' q q' by simp
  have len: "(k + 1) * CHUNK_SIZE \<le> length buf"
  proof -
    have "(k + 1) * CHUNK_SIZE \<le> length buf div CHUNK_SIZE * CHUNK_SIZE"
      by (rule mult_le_mono1) (use Suc.prems(2) in simp)
    also have "\<dots> \<le> length buf" by simp
    finally show ?thesis .
  qed
  have nw: "unat dest + (k + 2) * CHUNK_SIZE < 2 ^ 31" using assms(3) len by simp
  obtain j1 where inv: "piece_inv c dest M j1 k limit1 part1 wl1"
    and fit: "(k + 2) * CHUNK_SIZE \<le> j1 * CHUNK_SIZE + M"
    and same: "chip_ram (chip_after wl1 c) = chip_ram (chip_after wl c)" "boot wl1 = boot wl"
    by (rule move_window_ok [OF r [unfolded r'] Suc.prems(3) nw M])
  have a: "unat (chunk_addr dest k) = unat dest + k * CHUNK_SIZE"
    using nw by (intro chunk_addr_nowrap) simp
  have bl: "length (buf_read (k * CHUNK_SIZE) CHUNK_SIZE buf) = CHUNK_SIZE" using len by simp
  have w: "wlcore_write env wl1 (unat dest + k * CHUNK_SIZE) (buf_read (k * CHUNK_SIZE) CHUNK_SIZE buf) False = (Inr v, wl2)"
    using q q' a by simp
  have inv': "window_known wl1 c" "part_start (part_mem (curr_part wl1)) = unat dest + j1 * CHUNK_SIZE"
    "part_size (part_mem (curr_part wl1)) = M" "j1 \<le> k"
    using inv by (simp_all add: piece_inv_def)
  note ok = window_write_ok [OF w inv'(1)]
  have ok': "chip_ram (chip_after wl2 c) = store (unat dest + k * CHUNK_SIZE) (buf_read (k * CHUNK_SIZE) CHUNK_SIZE buf) (chip_ram (chip_after wl c))"
    "window_known wl2 c" "curr_part wl2 = curr_part wl1" "boot wl2 = boot wl"
    using ok inv' bl fit M same by simp_all
  have "piece_inv c dest M j1 (Suc k) limit1 part1 wl2"
    using inv fit ok' same by (simp add: piece_inv_def)
  from Suc.IH [OF rest _ this] Suc.prems(2)
  have "chip_ram (chip_after wl' c) = store (unat dest + Suc k * CHUNK_SIZE) (drop (Suc k * CHUNK_SIZE) buf) (chip_ram (chip_after wl2 c))"
    "boot wl' = boot wl2" by simp_all
  moreover have "drop (k * CHUNK_SIZE) buf = buf_read (k * CHUNK_SIZE) CHUNK_SIZE buf @ drop (Suc k * CHUNK_SIZE) buf"
    by (simp add: buf_read_def add.commute flip: drop_drop)
  ultimately show ?case
    using store_append [of "unat dest + k * CHUNK_SIZE" "buf_read (k * CHUNK_SIZE) CHUNK_SIZE buf"] bl
    by (simp add: ok' algebra_simps)
qed


section \<open>A chunk and the whole image\<close>

text \<open>The conditions on the download window, and on the chunks the image may hold.\<close>

definition down_window_ok :: "wl1271 \<Rightarrow> bool" where
  "down_window_ok wl \<longleftrightarrow>
     (let M = part_size (part_mem (ptable (boot wl) PART_DOWN))
      in 2 * CHUNK_SIZE \<le> M \<and> M < HW_PARTITION_REGISTERS_ADDR)"

definition chunk_ok :: "u32 \<times> bytes \<Rightarrow> bool" where
  "chunk_ok ch \<longleftrightarrow>
     length (snd ch) mod 4 = 0 \<and> length (snd ch) \<le> 300000
     \<and> unat (fst ch) + length (snd ch) + 2 * CHUNK_SIZE < 2 ^ 31"

text \<open>The file format: what a firmware file with the given chunks looks like.\<close>

definition fw_chunk :: "u32 \<times> bytes \<Rightarrow> bytes" where
  "fw_chunk ch = be32 (fst ch) @ be32 (of_nat (length (snd ch))) @ snd ch"

definition fw_file :: "(u32 \<times> bytes) list \<Rightarrow> bytes" where
  "fw_file chs = be32 (of_nat (length chs)) @ concat (map fw_chunk chs)"

definition load_chunks :: "(u32 \<times> bytes) list \<Rightarrow> (nat \<Rightarrow> u8) \<Rightarrow> nat \<Rightarrow> u8" where
  "load_chunks chs m = fold (\<lambda>ch. store (unat (fst ch)) (snd ch)) chs m"

lemma length_be32 [simp]: "length (be32 v) = 4"
  by (simp add: be32_def)

lemma be32_to_cpup_be32 [simp]: "be32_to_cpup (be32 v @ r) = v"
  by (simp add: be32_to_cpup_def be32_def)

lemma kzalloc_ok:
  "kzalloc env n wl = (Inr u, wl') \<Longrightarrow> wl' = emit (C_alloc n) wl"
  by (auto simp: kzalloc_def Let_def split: if_splits)

lemma and_then_InrE:
  assumes "and_then m f = (Inr y, wl')"
  obtains x wl1 where "m = (Inr x, wl1)" "f x wl1 = (Inr y, wl')"
  using assms by (cases m; cases "fst m") (auto simp: and_then_def)

lemma firmware_chunk_loads:
  assumes "wl1271_boot_upload_firmware_chunk env wl bs dest = (Inr u, wl')"
    and "chunk_ok (dest, bs)" and win: "down_window_ok wl"
  shows "chip_ram (chip_after wl' c) = store (unat dest) bs (chip_ram (chip_after wl c))"
    and "boot wl' = boot wl"
proof -
  let ?down = "ptable (boot wl) PART_DOWN"
  define part where "part = ?down\<lparr>part_mem := (part_mem ?down)\<lparr>part_start := unat dest\<rparr>\<rparr>"
  let ?wl1 = "emit (C_alloc CHUNK_SIZE) wl"
  have len4: "length bs mod 4 = 0" and nw: "unat dest + length bs + 2 * CHUNK_SIZE < 2 ^ 31"
    using assms(2) by (auto simp: chunk_ok_def)
  obtain v wl1 where a: "kzalloc env CHUNK_SIZE wl = (Inr v, wl1)"
    and r1: "(let down = ptable (boot wl1) PART_DOWN;
            part = down\<lparr>part_mem := (part_mem down)\<lparr>part_start := unat dest\<rparr>\<rparr>
        in and_then (wlcore_set_partition env wl1 part) (\<lambda>_ wl2.
             upload_pieces env bs dest (length bs div CHUNK_SIZE) 0
               (int (part_size (part_mem down))) part wl2)) = (Inr u, wl')"
    using assms(1) unfolding wl1271_boot_upload_firmware_chunk_def
    by (simp only: len4 simp_thms if_False) (erule and_then_InrE)
  have wl1: "wl1 = ?wl1" "boot ?wl1 = boot wl" using kzalloc_ok [OF a] by (simp_all add: emit_def)
  obtain w wl2 where p: "wlcore_set_partition env ?wl1 part = (Inr w, wl2)"
    and up: "upload_pieces env bs dest (length bs div CHUNK_SIZE) 0 (int (part_size (part_mem ?down))) part wl2 = (Inr u, wl')"
    using r1 unfolding wl1 Let_def part_def by (erule_tac and_then_InrE) simp
  have M: "2 * CHUNK_SIZE \<le> part_size (part_mem ?down)" "part_size (part_mem ?down) < HW_PARTITION_REGISTERS_ADDR"
    using win by (simp_all add: down_window_ok_def Let_def)
  have st: "part_start (part_mem part) = unat dest" "part_size (part_mem part) = part_size (part_mem ?down)"
    by (simp_all add: part_def)
  have "part_start (part_mem part) < 2 ^ 32" "part_size (part_mem part) < HW_PARTITION_REGISTERS_ADDR"
    using nw M by (simp_all add: st)
  note ok = set_partition_ok [OF p this]
  have "piece_inv c dest (part_size (part_mem ?down)) 0 0 (int (part_size (part_mem ?down))) part wl2"
    using ok(1) [of c] ok(2,3) st M by (simp add: piece_inv_def wl1)
  note up' = upload_pieces_loads [OF up _ nw M this]
  show "boot wl' = boot wl" using up' ok(3) by (simp add: wl1)
  show "chip_ram (chip_after wl' c) = store (unat dest) bs (chip_ram (chip_after wl c))"
    using up' ok(4) [of c] by (simp add: chip_after_emit)
qed

lemma upload_fw_chunks_Cons:
  assumes "chunk_ok (a, bs)"
  shows "upload_fw_chunks env (Suc n) (fw_chunk (a, bs) @ r) wl =
    and_then (wl1271_boot_upload_firmware_chunk env wl bs a) (\<lambda>_ wl1. upload_fw_chunks env n r wl1)"
proof -
  have "unat (of_nat (length bs) :: u32) = length bs" "length bs \<le> 300000"
    using assms by (simp_all add: chunk_ok_def unat_of_nat_less)
  then show ?thesis by (simp add: fw_chunk_def Let_def)
qed

lemma upload_fw_chunks_loads:
  assumes "upload_fw_chunks env (length chs) (concat (map fw_chunk chs) @ rest) wl = (Inr u, wl')"
    and "list_all chunk_ok chs" and "down_window_ok wl"
  shows "chip_ram (chip_after wl' c) = load_chunks chs (chip_ram (chip_after wl c))"
  using assms
proof (induction chs arbitrary: wl)
  case (Cons ch chs)
  obtain a bs where ch: "ch = (a, bs)" by (cases ch)
  have ok: "chunk_ok (a, bs)" using Cons.prems(2) by (simp add: ch)
  then obtain v wl1 where 1: "wl1271_boot_upload_firmware_chunk env wl bs a = (Inr v, wl1)"
    and 2: "upload_fw_chunks env (length chs) (concat (map fw_chunk chs) @ rest) wl1 = (Inr u, wl')"
    using Cons.prems(1) upload_fw_chunks_Cons [OF ok, of env "length chs" "concat (map fw_chunk chs) @ rest" wl]
    by (simp del: upload_fw_chunks.simps add: ch) (erule and_then_InrE, simp)
  note l = firmware_chunk_loads [OF 1 ok Cons.prems(3)]
  have "down_window_ok wl1" using Cons.prems(3) l(2) by (simp add: down_window_ok_def)
  from Cons.IH [OF 2 _ this] Cons.prems(2) show ?case
    by (simp add: load_chunks_def ch l(1))
qed (simp add: load_chunks_def)

section \<open>A bus that works\<close>

text \<open>
  \<open>bus_up env wl\<close>: transfers and allocations succeed and none has failed so far. \<open>succeeds\<close> says
  that an operation ends without an error and leaves the bus in this condition.
\<close>

definition bus_up :: "wl_env \<Rightarrow> wl1271 \<Rightarrow> bool" where
  "bus_up env wl \<longleftrightarrow>
     (\<forall>l. e_write env l = None) \<and> (\<forall>l. e_alloc env l) \<and> WL1271_FLAG_IO_FAILED \<notin> wl_flags wl"

definition succeeds :: "wl_env \<Rightarrow> 'a res \<times> wl1271 \<Rightarrow> bool" where
  "succeeds env m \<longleftrightarrow> isl (fst m) = False \<and> bus_up env (snd m)"

lemma succeedsE:
  assumes "succeeds env m" obtains x wl' where "m = (Inr x, wl')" "bus_up env wl'"
  using assms by (cases m; cases "fst m") (auto simp: succeeds_def)

lemma succeedsI [simp]: "succeeds env (Inr x, wl) \<longleftrightarrow> bus_up env wl"
  by (simp add: succeeds_def)

lemma succeeds_seq [intro]:
  "succeeds env m \<Longrightarrow> (\<And>x wl. m = (Inr x, wl) \<Longrightarrow> bus_up env wl \<Longrightarrow> succeeds env (f x wl)) \<Longrightarrow> succeeds env (and_then m f)"
  by (erule succeedsE) simp

lemma bus_up_emit [simp]: "bus_up env (emit c wl) = bus_up env wl"
  by (simp add: bus_up_def emit_def)

lemma succeeds_raw_write: "bus_up env wl \<Longrightarrow> succeeds env (wlcore_raw_write env wl a bs f)"
  by (simp add: wlcore_raw_write_def Let_def bus_up_def emit_def)

lemma succeeds_write: "bus_up env wl \<Longrightarrow> succeeds env (wlcore_write env wl a bs f)"
  by (auto simp: wlcore_write_def wlcore_translate_addr_def split: option.split intro: succeeds_raw_write)

lemma succeeds_kzalloc: "bus_up env wl \<Longrightarrow> succeeds env (kzalloc env n wl)"
  by (simp add: kzalloc_def Let_def bus_up_def emit_def)

lemma succeeds_write32_all: "bus_up env wl \<Longrightarrow> succeeds env (write32_all env wl ws)"
proof (induction ws arbitrary: wl)
  case (Cons w ws)
  obtain a v where w: "w = (a, v)" by (cases w)
  obtain x wl1 where "wlcore_raw_write32 env wl a v = (Inr x, wl1)" "bus_up env wl1"
    using succeeds_raw_write [OF Cons.prems] unfolding wlcore_raw_write32_def by (rule succeedsE)
  then show ?case using Cons.IH by (simp add: w)
qed simp

lemma succeeds_set_partition: "bus_up env wl \<Longrightarrow> succeeds env (wlcore_set_partition env wl p)"
  unfolding wlcore_set_partition_def by (rule succeeds_write32_all) (simp add: bus_up_def)

lemma succeeds_move_window: "bus_up env wl \<Longrightarrow> succeeds env (move_window env dest k limit part wl)"
  by (auto simp: move_window_def Let_def intro: succeeds_set_partition)

lemma succeeds_upload_pieces:
  "bus_up env wl \<Longrightarrow> succeeds env (upload_pieces env buf dest left k limit part wl)"
proof (induction left arbitrary: k limit part wl)
  case (Suc left)
  show ?case
    by (auto simp: split_beta intro!: succeeds_seq succeeds_move_window Suc succeeds_write)
qed (simp add: succeeds_write)

lemma succeeds_chunk:
  "bus_up env wl \<Longrightarrow> length bs mod 4 = 0 \<Longrightarrow> succeeds env (wl1271_boot_upload_firmware_chunk env wl bs a)"
  unfolding wl1271_boot_upload_firmware_chunk_def Let_def
  by (auto intro!: succeeds_seq succeeds_kzalloc succeeds_set_partition succeeds_upload_pieces)

lemma succeeds_upload_fw_chunks:
  "bus_up env wl \<Longrightarrow> list_all chunk_ok chs \<Longrightarrow>
   succeeds env (upload_fw_chunks env (length chs) (concat (map fw_chunk chs) @ rest) wl)"
proof (induction chs arbitrary: wl)
  case (Cons ch chs)
  obtain a bs where ch: "ch = (a, bs)" by (cases ch)
  have ok: "chunk_ok (a, bs)" "length bs mod 4 = 0" using Cons.prems(2) by (simp_all add: ch chunk_ok_def)
  show ?case
    using Cons by (auto simp del: upload_fw_chunks.simps simp add: ch upload_fw_chunks_Cons [OF ok(1)]
        intro!: succeeds_seq succeeds_chunk ok(2))
qed simp

section \<open>The image reaches the chip\<close>

definition demo_boot :: wl1271 where
  "demo_boot = demo_wl\<lparr>boot := (boot demo_wl)\<lparr>
     ptable := (\<lambda>_. \<lparr>part_mem = \<lparr>part_size = 0x14000, part_start = 0\<rparr>, part_reg = \<lparr>part_size = 0xBFFF, part_start = 0x810000\<rparr>,
       part_mem2 = \<lparr>part_size = 0, part_start = 0\<rparr>, part_mem3 = \<lparr>part_size = 0, part_start = 0\<rparr>\<rparr>),
     fw_image := fw_file [(0x40000, [1, 2, 3, 4]), (0x40002, [5, 6, 7, 8])]\<rparr>\<rparr>"

lemma upload_firmware_eq:
  assumes "fw_image (boot wl) = fw_file chs @ rest" and "length chs < 2 ^ 32"
  shows "wlcore_boot_upload_firmware env wl = upload_fw_chunks env (length chs) (concat (map fw_chunk chs) @ rest) wl"
proof -
  have "unat (of_nat (length chs) :: u32) = length chs" using assms(2) by (simp add: unat_of_nat_less)
  then show ?thesis by (simp add: wlcore_boot_upload_firmware_def Let_def assms(1) fw_file_def)
qed

text \<open>
  C5: For every firmware file and every behaviour of the bus: an upload of the firmware that reports
  success has left in the chip's memory exactly the chunks of the file, written one after the other at
  their addresses, and nothing else in the chip's memory has changed, although each chunk is cut into
  pieces and sent through a memory window smaller than the chunk that is moved along with it. An upload
  that reports an error means that a transfer or an allocation can fail. The download window must hold
  two pieces and stay below the partition registers, and the chunks must have a length divisible by
  four and addresses in the lower half of the address space.
\<close>

theorem firmware_image_loaded:
  assumes "fw_image (boot wl) = fw_file chs @ rest" and "list_all chunk_ok chs"
    and "length chs < 2 ^ 32" and "down_window_ok wl"
  shows "case wlcore_boot_upload_firmware env wl of
           (Inr _, wl') \<Rightarrow> chip_ram (chip_after wl' c) = load_chunks chs (chip_ram (chip_after wl c))
         | (Inl _, wl') \<Rightarrow> \<not> bus_up env wl"
proof -
  note e = upload_firmware_eq [OF assms(1,3)]
  obtain r wl' where r: "upload_fw_chunks env (length chs) (concat (map fw_chunk chs) @ rest) wl = (r, wl')"
    by (rule prod.exhaust)
  show ?thesis
  proof (cases r)
    case (Inl x)
    then show ?thesis
      using succeeds_upload_fw_chunks [OF _ assms(2), of env wl rest] by (auto simp: e r succeeds_def)
  next
    case (Inr u)
    then show ?thesis using upload_fw_chunks_loads [OF r [unfolded Inr] assms(2,4)] by (simp add: e r)
  qed
qed

theorem firmware_image_loaded_witness:
  "chip_ram (chip_after (snd (wlcore_boot_upload_firmware quiet_env demo_boot))
     \<lparr>win_start = 0, win_size = 0, chip_ram = (\<lambda>_. 0)\<rparr>) 0x40002 = 5"
proof -
  let ?c = "\<lparr>win_start = 0, win_size = 0, chip_ram = (\<lambda>_. 0)\<rparr>"
  let ?chs = "[(0x40000, [1, 2, 3, 4]), (0x40002, [5, 6, 7, 8])] :: (u32 \<times> bytes) list"
  have "case wlcore_boot_upload_firmware quiet_env demo_boot of
      (Inr _, wl') \<Rightarrow> chip_ram (chip_after wl' ?c) = load_chunks ?chs (chip_ram (chip_after demo_boot ?c))
    | (Inl _, wl') \<Rightarrow> \<not> bus_up quiet_env demo_boot"
    by (rule firmware_image_loaded [where rest = "[]"])
      (simp_all add: demo_boot_def chunk_ok_def down_window_ok_def demo_wl_def wl_zeroed_def)
  moreover have "bus_up quiet_env demo_boot"
    by (simp add: bus_up_def quiet_env_def demo_boot_def demo_wl_def wl_zeroed_def)
  moreover have "load_chunks ?chs m 0x40002 = 5" for m by (simp add: load_chunks_def store_def)
  ultimately show ?thesis by (simp split: prod.splits sum.splits)
qed

end
