(* ===== verification/WlNvs.thy ===== *)
theory WlNvs
  imports WlFwLoad
begin

unbundle bit_operations_syntax

text \<open>
  The upload of the calibration data against the layout of its file.
\<close>

section \<open>The calibration data is decoded as it was laid out\<close>

text \<open>
  The layout of the bursts before the tables: a burst is a length, a register address (relative to the
  register window, its lowest bit unused) and as many words.
\<close>

definition burst_bytes :: "u16 \<times> u32 list \<Rightarrow> bytes" where
  "burst_bytes b = [of_nat (length (snd b)), ucast (fst b), ucast (drop_bit 8 (fst b))] @ concat (map le32 (snd b))"

definition burst_ok :: "u16 \<times> u32 list \<Rightarrow> bool" where
  "burst_ok b \<longleftrightarrow> 0 < length (snd b) \<and> length (snd b) < 256"

text \<open>The register writes a list of bursts stands for.\<close>

fun word_writes :: "u32 \<Rightarrow> u32 list \<Rightarrow> (u32 \<times> u32) list" where
  "word_writes a [] = []"
| "word_writes a (w # ws) = (a, w) # word_writes (a + 4) ws"

definition burst_writes :: "u32 \<Rightarrow> (u16 \<times> u32 list) list \<Rightarrow> (u32 \<times> u32) list" where
  "burst_writes reg bs = concat (map (\<lambda>b. word_writes (ucast (fst b AND 0xFFFE) + reg) (snd b)) bs)"

fun write_regs :: "wl_env \<Rightarrow> (u32 \<times> u32) list \<Rightarrow> wl1271 \<Rightarrow> unit res \<times> wl1271" where
  "write_regs env [] wl = (Inr (), wl)"
| "write_regs env ((a, v) # ws) wl =
     and_then (wlcore_write32 env wl (unat a) v) (\<lambda>_ wl1. write_regs env ws wl1)"

lemma and_then_assoc:
  "and_then (and_then m f) g = and_then m (\<lambda>x wl. and_then (f x wl) g)"
  by (cases m; cases "fst m") (auto simp: and_then_def)

lemma and_then_eqI:
  "(\<And>x wl. m = (Inr x, wl) \<Longrightarrow> f x wl = g x wl) \<Longrightarrow> and_then m f = and_then m g"
  by (cases m; cases "fst m") (auto simp: and_then_def)

lemma write_regs_append:
  "write_regs env (xs @ ys) wl = and_then (write_regs env xs wl) (\<lambda>_ wl1. write_regs env ys wl1)"
  by (induction env xs wl rule: write_regs.induct) (auto simp: and_then_assoc intro!: and_then_eqI)

lemma write_regs_part: "write_regs env ws wl = (r, wl') \<Longrightarrow> curr_part wl' = curr_part wl"
proof (induction env ws wl arbitrary: r wl' rule: write_regs.induct)
  case (2 env a v ws wl)
  obtain q wl1 where q: "wlcore_write32 env wl (unat a) v = (q, wl1)" by (rule prod.exhaust)
  have "curr_part wl1 = curr_part wl"
    using io_step_write32 [of wl env "unat a" v] q by (auto elim!: io_stepE)
  then show ?case using 2 q by (cases q) auto
qed simp

lemma dest_bits:
  fixes d :: u16
  shows "((ucast (ucast d :: u8) AND 0xfe) OR push_bit 8 (ucast (ucast (drop_bit 8 d) :: u8)) :: u32) = ucast (d AND 0xFFFE)"
proof -
  have fe: "(0xfe :: u32) = mask 8 AND NOT 1" "(0xFFFE :: u16) = NOT 1" by (simp_all add: mask_eq_exp_minus_1)
  show ?thesis
    unfolding fe by (rule bit_word_eqI) (auto simp: bit_simps bit_1_iff, metis le_add_diff_inverse leI)
qed

lemma nvs_burst_writes:
  assumes "nv = pre @ concat (map le32 ws) @ rest"
    and "length pre + 4 * length ws \<le> NVS_SECTION_SIZE"
  shows "nvs_burst env nv (length ws) (length pre) a wl = write_regs env (word_writes a ws) wl"
  using assms
proof (induction ws arbitrary: pre a wl)
  case (Cons w ws)
  have g: "get_le32 (length pre) nv = w"
    using Cons.prems(1) by (simp add: get_le32_at)
  have "nvs_burst env nv (length ws) (length (pre @ le32 w)) (a + 4) wl1 = write_regs env (word_writes (a + 4) ws) wl1" for wl1
    using Cons.prems by (intro Cons.IH) simp_all
  then show ?case using Cons.prems(2) by (auto simp: g intro!: and_then_eqI)
qed simp

lemma nvs_bursts_writes:
  assumes "nv = pre @ concat (map burst_bytes bs) @ 0 # rest" and "list_all burst_ok bs"
    and "length pre + length (concat (map burst_bytes bs)) < NVS_SECTION_SIZE"
    and "of_nat (part_start (part_reg (curr_part wl))) = reg"
  shows "nvs_bursts env nv (length pre) wl =
    and_then (write_regs env (burst_writes reg bs) wl)
      (\<lambda>_ wl1. (Inr (length pre + length (concat (map burst_bytes bs))), wl1))"
  using assms
proof (induction bs arbitrary: pre wl)
  case Nil
  then show ?case by (subst nvs_bursts.simps) (simp add: byte_at_append byte_at_def burst_writes_def)
next
  case (Cons b bs)
  obtain d ws where b: "b = (d, ws)" by (cases b)
  have ok: "0 < length ws" "length ws < 256" using Cons.prems(2) by (simp_all add: b burst_ok_def)
  have len: "unat (of_nat (length ws) :: u8) = length ws" using ok by (simp add: unat_of_nat_less)
  let ?hd = "[of_nat (length ws), ucast d, ucast (drop_bit 8 d)] :: bytes"
  let ?tl = "concat (map burst_bytes bs) @ 0 # rest"
  have nv: "nv = (pre @ ?hd) @ concat (map le32 ws) @ ?tl"
    unfolding Cons.prems(1) by (simp add: b burst_bytes_def)
  have cl: "length (concat (map le32 ws)) = 4 * length ws" by (induction ws) simp_all
  have B: "byte_at (length pre) nv = of_nat (length ws)" "burst_dest nv (length pre) wl = ucast (d AND 0xFFFE) + reg"
    using Cons.prems(4) by (simp_all add: nv byte_at_def nth_append burst_dest_def dest_bits)
  have "of_nat (length ws) \<noteq> (0 :: u8)" using ok len by auto
  moreover have bound: "length pre + 3 + 4 * length ws < NVS_SECTION_SIZE"
    using Cons.prems(3) by (simp add: b burst_bytes_def cl)
  moreover have "nvs_burst env nv (length ws) (length pre + 3) a wl = write_regs env (word_writes a ws) wl" for a
    using nvs_burst_writes [OF nv, of env a wl] bound by (simp add: numeral_3_eq_3)
  ultimately have step: "nvs_bursts env nv (length pre) wl =
      and_then (write_regs env (word_writes (ucast (d AND 0xFFFE) + reg) ws) wl)
        (\<lambda>_ wl1. nvs_bursts env nv (length pre + 3 + 4 * length ws) wl1)"
    by (subst nvs_bursts.simps) (simp add: B len Let_def not_le [THEN iffD2])
  let ?w = "write_regs env (word_writes (ucast (d AND 0xFFFE) + reg) ws) wl"
  have pre': "length (pre @ burst_bytes b) = length pre + 3 + 4 * length ws" by (simp add: b burst_bytes_def cl)
  have IH: "nvs_bursts env nv (length pre + 3 + 4 * length ws) wl1 =
      and_then (write_regs env (burst_writes reg bs) wl1)
        (\<lambda>_ wl2. (Inr (length pre + length (concat (map burst_bytes (b # bs)))), wl2))"
    if "?w = (r, wl1)" for r wl1
  proof -
    have "nvs_bursts env nv (length (pre @ burst_bytes b)) wl1 =
      and_then (write_regs env (burst_writes reg bs) wl1)
        (\<lambda>_ wl2. (Inr (length (pre @ burst_bytes b) + length (concat (map burst_bytes bs))), wl2))"
      by (rule Cons.IH) (use Cons.prems write_regs_part [OF that] in simp_all)
    then show ?thesis by (simp add: pre') (simp add: b burst_bytes_def cl algebra_simps numeral_3_eq_3)
  qed
  have "burst_writes reg (b # bs) = word_writes (ucast (d AND 0xFFFE) + reg) ws @ burst_writes reg bs"
    by (simp add: burst_writes_def b)
  then show ?case
    unfolding step by (cases ?w; cases "fst ?w") (auto simp: write_regs_append and_then_assoc IH)
qed


text \<open>
  A calibration file for wl128x: a burst of the lower and one of the upper half of the address, the
  end mark, and zeroes; the device's own address is still to be filled in.
\<close>

definition demo_nvs :: bytes where
  "demo_nvs = [1, 0x6d, 0x54, 0, 0, 0, 0, 1, 0x71, 0x54, 0, 0, 0, 0] @ replicate 1099 0"

definition demo_nvs_wl :: wl1271 where
  "demo_nvs_wl = demo_boot\<lparr>boot := (boot demo_boot)\<lparr>nvs := Some demo_nvs, mac_address := [0x08, 0, 0x28, 1, 2, 3]\<rparr>\<rparr>"

text \<open>
  C17: A calibration file of an accepted size whose first section, after the device's address has been
  filled in, consists of bursts, an end mark and tables is uploaded exactly as it was laid out: the
  words of the bursts are written in order to consecutive registers from each burst's address (its
  lowest bit cleared, relative to the register window), and then the tables from the first aligned
  offset at least seven bytes behind the end mark are sent to the command mailbox. No byte of a burst
  is taken for anything else, and no well-formed file is rejected.
\<close>

theorem nvs_decoded:
  assumes "nvs (boot wl) = Some nv" and "nvs_size_ok (nvs_check_band wl nv) nv"
    and "nvs_set_mac (mac_address (boot wl)) nv = concat (map burst_bytes bs) @ 0 # rest"
    and "list_all burst_ok bs"
    and "length (concat (map burst_bytes bs)) < NVS_SECTION_SIZE"
    and "reg = of_nat (part_start (part_reg (curr_part wl)))"
  defines "nv1 \<equiv> nvs_set_mac (mac_address (boot wl)) nv"
  defines "wl1 \<equiv> (nvs_check_band wl nv)\<lparr>boot := (boot (nvs_check_band wl nv))\<lparr>nvs := Some nv1\<rparr>\<rparr>"
  shows "wlcore_boot_upload_nvs env wl =
    and_then (write_regs env (burst_writes reg bs) wl1)
      (\<lambda>_ wl2. nvs_tables env nv1 (length (concat (map burst_bytes bs))) wl2)"
proof -
  have same: "mac_address (boot (nvs_check_band wl nv)) = mac_address (boot wl)"
    "curr_part (nvs_check_band wl nv) = curr_part wl"
    by (simp_all add: nvs_check_band_def Let_def)
  have "nvs_bursts env nv1 (length ([] :: bytes)) wl1 =
      and_then (write_regs env (burst_writes reg bs) wl1)
        (\<lambda>_ wl2. (Inr (length ([] :: bytes) + length (concat (map burst_bytes bs))), wl2))"
    by (rule nvs_bursts_writes [where rest = rest])
      (use assms same in \<open>simp_all add: nv1_def wl1_def\<close>)
  then show ?thesis
    using assms(1,2) same
    by (simp add: wlcore_boot_upload_nvs_def Let_def nv1_def wl1_def and_then_assoc)
qed

theorem nvs_decoded_witness:
  "nvs_set_mac [0x08, 0, 0x28, 1, 2, 3] demo_nvs =
     concat (map burst_bytes [(0x546d, [0x28010203]), (0x5471, [0x0800])]) @ 0 # replicate 1098 0
   \<and> (\<exists>wl2. wlcore_boot_upload_nvs quiet_env demo_nvs_wl =
        and_then (write_regs quiet_env [(0x546c, 0x28010203), (0x5470, 0x0800)] wl2)
          (\<lambda>_ wl3. nvs_tables quiet_env (nvs_set_mac [0x08, 0, 0x28, 1, 2, 3] demo_nvs) 14 wl3))"
proof -
  let ?mac = "[0x08, 0, 0x28, 1, 2, 3] :: bytes"
  let ?bs = "[(0x546d, [0x28010203]), (0x5471, [0x0800])] :: (u16 \<times> u32 list) list"
  have "(1099 :: nat) = Suc 1098" by simp
  then have r: "replicate 1099 (0 :: u8) = 0 # replicate 1098 0" by (simp only: replicate_Suc)
  have 1: "nvs_set_mac ?mac demo_nvs = concat (map burst_bytes ?bs) @ 0 # replicate 1098 0"
    by (simp add: nvs_set_mac_def demo_nvs_def burst_bytes_def le32_def r)
  have w: "boot demo_nvs_wl = (boot demo_boot)\<lparr>nvs := Some demo_nvs, mac_address := ?mac\<rparr>"
    "wl_quirks demo_nvs_wl = {}" "part_start (part_reg (curr_part demo_nvs_wl)) = 0"
    by (simp_all add: demo_nvs_wl_def demo_boot_def demo_wl_def wl_zeroed_def part_zeroed_def Let_def)
  have ok: "nvs_size_ok (nvs_check_band demo_nvs_wl demo_nvs) demo_nvs"
    by (simp add: nvs_size_ok_def nvs_check_band_def w demo_nvs_def)
  have bw: "burst_writes 0 ?bs = [(0x546c, 0x28010203), (0x5470, 0x0800)]" by (simp add: burst_writes_def)
  have l: "length (concat (map burst_bytes ?bs)) = 14" by (simp add: burst_bytes_def)
  have mac: "mac_address (boot demo_nvs_wl) = ?mac" "nvs (boot demo_nvs_wl) = Some demo_nvs" by (simp_all add: w)
  have "list_all burst_ok ?bs" by (simp add: burst_ok_def)
  note nvs_decoded [OF mac(2) ok, unfolded mac, OF 1 this, unfolded l bw, of 0 quiet_env]
  then show ?thesis using 1 bw by (auto simp: w)
qed

end
