(* ===== verification/WlFwStart.thy ===== *)
theory WlFwStart
  imports WlFwLoad
begin

unbundle bit_operations_syntax

text \<open>
  The version of the firmware, as it is printed, parsed and compared, and what a successful start of the
  firmware means.
\<close>

section \<open>Versions of the firmware\<close>

text \<open>How a version is printed, and the order of versions.\<close>

fun dec :: "nat \<Rightarrow> bytes" where
  "dec n = (if n < 10 then [48 + of_nat n] else dec (n div 10) @ [48 + of_nat (n mod 10)])"

declare dec.simps [simp del]

fun dotted :: "nat list \<Rightarrow> bytes" where
  "dotted [] = []"
| "dotted [v] = dec v"
| "dotted (v # vs) = dec v @ 46 # dotted vs"

fun ver_ge :: "nat list \<Rightarrow> nat list \<Rightarrow> bool" where
  "ver_ge (a # as) (b # bs) \<longleftrightarrow> b < a \<or> b = a \<and> ver_ge as bs"
| "ver_ge as bs \<longleftrightarrow> as = bs"

definition ver_accepted :: "nat list \<Rightarrow> nat list \<Rightarrow> bool" where
  "ver_accepted v m \<longleftrightarrow> hd v = hd m \<and> ver_ge (tl v) (tl m)"

lemma digit_unat: "d < 10 \<Longrightarrow> unat (48 + of_nat d :: u8) = 48 + d"
proof -
  assume d: "d < 10"
  have "48 + of_nat d = (of_nat (48 + d) :: u8)" by simp
  then show ?thesis using d unat_of_nat_less [of "48 + d", where ?'a = 8] by simp
qed

lemma isdigit_digit: "d < 10 \<Longrightarrow> isdigit (48 + of_nat d)"
  by (simp add: isdigit_def word_le_nat_alt digit_unat)

lemma dec_isdigit: "list_all isdigit (dec n)"
proof (induction n rule: dec.induct)
  case (1 n)
  then show ?case by (cases "n < 10") (simp_all add: dec.simps [of n] isdigit_digit)
qed

lemma dec_not_Nil [simp]: "dec n \<noteq> []"
  by (simp add: dec.simps [of n])

lemma decimal_value_snoc: "decimal_value (ds @ [d]) = 10 * decimal_value ds + (unat d - 48)"
  by (simp add: decimal_value_def)

lemma decimal_value_dec: "decimal_value (dec n) = n"
proof (induction n rule: dec.induct)
  case (1 n)
  show ?case
  proof (cases "n < 10")
    case True
    then show ?thesis by (simp add: dec.simps [of n] decimal_value_def digit_unat)
  next
    case False
    then show ?thesis using 1 by (simp add: dec.simps [of n] decimal_value_snoc digit_unat)
  qed
qed

lemma takeWhile_dropWhile_prefix:
  assumes "list_all P xs" and "ys \<noteq> [] \<Longrightarrow> \<not> P (hd ys)"
  shows "takeWhile P (xs @ ys) = xs" and "dropWhile P (xs @ ys) = ys"
  using assms by (induction xs) (cases ys; simp_all)+

lemma scan_u_dec:
  assumes "n < 2 ^ 32" and "r \<noteq> [] \<Longrightarrow> \<not> isdigit (hd r)"
  shows "scan_u (dec n @ r) = Some (n, r)"
proof -
  obtain d ds where d: "dec n = d # ds" by (cases "dec n") simp_all
  then have "isdigit d" using dec_isdigit [of n] by simp
  then have "\<not> isspace d" by (auto simp: isdigit_def isspace_def word_le_nat_alt)
  then have "dropWhile isspace (dec n @ r) = dec n @ r" by (simp add: d)
  then show ?thesis
    using takeWhile_dropWhile_prefix [OF dec_isdigit [of n] assms(2)] assms(1)
    by (simp add: scan_u_def Let_def decimal_value_dec)
qed

lemma scan_dotted_dotted:
  "vs \<noteq> [] \<Longrightarrow> list_all (\<lambda>v. v < 2 ^ 32) vs \<Longrightarrow> scan_dotted (length vs) (dotted vs) = Some vs"
proof (induction vs rule: dotted.induct)
  case (2 v)
  then show ?case using scan_u_dec [of v "[]"] by simp
next
  case (3 v w vs)
  have "scan_u (dec v @ 46 # dotted (w # vs)) = Some (v, 46 # dotted (w # vs))"
    by (rule scan_u_dec) (use 3 in \<open>simp_all add: isdigit_def word_le_nat_alt\<close>)
  then show ?case using 3 by simp
qed simp

lemma no_zero_in_dotted: "0 \<notin> set (dotted vs)"
proof -
  have "0 \<notin> set (dec n)" for n using dec_isdigit [of n] by (auto simp: list_all_iff isdigit_def)
  then show ?thesis by (induction vs rule: dotted.induct) auto
qed

lemma length_scan_dotted: "scan_dotted n s = Some vs \<Longrightarrow> length vs = n"
  by (induction n s arbitrary: vs rule: scan_dotted.induct)
    (auto split: option.splits list.splits if_splits)

lemma list5E:
  assumes "length xs = 5" obtains a b c d e where "xs = [a, b, c, d, e]"
  using assms by (auto simp: length_Suc_conv eval_nat_numeral)

lemma validate_iff:
  assumes "length (fw_ver (boot wl)) = 5" and "length (min_fw_ver (boot wl)) = 5"
  shows "wlcore_validate_fw_ver wl = Inr () \<longleftrightarrow> ver_accepted (fw_ver (boot wl)) (min_fw_ver (boot wl))"
proof -
  obtain a b c d e where v: "fw_ver (boot wl) = [a, b, c, d, e]" using assms(1) by (rule list5E)
  obtain a' b' c' d' e' where m: "min_fw_ver (boot wl) = [a', b', c', d', e']" using assms(2) by (rule list5E)
  show ?thesis by (auto simp: wlcore_validate_fw_ver_def Let_def v m ver_accepted_def)
qed

lemma identify_fw_keeps:
  assumes "ops \<in> wl_chips"
  obtains wl' where "wlcore_identify_fw ops wl = (Inr (), wl')" and "boot wl' = boot wl"
    and "curr_part wl' = curr_part wl" and "mbox_ptr wl' = mbox_ptr wl"
proof -
  have "wlcore_identify_fw ops wl = (Inr (), snd (wlcore_identify_fw ops wl))
    \<and> boot (snd (wlcore_identify_fw ops wl)) = boot wl \<and> curr_part (snd (wlcore_identify_fw ops wl)) = curr_part wl
    \<and> mbox_ptr (snd (wlcore_identify_fw ops wl)) = mbox_ptr wl"
    using assms
    by (auto simp: wlcore_identify_fw_def wl127x_ops_def wl12xx_ops_def wl18xx_ops_def wl12xx_identify_fw_def Let_def)
  then show ?thesis using that by blast
qed

lemma takeWhile_nonzero: "0 \<notin> set s \<Longrightarrow> takeWhile (\<lambda>b. b \<noteq> (0 :: u8)) (s @ 0 # r) = s"
  by (induction s) auto

lemma strncpy_terminated:
  assumes "0 \<notin> set s" and "length s < n"
  shows "strncpy (s @ 0 # r) n = s @ replicate (n - length s) 0"
proof -
  have "take n (s @ 0 # r) = s @ 0 # take (n - length s - 1) r"
    using assms(2) by (simp add: take_Cons')
  then show ?thesis by (simp add: strncpy_def Let_def takeWhile_nonzero [OF assms(1)])
qed

definition printed_version :: "bytes \<Rightarrow> nat list \<Rightarrow> bytes" where
  "printed_version pre v = (pre @ dotted v) @ replicate (32 - length (pre @ dotted v)) 0"

lemma parse_printed:
  assumes "static_data = hdr @ pre @ dotted v @ 0 # rest"
    and "length hdr = 8" "length pre = 4" "0 \<notin> set pre"
    and "length v = 5" "list_all (\<lambda>x. x < 2 ^ 32) v" "length (dotted v) < 28"
  shows "wlcore_boot_parse_fw_ver ops wl static_data =
    wlcore_identify_fw ops (wl\<lparr>boot := (boot wl)\<lparr>fw_ver_str := printed_version pre v, fw_ver := v\<rparr>\<rparr>)"
proof -
  let ?n = "32 - length (pre @ dotted v)"
  have "strncpy ((pre @ dotted v) @ 0 # rest) 32 = (pre @ dotted v) @ replicate ?n 0"
    using assms no_zero_in_dotted [of v] by (intro strncpy_terminated) auto
  then have s: "(strncpy (drop 8 static_data) 32)[31 := 0] = printed_version pre v"
    unfolding printed_version_def using assms
    by (simp add: list_update_append) (simp add: list_update_same_conv)
  have n: "replicate ?n (0 :: u8) = 0 # replicate (?n - 1) 0"
    using assms by (cases ?n) simp_all
  have t: "takeWhile (\<lambda>b. b \<noteq> 0) (drop 4 (printed_version pre v)) = dotted v"
    unfolding printed_version_def n by (simp add: takeWhile_nonzero no_zero_in_dotted assms(3))
  have "scan_dotted 5 (dotted v) = Some v" using scan_dotted_dotted [of v] assms by (cases v) simp_all
  then show ?thesis by (simp add: wlcore_boot_parse_fw_ver_def Let_def s t)
qed

text \<open>
  C19: A firmware that announces itself with four characters and a version of five numbers is understood
  on every chip: the version the driver stores is the one that was printed, and it is accepted exactly
  when it is for the same chip as the minimum the driver wants and is, compared component by component
  from the left, not older than that minimum.
\<close>

theorem fw_version_checked:
  assumes ops: "ops \<in> wl_chips" and "static_data = hdr @ pre @ dotted v @ 0 # rest"
    and "length hdr = 8" "length pre = 4" "0 \<notin> set pre"
    and "length v = 5" "list_all (\<lambda>x. x < 2 ^ 32) v" "length (dotted v) < 28"
    and "length (min_fw_ver (boot wl)) = 5"
  shows "\<exists>wl'. wlcore_boot_parse_fw_ver ops wl static_data = (Inr (), wl')
      \<and> fw_ver (boot wl') = v
      \<and> (wlcore_validate_fw_ver wl' = Inr () \<longleftrightarrow> ver_accepted v (min_fw_ver (boot wl)))"
proof -
  define wl1 where "wl1 = wl\<lparr>boot := (boot wl)\<lparr>fw_ver_str := printed_version pre v, fw_ver := v\<rparr>\<rparr>"
  obtain wl' where i: "wlcore_identify_fw ops wl1 = (Inr (), wl')" "boot wl' = boot wl1"
    by (rule identify_fw_keeps [OF ops])
  have "wlcore_boot_parse_fw_ver ops wl static_data = (Inr (), wl')"
    using i(1) parse_printed [OF assms(2-8)] by (simp add: wl1_def)
  moreover have "fw_ver (boot wl') = v" "min_fw_ver (boot wl') = min_fw_ver (boot wl)"
    by (simp_all add: i(2) wl1_def)
  ultimately show ?thesis using validate_iff [of wl'] assms by (intro exI [of _ wl']) simp
qed

theorem fw_version_checked_witness:
  "\<exists>wl'. wlcore_boot_parse_fw_ver wl18xx_ops (demo_boot\<lparr>boot := (boot demo_boot)\<lparr>min_fw_ver := [8, 5, 0, 0, 10]\<rparr>\<rparr>)
       (replicate 8 0 @ [82, 101, 118, 32] @ [56, 46, 53, 46, 49, 46, 48, 46, 50] @ 0 # replicate 46 0) = (Inr (), wl')
     \<and> fw_ver (boot wl') = [8, 5, 1, 0, 2] \<and> wlcore_validate_fw_ver wl' = Inr ()"
proof -
  let ?wl = "demo_boot\<lparr>boot := (boot demo_boot)\<lparr>min_fw_ver := [8, 5, 0, 0, 10]\<rparr>\<rparr>"
  have d: "dotted [8, 5, 1, 0, 2] = [56, 46, 53, 46, 49, 46, 48, 46, 50]" by (simp add: dec.simps)
  have "\<exists>wl'. wlcore_boot_parse_fw_ver wl18xx_ops ?wl
         (replicate 8 0 @ [82, 101, 118, 32] @ dotted [8, 5, 1, 0, 2] @ 0 # replicate 46 0) = (Inr (), wl')
      \<and> fw_ver (boot wl') = [8, 5, 1, 0, 2]
      \<and> (wlcore_validate_fw_ver wl' = Inr () \<longleftrightarrow> ver_accepted [8, 5, 1, 0, 2] (min_fw_ver (boot ?wl)))"
    by (rule fw_version_checked [where hdr = "replicate 8 0" and pre = "[82, 101, 118, 32]" and rest = "replicate 46 0"])
      (simp_all add: dec.simps)
  then show ?thesis unfolding d by (simp add: ver_accepted_def)
qed

section \<open>A started firmware\<close>

text \<open>The members that commands and register accesses leave alone.\<close>

definition boot_view :: "wl1271 \<Rightarrow> wl1271_boot \<times> wlcore_partition_set \<times> (nat \<Rightarrow> nat) \<times> u32 \<times> u32" where
  "boot_view wl = (boot wl, curr_part wl, mbox_ptr wl, event_mask wl, chip_id wl)"

lemma cmd_step_boot_view: "cmd_step wl wl' \<Longrightarrow> boot_view wl' = boot_view wl"
  by (auto simp: boot_view_def elim!: cmd_stepE)

lemma set_partition_view:
  assumes "wlcore_set_partition env wl p = (r, wl')"
  shows "boot_view wl' = boot_view (wl\<lparr>curr_part := p\<rparr>)"
proof -
  have "boot_view (snd (write32_all env wl ws)) = boot_view wl" for wl ws
  proof (induction ws arbitrary: wl)
    case (Cons w ws)
    obtain a v where w: "w = (a, v)" by (cases w)
    obtain q wl1 where q: "wlcore_raw_write32 env wl a v = (q, wl1)" by (rule prod.exhaust)
    then have "boot_view wl1 = boot_view wl"
      using io_step_raw_write32 [of wl env a v] by (auto dest!: io_step_cmd_step cmd_step_boot_view)
    then show ?case using Cons q by (cases q) (simp_all add: w)
  qed simp
  from this [of "wl\<lparr>curr_part := p\<rparr>" "partition_writes p"] assms show ?thesis
    by (simp add: wlcore_set_partition_def)
qed

lemma wait_init_io: "io_step wl (snd (wait_init env n wl))"
proof (induction n arbitrary: wl)
  case (Suc n)
  have "io_step (emit C_delay wl) (snd (wait_init env (Suc n) wl))"
    unfolding wait_init.simps
    by (rule io_step_seq) (auto intro: io_step_read_reg io_step_write_reg Suc)
  then show ?case by (rule io_step_trans [rotated]) simp
qed simp

lemma ecpu_io: "io_step wl (snd (wl1271_boot_set_ecpu_ctrl env wl f))"
  unfolding wl1271_boot_set_ecpu_ctrl_def by (rule io_step_seq) (auto intro: io_step_read_reg io_step_write_reg)

context chip_bus
begin

lemma event_unmask_step: "cmd_step wl (snd (wl1271_event_unmask ops env wl))"
  unfolding wl1271_event_unmask_def wl1271_acx_event_mbox_mask_def
  by (intro cmd_step_seq cmd_step_kzalloc cmd_configure_step)

end

lemma parse_fw_ver_shape:
  assumes ops: "ops \<in> wl_chips" and "wlcore_boot_parse_fw_ver ops wl sd = (Inr u, wl')"
  obtains w v where "boot wl' = (boot wl)\<lparr>fw_ver_str := w, fw_ver := v\<rparr>"
    and "length v = 5" and "mbox_ptr wl' = mbox_ptr wl"
proof -
  let ?s = "(strncpy (drop 8 sd) 32)[31 := 0]"
  obtain v where v: "scan_dotted 5 (takeWhile (\<lambda>b. b \<noteq> 0) (drop 4 ?s)) = Some v"
    using assms(2) by (auto simp: wlcore_boot_parse_fw_ver_def Let_def split: option.splits)
  define wl1 where "wl1 = wl\<lparr>boot := (boot wl)\<lparr>fw_ver_str := ?s, fw_ver := v\<rparr>\<rparr>"
  obtain wl2 where i: "wlcore_identify_fw ops wl1 = (Inr (), wl2)" "boot wl2 = boot wl1" "mbox_ptr wl2 = mbox_ptr wl1"
    by (rule identify_fw_keeps [OF ops])
  then have "wl' = wl2" using assms(2) v by (simp add: wlcore_boot_parse_fw_ver_def Let_def wl1_def)
  then show ?thesis using that [where w = ?s and v = v] i length_scan_dotted [OF v] by (simp add: wl1_def)
qed

lemma static_data_accepts:
  assumes ops: "ops \<in> wl_chips" and "length (min_fw_ver (boot wl)) = 5"
    and "wlcore_boot_static_data ops env wl = (Inr u, wl')"
  shows "ver_accepted (fw_ver (boot wl')) (min_fw_ver (boot wl))"
    and "ptable (boot wl') = ptable (boot wl)" and "mbox_ptr wl' = mbox_ptr wl"
    and "min_fw_ver (boot wl') = min_fw_ver (boot wl)"
proof -
  let ?len = "64 + static_data_priv_len (boot wl)"
  obtain a wl1 where 1: "kzalloc env ?len wl = (Inr a, wl1)"
    and r1: "and_then (wlcore_read env wl1 (cmd_box_addr wl1) ?len False) (\<lambda>static_data wl2.
      and_then (wlcore_boot_parse_fw_ver ops wl2 static_data) (\<lambda>_ wl3.
      and_then (wlcore_validate_fw_ver wl3, wl3) (\<lambda>_ wl4.
        wlcore_handle_static_data ops wl4 static_data))) = (Inr u, wl')"
    using assms(3) unfolding wlcore_boot_static_data_def Let_def by (rule and_then_InrE)
  obtain sd wl2 where 2: "wlcore_read env wl1 (cmd_box_addr wl1) ?len False = (Inr sd, wl2)"
    and r2: "and_then (wlcore_boot_parse_fw_ver ops wl2 sd) (\<lambda>_ wl3.
      and_then (wlcore_validate_fw_ver wl3, wl3) (\<lambda>_ wl4.
        wlcore_handle_static_data ops wl4 sd)) = (Inr u, wl')"
    using r1 by (rule and_then_InrE)
  obtain b wl3 where 3: "wlcore_boot_parse_fw_ver ops wl2 sd = (Inr b, wl3)"
    and r3: "and_then (wlcore_validate_fw_ver wl3, wl3) (\<lambda>_ wl4.
        wlcore_handle_static_data ops wl4 sd) = (Inr u, wl')"
    using r2 by (rule and_then_InrE)
  have 4: "wlcore_validate_fw_ver wl3 = Inr ()" and h: "wlcore_handle_static_data ops wl3 sd = (Inr u, wl')"
    using r3 by (auto elim!: and_then_InrE)
  have v2: "boot_view wl2 = boot_view wl"
    using kzalloc_ok [OF 1] cmd_step_boot_view [OF io_step_cmd_step [OF io_step_read [of wl1 env "cmd_box_addr wl1" ?len False]]] 2
    by (simp add: boot_view_def emit_def)
  obtain w v where w: "boot wl3 = (boot wl2)\<lparr>fw_ver_str := w, fw_ver := v\<rparr>"
    "length v = 5" "mbox_ptr wl3 = mbox_ptr wl2"
    using parse_fw_ver_shape [OF ops 3] .
  have fin: "fw_ver (boot wl') = fw_ver (boot wl3)" "min_fw_ver (boot wl') = min_fw_ver (boot wl3)"
    "ptable (boot wl') = ptable (boot wl3)" "mbox_ptr wl' = mbox_ptr wl3"
    using h ops
    by (auto simp: wlcore_handle_static_data_def wl127x_ops_def wl12xx_ops_def wl18xx_ops_def
        wl18xx_handle_static_data_def Let_def emit_def)
  have m: "min_fw_ver (boot wl3) = min_fw_ver (boot wl)" "ptable (boot wl3) = ptable (boot wl)" "mbox_ptr wl3 = mbox_ptr wl"
    using v2 w by (simp_all add: boot_view_def)
  show "ver_accepted (fw_ver (boot wl')) (min_fw_ver (boot wl))"
  proof -
    have "length (fw_ver (boot wl3)) = 5" "length (min_fw_ver (boot wl3)) = 5" using w(1,2) m(1) assms(2) by simp_all
    then show ?thesis using validate_iff [of wl3] 4 m(1) by (simp add: fin)
  qed
  show "ptable (boot wl') = ptable (boot wl)" "mbox_ptr wl' = mbox_ptr wl"
    "min_fw_ver (boot wl') = min_fw_ver (boot wl)" by (simp_all add: fin m)
qed

lemma mailboxes_view:
  assumes "boot_mailboxes env wl = (Inr u, wl')"
  shows "boot wl' = boot wl" and "mbox_ptr wl' 1 = (mbox_ptr wl' 0 + EVENT_MAILBOX_LEN) mod 2 ^ 32"
proof -
  obtain a wl1 where 1: "wlcore_read_reg env wl REG_COMMAND_MAILBOX_PTR = (Inr a, wl1)"
    and r1: "and_then (wlcore_read_reg env (wl1\<lparr>cmd_box_addr := unat a\<rparr>) REG_EVENT_MAILBOX_PTR) (\<lambda>b wl3.
       (Inr (), wl3\<lparr>mbox_ptr := (mbox_ptr wl3)(0 := unat b, 1 := unat (b + of_nat EVENT_MAILBOX_LEN))\<rparr>)) = (Inr u, wl')"
    using assms unfolding boot_mailboxes_def Let_def by (rule and_then_InrE)
  obtain b wl3 where 2: "wlcore_read_reg env (wl1\<lparr>cmd_box_addr := unat a\<rparr>) REG_EVENT_MAILBOX_PTR = (Inr b, wl3)"
    and wl': "wl' = wl3\<lparr>mbox_ptr := (mbox_ptr wl3)(0 := unat b, 1 := unat (b + of_nat EVENT_MAILBOX_LEN))\<rparr>"
    using r1 by (auto elim!: and_then_InrE)
  have "boot wl1 = boot wl" using io_step_read_reg [of wl env REG_COMMAND_MAILBOX_PTR] 1 by (auto elim!: io_stepE)
  moreover have "boot wl3 = boot wl1"
    using io_step_read_reg [of "wl1\<lparr>cmd_box_addr := unat a\<rparr>" env REG_EVENT_MAILBOX_PTR] 2 by (auto elim!: io_stepE)
  ultimately show "boot wl' = boot wl" by (simp add: wl')
  show "mbox_ptr wl' 1 = (mbox_ptr wl' 0 + EVENT_MAILBOX_LEN) mod 2 ^ 32"
    by (simp add: wl' unat_word_ariths)
qed

definition boot_rest :: "wlcore_ops \<Rightarrow> wl_env \<Rightarrow> wl1271 \<Rightarrow> unit res \<times> wl1271" where
  "boot_rest ops env wl3 =
     and_then (wait_init env INIT_LOOP wl3) (\<lambda>_ wl4.
     and_then (boot_mailboxes env wl4) (\<lambda>_ wl5.
     and_then (wlcore_boot_static_data ops env wl5) (\<lambda>_ wl6.
     and_then (wl1271_event_unmask ops env (wl6\<lparr>event_mask := boot_event_mask\<rparr>)) (\<lambda>_ wl7.
       wlcore_set_partition env wl7 (ptable (boot wl7) PART_WORK)))))"

lemma boot_rest_started:
  assumes ops: "ops \<in> wl_chips" and len: "length (min_fw_ver (boot wl)) = 5"
    and run: "boot_rest ops env wl = (Inr u, wl')"
  shows "ver_accepted (fw_ver (boot wl')) (min_fw_ver (boot wl))
    \<and> event_mask wl' = boot_event_mask
    \<and> mbox_ptr wl' 1 = (mbox_ptr wl' 0 + EVENT_MAILBOX_LEN) mod 2 ^ 32
    \<and> curr_part wl' = ptable (boot wl) PART_WORK"
proof -
  obtain x4 wl4 where 4: "wait_init env INIT_LOOP wl = (Inr x4, wl4)"
    and r4: "and_then (boot_mailboxes env wl4) (\<lambda>_ wl5.
     and_then (wlcore_boot_static_data ops env wl5) (\<lambda>_ wl6.
     and_then (wl1271_event_unmask ops env (wl6\<lparr>event_mask := boot_event_mask\<rparr>)) (\<lambda>_ wl7.
       wlcore_set_partition env wl7 (ptable (boot wl7) PART_WORK)))) = (Inr u, wl')"
    using run unfolding boot_rest_def by (rule and_then_InrE)
  obtain x5 wl5 where 5: "boot_mailboxes env wl4 = (Inr x5, wl5)"
    and r5: "and_then (wlcore_boot_static_data ops env wl5) (\<lambda>_ wl6.
     and_then (wl1271_event_unmask ops env (wl6\<lparr>event_mask := boot_event_mask\<rparr>)) (\<lambda>_ wl7.
       wlcore_set_partition env wl7 (ptable (boot wl7) PART_WORK))) = (Inr u, wl')"
    using r4 by (rule and_then_InrE)
  obtain x6 wl6 where 6: "wlcore_boot_static_data ops env wl5 = (Inr x6, wl6)"
    and r6: "and_then (wl1271_event_unmask ops env (wl6\<lparr>event_mask := boot_event_mask\<rparr>)) (\<lambda>_ wl7.
       wlcore_set_partition env wl7 (ptable (boot wl7) PART_WORK)) = (Inr u, wl')"
    using r5 by (rule and_then_InrE)
  obtain x7 wl7 where 7: "wl1271_event_unmask ops env (wl6\<lparr>event_mask := boot_event_mask\<rparr>) = (Inr x7, wl7)"
    and r7: "wlcore_set_partition env wl7 (ptable (boot wl7) PART_WORK) = (Inr u, wl')"
    using r6 by (rule and_then_InrE)
  have b4: "boot wl4 = boot wl" using wait_init_io [of wl env INIT_LOOP] 4 by (auto elim!: io_stepE)
  note m = mailboxes_view [OF 5]
  have b5: "length (min_fw_ver (boot wl5)) = 5" using len b4 m(1) by simp
  note sd = static_data_accepts [OF ops b5 6]
  have v7: "boot_view wl7 = boot_view (wl6\<lparr>event_mask := boot_event_mask\<rparr>)"
    using cmd_step_boot_view [OF chip_bus.event_unmask_step [OF chip_bus_all [OF ops],
        of "wl6\<lparr>event_mask := boot_event_mask\<rparr>" env]] 7 by simp
  show ?thesis
    using sd m b4 v7 set_partition_view [OF r7] by (simp add: boot_view_def)
qed

lemma run_firmware_started:
  assumes ops: "ops \<in> wl_chips" and len: "length (min_fw_ver (boot wl)) = 5"
    and run: "wlcore_boot_run_firmware ops env wl = (Inr u, wl')"
  shows "ver_accepted (fw_ver (boot wl')) (min_fw_ver (boot wl))
    \<and> event_mask wl' = boot_event_mask
    \<and> mbox_ptr wl' 1 = (mbox_ptr wl' 0 + EVENT_MAILBOX_LEN) mod 2 ^ 32
    \<and> curr_part wl' = ptable (boot wl) PART_WORK"
proof -
  obtain x1 wl1 where 1: "wlcore_set_partition env wl (ptable (boot wl) PART_BOOT) = (Inr x1, wl1)"
    and r1: "and_then (wl1271_boot_set_ecpu_ctrl env wl1 ECPU_CONTROL_HALT) (\<lambda>_ wl2.
     and_then (wlcore_read_reg env wl2 REG_CHIP_ID_B) (\<lambda>chip wl3.
       if chip \<noteq> chip_id wl3 then (Inl EIO, wl3) else boot_rest ops env wl3)) = (Inr u, wl')"
    using run unfolding wlcore_boot_run_firmware_def boot_rest_def by (rule and_then_InrE)
  obtain x2 wl2 where 2: "wl1271_boot_set_ecpu_ctrl env wl1 ECPU_CONTROL_HALT = (Inr x2, wl2)"
    and r2: "and_then (wlcore_read_reg env wl2 REG_CHIP_ID_B) (\<lambda>chip wl3.
       if chip \<noteq> chip_id wl3 then (Inl EIO, wl3) else boot_rest ops env wl3) = (Inr u, wl')"
    using r1 by (rule and_then_InrE)
  obtain x3 wl3 where 3: "wlcore_read_reg env wl2 REG_CHIP_ID_B = (Inr x3, wl3)"
    and r3: "boot_rest ops env wl3 = (Inr u, wl')"
    using r2 by (auto elim!: and_then_InrE split: if_splits)
  have "boot wl1 = boot wl" using set_partition_view [OF 1] by (simp add: boot_view_def)
  moreover have "boot wl2 = boot wl1" using ecpu_io [of wl1 env ECPU_CONTROL_HALT] 2 by (auto elim!: io_stepE)
  moreover have "boot wl3 = boot wl2" using io_step_read_reg [of wl2 env REG_CHIP_ID_B] 3 by (auto elim!: io_stepE)
  ultimately have "boot wl3 = boot wl" by simp
  then show ?thesis using boot_rest_started [OF ops _ r3] len by simp
qed


text \<open>
  A chip that answers every register with 0x10012 (initialisation and command complete, status
  success) and announces version 8.4.0.0.133.
\<close>

definition demo_chip :: wl_env where
  "demo_chip = quiet_env\<lparr>e_read := (\<lambda>l. case last l of
       C_read a n f \<Rightarrow> Inr (if n = 4 then [0x12, 0, 1, 0]
         else replicate 8 0 @ [82, 101, 118, 32] @ [56, 46, 52, 46, 48, 46, 48, 46, 49, 51, 51] @ replicate 61 0)
     | _ \<Rightarrow> Inr [])\<rparr>"

definition demo_start :: wl1271 where
  "demo_start = demo_boot\<lparr>wl_state := WLCORE_STATE_OFF, chip_id := 0x10012,
     boot := (boot demo_boot)\<lparr>min_fw_ver := [8, 4, 0, 0, 8], static_data_priv_len := 20\<rparr>\<rparr>"

definition demo_ready :: "wl1271_boot \<Rightarrow> wl1271 \<Rightarrow> bool" where
  "demo_ready b wl \<longleftrightarrow> bus_up demo_chip wl \<and> wl_state wl = WLCORE_STATE_OFF \<and> boot wl = b \<and> chip_id wl = 0x10012"

definition gives :: "(wl1271 \<Rightarrow> bool) \<Rightarrow> 'a \<Rightarrow> 'a res \<times> wl1271 \<Rightarrow> bool" where
  "gives P x m \<longleftrightarrow> fst m = Inr x \<and> P (snd m)"

lemma gives_seq:
  "gives P x m \<Longrightarrow> (\<And>wl. P wl \<Longrightarrow> gives Q y (f x wl)) \<Longrightarrow> gives Q y (and_then m f)"
  by (cases m) (auto simp: gives_def)

lemma gives_Inr [simp]: "gives P x (Inr y, wl) \<longleftrightarrow> x = y \<and> P wl"
  by (auto simp: gives_def)

lemma demo_ready_emit [simp]: "demo_ready b (emit c wl) = demo_ready b wl"
  by (simp add: demo_ready_def bus_up_def emit_def)

lemma demo_ready_upd [simp]:
  "demo_ready b (wl\<lparr>curr_part := p\<rparr>) = demo_ready b wl" "demo_ready b (wl\<lparr>cmd_box_addr := n\<rparr>) = demo_ready b wl"
  "demo_ready b (wl\<lparr>mbox_ptr := m\<rparr>) = demo_ready b wl" "demo_ready b (wl\<lparr>event_mask := e\<rparr>) = demo_ready b wl"
  by (simp_all add: demo_ready_def bus_up_def)

lemma demo_raw_write: "demo_ready b wl \<Longrightarrow> gives (demo_ready b) () (wlcore_raw_write demo_chip wl a bs f)"
  by (simp add: wlcore_raw_write_def Let_def demo_ready_def bus_up_def emit_def)

lemma demo_raw_read:
  "demo_ready b wl \<Longrightarrow> gives (demo_ready b) [0x12, 0, 1, 0] (wlcore_raw_read demo_chip wl a 4 f)"
  by (simp add: wlcore_raw_read_def Let_def demo_ready_def bus_up_def emit_def demo_chip_def)

lemma demo_write: "demo_ready b wl \<Longrightarrow> gives (demo_ready b) () (wlcore_write demo_chip wl a bs f)"
  by (auto simp: wlcore_write_def wlcore_translate_addr_def split: option.split intro!: demo_raw_write)

lemma demo_read: "demo_ready b wl \<Longrightarrow> gives (demo_ready b) [0x12, 0, 1, 0] (wlcore_read demo_chip wl a 4 f)"
  by (auto simp: wlcore_read_def wlcore_translate_addr_def split: option.split intro!: demo_raw_read)

lemma demo_write_reg: "demo_ready b wl \<Longrightarrow> gives (demo_ready b) () (wlcore_write_reg demo_chip wl r v)"
  by (auto simp: wlcore_write_reg_def wlcore_write32_def wlcore_raw_write32_def wlcore_translate_addr_def
      split: option.split intro!: demo_raw_write)

lemma demo_raw_read32: "demo_ready b wl \<Longrightarrow> gives (demo_ready b) 0x10012 (wlcore_raw_read32 demo_chip wl a)"
  using demo_raw_read [of b wl a False]
  by (auto simp: wlcore_raw_read32_def gives_def get_le32_def byte_at_def split: prod.split sum.split)

lemma demo_read_reg: "demo_ready b wl \<Longrightarrow> gives (demo_ready b) 0x10012 (wlcore_read_reg demo_chip wl r)"
  by (auto simp: wlcore_read_reg_def wlcore_read32_def wlcore_translate_addr_def
      split: option.split intro!: demo_raw_read32)

lemma demo_kzalloc: "demo_ready b wl \<Longrightarrow> gives (demo_ready b) () (kzalloc demo_chip n wl)"
  by (simp add: kzalloc_def Let_def demo_ready_def bus_up_def emit_def)

lemma demo_set_partition: "demo_ready b wl \<Longrightarrow> gives (demo_ready b) () (wlcore_set_partition demo_chip wl p)"
proof -
  have "demo_ready b wl \<Longrightarrow> gives (demo_ready b) () (write32_all demo_chip wl ws)" for wl ws
  proof (induction ws arbitrary: wl)
    case (Cons w ws)
    obtain a v where w: "w = (a, v)" by (cases w)
    obtain q wl1 where q: "wlcore_raw_write32 demo_chip wl a v = (q, wl1)" by (rule prod.exhaust)
    then have "q = Inr ()" "demo_ready b wl1"
      using demo_raw_write [OF Cons.prems] by (simp_all add: wlcore_raw_write32_def gives_def) (metis fst_conv snd_conv)+
    then show ?case using Cons.IH q by (simp add: w)
  qed simp
  moreover assume "demo_ready b wl"
  ultimately show ?thesis by (simp add: wlcore_set_partition_def)
qed

lemma demo_cmd_send:
  assumes "demo_ready b wl"
  shows "gives (demo_ready b) (1, [0x12, 0, 1, 0] @ drop 4 (cmd_image cid body)) (wlcore_cmd_send_raw wl18xx_ops demo_chip wl cid body 0)"
proof -
  have trig: "demo_ready b wl \<Longrightarrow> gives (demo_ready b) () (op_trigger_cmd wl18xx_ops demo_chip wl a buf)" for wl a buf
    by (simp add: wl18xx_ops_def wl18xx_trigger_cmd_def Let_def demo_write)
  have poll: "demo_ready b wl \<Longrightarrow> gives (demo_ready b) () (cmd_poll demo_chip 0x10012 0 0 wl)" for wl
    by (subst cmd_poll.simps) simp
  have st: "wl_state wl \<noteq> WLCORE_STATE_RESTARTING" using assms by (simp add: demo_ready_def)
  have "get_le16 2 [0x12, 0, 1, 0] = 1" by (simp add: get_le16_def byte_at_def)
  then show ?thesis
    using assms st unfolding wlcore_cmd_send_raw_def Let_def
    by (auto intro!: gives_seq demo_write trig demo_read_reg poll demo_read demo_write_reg)
qed

lemma demo_unmask:
  assumes "demo_ready b wl"
  shows "gives (demo_ready b) () (wl1271_event_unmask wl18xx_ops demo_chip wl)"
proof -
  have send: "gives (demo_ready b) (1, [0x12, 0, 1, 0] @ drop 4 (cmd_image cid body))
      (wlcore_cmd_send_failsafe wl18xx_ops demo_chip wl cid body 0 {})" if r: "demo_ready b wl" for wl cid body
    using demo_cmd_send [OF r, of cid body]
    by (auto simp: wlcore_cmd_send_failsafe_def gives_def split: prod.split sum.split)
  show ?thesis
    unfolding wl1271_event_unmask_def wl1271_acx_event_mbox_mask_def wl1271_cmd_configure_def wlcore_cmd_configure_failsafe_def
    by (rule gives_seq, rule demo_kzalloc [OF assms], rule gives_seq, rule gives_seq, erule send) simp_all
qed

definition demo_ver :: wl1271_boot where
  "demo_ver = (boot demo_start)\<lparr>fw_ver_str := printed_version [82, 101, 118, 32] [8, 4, 0, 0, 133],
     fw_ver := [8, 4, 0, 0, 133]\<rparr>"

definition demo_started :: wl1271_boot where
  "demo_started = (boot demo_start)\<lparr>fw_ver_str := printed_version [82, 101, 118, 32] [8, 4, 0, 0, 133],
     fw_ver := [8, 4, 0, 0, 133], phy_fw_ver_str := replicate 32 0\<rparr>"

lemma demo_static_data:
  assumes "demo_ready (boot demo_start) wl"
  shows "gives (demo_ready demo_started) () (wlcore_boot_static_data wl18xx_ops demo_chip wl)"
proof -
  let ?v = "[56, 46, 52, 46, 48, 46, 48, 46, 49, 51, 51] :: bytes"
  let ?sd = "replicate 8 0 @ [82, 101, 118, 32] @ ?v @ replicate 61 0 :: bytes"
  have b: "static_data_priv_len (boot wl) = 20"
    using assms by (simp add: demo_ready_def demo_start_def demo_boot_def demo_wl_def wl_zeroed_def boot_zeroed_def)
  have rd: "gives (demo_ready b) ?sd (wlcore_read demo_chip wl a (64 + 20) f)" if "demo_ready b wl" for b wl a f
    using that by (auto simp: wlcore_read_def wlcore_translate_addr_def wlcore_raw_read_def Let_def demo_ready_def bus_up_def
        emit_def demo_chip_def split: option.split)
  have d: "dotted [8, 4, 0, 0, 133] = ?v" by (simp add: dec.simps)
  have "(61 :: nat) = Suc 60" by simp
  then have r: "replicate 61 (0 :: u8) = 0 # replicate 60 0" by (simp only: replicate_Suc)
  have parse: "gives (demo_ready demo_ver) () (wlcore_boot_parse_fw_ver wl18xx_ops wl ?sd)"
    if "demo_ready (boot demo_start) wl" for wl
  proof -
    have "wlcore_boot_parse_fw_ver wl18xx_ops wl ?sd = wlcore_identify_fw wl18xx_ops
        (wl\<lparr>boot := (boot wl)\<lparr>fw_ver_str := printed_version [82, 101, 118, 32] [8, 4, 0, 0, 133], fw_ver := [8, 4, 0, 0, 133]\<rparr>\<rparr>)"
      by (rule parse_printed [where hdr = "replicate 8 0" and rest = "replicate 60 0"])
        (simp_all add: d [simplified] r)
    then show ?thesis
      using that by (auto simp: gives_def demo_ready_def wlcore_identify_fw_def wl18xx_ops_def Let_def
          demo_ver_def bus_up_def)
  qed
  have val: "gives (demo_ready demo_ver) () (wlcore_validate_fw_ver wl, wl)" if "demo_ready demo_ver wl" for wl
    using that by (simp add: gives_def wlcore_validate_fw_ver_def demo_ready_def demo_ver_def demo_start_def)
  have "drop 64 ?sd = replicate 20 0" by simp
  moreover have "(20 :: nat) = Suc 19" by simp
  then have r20: "replicate 20 (0 :: u8) = 0 # replicate 19 0" by (simp only: replicate_Suc)
  ultimately have "strncpy (drop 64 ?sd) 32 = replicate 32 0" "0 \<in> set (drop 64 ?sd)"
    using strncpy_terminated [of "[]" 32 "replicate 19 0"] by simp_all
  moreover have "(replicate 32 (0 :: u8))[31 := 0] = replicate 32 0" by (simp add: list_update_same_conv)
  ultimately have fin: "gives (demo_ready demo_started) () (wlcore_handle_static_data wl18xx_ops wl ?sd)"
    if "demo_ready demo_ver wl" for wl
    using that by (simp only: wlcore_handle_static_data_def wl18xx_ops_def wlcore_ops.simps option.case
        wl18xx_handle_static_data_def Let_def) (simp add: demo_ready_def demo_ver_def demo_started_def bus_up_def)
  show ?thesis
    unfolding wlcore_boot_static_data_def b Let_def
    by (rule gives_seq, rule demo_kzalloc [OF assms], rule gives_seq, erule rd, rule gives_seq, erule parse,
        rule gives_seq, erule val, erule fin)
qed

lemma demo_ready_start: "demo_ready (boot demo_start) demo_start"
  by (simp add: demo_ready_def bus_up_def demo_start_def demo_boot_def demo_wl_def wl_zeroed_def demo_chip_def quiet_env_def)

lemma demo_run_firmware:
  assumes "demo_ready (boot demo_start) wl"
  shows "gives (demo_ready demo_started) () (wlcore_boot_run_firmware wl18xx_ops demo_chip wl)"
proof -
  have ecpu: "gives (demo_ready b) () (wl1271_boot_set_ecpu_ctrl demo_chip wl f)" if "demo_ready b wl" for b wl f
    unfolding wl1271_boot_set_ecpu_ctrl_def by (rule gives_seq, rule demo_read_reg [OF that], erule demo_write_reg)
  have wait: "gives (demo_ready b) () (wait_init demo_chip (Suc n) wl)" if "demo_ready b wl" for b wl n
    unfolding wait_init.simps
    by (rule gives_seq, rule demo_read_reg) (use that in \<open>auto intro: demo_write_reg\<close>)
  have mb: "gives (demo_ready b) () (boot_mailboxes demo_chip wl)" if "demo_ready b wl" for b wl
    unfolding boot_mailboxes_def Let_def
    by (rule gives_seq, rule demo_read_reg [OF that], rule gives_seq, rule demo_read_reg) simp_all
  have "(20000 :: nat) = Suc 19999" by simp
  then have rest: "gives (demo_ready demo_started) () (boot_rest wl18xx_ops demo_chip wl)"
    if "demo_ready (boot demo_start) wl" for wl
    unfolding boot_rest_def
    by (elim ssubst) (rule gives_seq, rule wait [OF that], rule gives_seq, erule mb, rule gives_seq, erule demo_static_data,
        rule gives_seq, rule demo_unmask, simp, erule demo_set_partition)
  have chip: "gives (demo_ready demo_started) ()
      (if 0x10012 \<noteq> chip_id wl then (Inl EIO, wl) else boot_rest wl18xx_ops demo_chip wl)"
    if "demo_ready (boot demo_start) wl" for wl
    using rest [OF that] that by (simp add: demo_ready_def)
  show ?thesis
    unfolding wlcore_boot_run_firmware_def boot_rest_def [symmetric]
    by (rule gives_seq, rule demo_set_partition [OF assms], rule gives_seq, erule ecpu, rule gives_seq, erule demo_read_reg, erule chip)
qed


end
