(* ===== verification/WlBoot12.thy ===== *)
theory WlBoot12
  imports WlNvs WlFwStart
begin

unbundle bit_operations_syntax

text \<open>
  Booting wl127x and wl128x (wl12xx/main.c): the partition and register tables, identification of the
  chip, the registers behind the bridge to the top-level OCP bus, selection of the clock, soft reset,
  the boot sequence, and the address in the fuses.
\<close>

section \<open>Tables\<close>

abbreviation (input) REGISTERS_BASE :: nat where "REGISTERS_BASE \<equiv> 0x300000"
abbreviation (input) DRPW_BASE :: nat where "DRPW_BASE \<equiv> 0x310000"

definition window :: "nat \<Rightarrow> nat \<Rightarrow> wlcore_partition" where
  "window a n = \<lparr>part_size = n, part_start = a\<rparr>"

fun wl12xx_ptable :: "wlcore_partitions \<Rightarrow> wlcore_partition_set" where
  "wl12xx_ptable PART_DOWN =
     \<lparr>part_mem = window 0 0x177c0, part_reg = window REGISTERS_BASE 0x8800, part_mem2 = window 0 0, part_mem3 = window 0 0\<rparr>"
| "wl12xx_ptable PART_BOOT =
     \<lparr>part_mem = window 0x40000 0x14fc0, part_reg = window REGISTERS_BASE 0x8800, part_mem2 = window 0 0, part_mem3 = window 0 0\<rparr>"
| "wl12xx_ptable PART_WORK =
     \<lparr>part_mem = window 0x40000 0x14fc0, part_reg = window REGISTERS_BASE 0xa000,
      part_mem2 = window 0x3004f8 4, part_mem3 = window 0x40404 0\<rparr>"
| "wl12xx_ptable PART_DRPW =
     \<lparr>part_mem = window 0x40000 0x14fc0, part_reg = window DRPW_BASE 0x6000, part_mem2 = window 0 0, part_mem3 = window 0 0\<rparr>"
| "wl12xx_ptable _ = part_zeroed"

fun wl12xx_rtable :: "wlcore_registers \<Rightarrow> nat" where
  "wl12xx_rtable REG_ECPU_CONTROL = REGISTERS_BASE + 0x0804"
| "wl12xx_rtable REG_INTERRUPT_NO_CLEAR = REGISTERS_BASE + 0x04E8"
| "wl12xx_rtable REG_INTERRUPT_ACK = REGISTERS_BASE + 0x04F0"
| "wl12xx_rtable REG_COMMAND_MAILBOX_PTR = REGISTERS_BASE + 0x5608"
| "wl12xx_rtable REG_EVENT_MAILBOX_PTR = REGISTERS_BASE + 0x560C"
| "wl12xx_rtable REG_INTERRUPT_TRIG = REGISTERS_BASE + 0x0474"
| "wl12xx_rtable REG_INTERRUPT_MASK = REGISTERS_BASE + 0x04DC"
| "wl12xx_rtable REG_PC_ON_RECOVERY = REGISTERS_BASE + 0x5618"
| "wl12xx_rtable REG_CHIP_ID_B = REGISTERS_BASE + 0x5674"
| "wl12xx_rtable REG_CMD_MBOX_ADDRESS = 0x407B4"
| "wl12xx_rtable REG_SLV_MEM_DATA = REGISTERS_BASE + 0x0018"
| "wl12xx_rtable REG_SLV_REG_DATA = REGISTERS_BASE + 0x0008"
| "wl12xx_rtable REG_RAW_FW_STATUS_ADDR = 0x14FC0 + 0xA000"

abbreviation (input) WL12XX_OCP_POR_CTR :: nat where "WL12XX_OCP_POR_CTR \<equiv> REGISTERS_BASE + 0x09B4"
abbreviation (input) WL12XX_OCP_DATA_WRITE :: nat where "WL12XX_OCP_DATA_WRITE \<equiv> REGISTERS_BASE + 0x09B8"
abbreviation (input) WL12XX_OCP_DATA_READ :: nat where "WL12XX_OCP_DATA_READ \<equiv> REGISTERS_BASE + 0x09BC"
abbreviation (input) WL12XX_OCP_CMD :: nat where "WL12XX_OCP_CMD \<equiv> REGISTERS_BASE + 0x09C0"
abbreviation (input) OCP_CMD_LOOP :: nat where "OCP_CMD_LOOP \<equiv> 32"
abbreviation (input) WL_SPARE_REG :: nat where "WL_SPARE_REG \<equiv> 0x2320"
abbreviation (input) SYS_CLK_CFG_REG :: nat where "SYS_CLK_CFG_REG \<equiv> 0x2200"
abbreviation (input) MCS_PLL_CONFIG_REG :: nat where "MCS_PLL_CONFIG_REG \<equiv> 0xD92"
abbreviation (input) WL1271_ACX_INTR_ALL :: u32 where "WL1271_ACX_INTR_ALL \<equiv> 0xFFFFFFFF"
abbreviation (input) WELP_ARM_COMMAND_VAL :: u32 where "WELP_ARM_COMMAND_VAL \<equiv> 4"

section \<open>Identification\<close>

definition wlcore_set_min_fw_ver :: "nat list \<Rightarrow> wl1271 \<Rightarrow> wl1271" where
  "wlcore_set_min_fw_ver v wl = wl\<lparr>boot := (boot wl)\<lparr>min_fw_ver := v\<rparr>\<rparr>"

definition set_fw_names :: "string \<Rightarrow> string \<Rightarrow> wl1271 \<Rightarrow> wl1271" where
  "set_fw_names sr mr wl = wl\<lparr>boot := (boot wl)\<lparr>sr_fw_name := sr, mr_fw_name := mr\<rparr>\<rparr>"

definition set_plt_name :: "string \<Rightarrow> wl1271 \<Rightarrow> wl1271" where
  "set_plt_name n wl = wl\<lparr>boot := (boot wl)\<lparr>plt_fw_name := n\<rparr>\<rparr>"

definition add_quirks :: "wlcore_quirk set \<Rightarrow> wl1271 \<Rightarrow> wl1271" where
  "add_quirks qs wl = wl\<lparr>wl_quirks := wl_quirks wl \<union> qs\<rparr>"

text \<open>
  The operation table is chosen here: only wl127x prepares reads, so the table is returned together
  with the state. (The memory configuration that is copied for wl127x is not modelled.)
\<close>

definition wl12xx_identify_chip :: "wl1271 \<Rightarrow> wlcore_ops res \<times> wl1271" where
  "wl12xx_identify_chip wl =
     (let legacy = {WLCORE_QUIRK_LEGACY_NVS, WLCORE_QUIRK_DUAL_PROBE_TMPL, WLCORE_QUIRK_TKIP_HEADER_SPACE};
          sr = ''ti-connectivity/wl127x-fw-5-sr.bin''; mr = ''ti-connectivity/wl127x-fw-5-mr.bin'';
          ver127 = wlcore_set_min_fw_ver [6, 3, 10, 2, 115]
      in if chip_id wl = CHIP_ID_1271_PG10 then
           (Inr wl127x_ops, ver127 (set_fw_names sr mr (add_quirks legacy wl)))
         else if chip_id wl = CHIP_ID_1271_PG20 then
           (Inr wl127x_ops,
            ver127 (set_fw_names sr mr (set_plt_name ''ti-connectivity/wl127x-fw-5-plt.bin'' (add_quirks legacy wl))))
         else if chip_id wl = CHIP_ID_1283_PG20 then
           (Inr wl12xx_ops,
            wlcore_set_min_fw_ver [7, 3, 10, 2, 115]
              (add_quirks {WLCORE_QUIRK_TX_BLOCKSIZE_ALIGN, WLCORE_QUIRK_DUAL_PROBE_TMPL, WLCORE_QUIRK_TKIP_HEADER_SPACE}
                (set_fw_names ''ti-connectivity/wl128x-fw-5-sr.bin'' ''ti-connectivity/wl128x-fw-5-mr.bin''
                  (set_plt_name ''ti-connectivity/wl128x-fw-5-plt.bin'' wl))))
         else (Inl ENODEV, wl))"

section \<open>Top-level registers\<close>

definition wl12xx_top_reg_write :: "wl_env \<Rightarrow> wl1271 \<Rightarrow> nat \<Rightarrow> u16 \<Rightarrow> unit res \<times> wl1271" where
  "wl12xx_top_reg_write env wl addr val =
     and_then (wlcore_write32 env wl WL12XX_OCP_POR_CTR (of_nat (addr div 2 + 0x30000))) (\<lambda>_ wl1.
     and_then (wlcore_write32 env wl1 WL12XX_OCP_DATA_WRITE (ucast val)) (\<lambda>_ wl2.
       wlcore_write32 env wl2 WL12XX_OCP_CMD 1))"

text \<open>At most \<open>n\<close> reads until the data is ready.\<close>

fun ocp_poll :: "wl_env \<Rightarrow> nat \<Rightarrow> wl1271 \<Rightarrow> u32 res \<times> wl1271" where
  "ocp_poll env 0 wl = (Inl ETIMEDOUT, wl)"
| "ocp_poll env (Suc n) wl =
     and_then (wlcore_read32 env wl WL12XX_OCP_DATA_READ) (\<lambda>val wl1.
       if bit val 18 then (Inr val, wl1) else ocp_poll env n wl1)"

definition wl12xx_top_reg_read :: "wl_env \<Rightarrow> wl1271 \<Rightarrow> nat \<Rightarrow> u16 res \<times> wl1271" where
  "wl12xx_top_reg_read env wl addr =
     and_then (wlcore_write32 env wl WL12XX_OCP_POR_CTR (of_nat (addr div 2 + 0x30000))) (\<lambda>_ wl1.
     and_then (wlcore_write32 env wl1 WL12XX_OCP_CMD 2) (\<lambda>_ wl2.
     and_then (ocp_poll env OCP_CMD_LOOP wl2) (\<lambda>val wl3.
       if val AND 0x30000 \<noteq> 0x10000 then (Inl EIO, wl3) else (Inr (ucast val), wl3))))"

section \<open>The clock of wl128x\<close>

definition wl128x_switch_tcxo_to_fref :: "wl_env \<Rightarrow> wl1271 \<Rightarrow> unit res \<times> wl1271" where
  "wl128x_switch_tcxo_to_fref env wl =
     and_then (wl12xx_top_reg_read env wl WL_SPARE_REG) (\<lambda>spare_reg wl1.
       if spare_reg = 0xFFFF then (Inl EFAULT, wl1) else
     and_then (wl12xx_top_reg_write env wl1 WL_SPARE_REG (spare_reg OR 0x68)) (\<lambda>_ wl2.
     and_then (wl12xx_top_reg_write env wl2 SYS_CLK_CFG_REG 0xD) (\<lambda>_ wl3.
       (Inr (), emit C_delay wl3))))"

definition wl128x_is_tcxo_valid :: "wl_env \<Rightarrow> wl1271 \<Rightarrow> bool \<times> wl1271" where
  "wl128x_is_tcxo_valid env wl =
     (case wl12xx_top_reg_read env wl 0x2266 of
        (Inl e, wl1) \<Rightarrow> (False, wl1) | (Inr v, wl1) \<Rightarrow> (\<not> bit v 4, wl1))"

definition wl128x_is_fref_valid :: "wl_env \<Rightarrow> wl1271 \<Rightarrow> bool \<times> wl1271" where
  "wl128x_is_fref_valid env wl =
     (case wl12xx_top_reg_read env wl 0x2086 of
        (Inl e, wl1) \<Rightarrow> (False, wl1) | (Inr v, wl1) \<Rightarrow> (\<not> bit v 4, wl1))"

definition wl128x_manually_configure_mcs_pll :: "wl_env \<Rightarrow> wl1271 \<Rightarrow> unit res \<times> wl1271" where
  "wl128x_manually_configure_mcs_pll env wl =
     and_then (wl12xx_top_reg_write env wl 0xD94 0xC8) (\<lambda>_ wl1.
     and_then (wl12xx_top_reg_write env wl1 0xD96 0x07) (\<lambda>_ wl2.
       wl12xx_top_reg_write env wl2 MCS_PLL_CONFIG_REG 0x73))"

definition wl128x_configure_mcs_pll :: "wl_env \<Rightarrow> wl1271 \<Rightarrow> nat \<Rightarrow> unit res \<times> wl1271" where
  "wl128x_configure_mcs_pll env wl clk =
     and_then (wl12xx_top_reg_read env wl WL_SPARE_REG) (\<lambda>spare_reg wl1.
       if spare_reg = 0xFFFF then (Inl EFAULT, wl1) else
     and_then (wl12xx_top_reg_write env wl1 WL_SPARE_REG (spare_reg OR 4)) (\<lambda>_ wl2.
       if tcxo_clock (boot wl2) = 6 \<or> tcxo_clock (boot wl2) = 7
       then wl128x_manually_configure_mcs_pll env wl2 else
     and_then (wl12xx_top_reg_read env wl2 MCS_PLL_CONFIG_REG) (\<lambda>pll_config wl3.
       if pll_config = 0xFFFF then (Inl EFAULT, wl3)
       else wl12xx_top_reg_write env wl3 MCS_PLL_CONFIG_REG
              (pll_config OR push_bit 4 (of_nat (clk mod 2 + 1)) OR 3))))"

text \<open>
  The end of the clock setup, with the reference clock selected. A failed switch to it is what the
  code continues from: \<open>wl128x_switch_tcxo_to_fref\<close> returns 0 on success, and the callers test for
  a return of 0 to report the error.
\<close>

definition fref_clk :: "wl_env \<Rightarrow> wl1271 \<Rightarrow> nat res \<times> wl1271" where
  "fref_clk env wl =
     (case wl128x_is_fref_valid env wl of
        (False, wl1) \<Rightarrow> (Inl EINVAL, wl1)
      | (True, wl1) \<Rightarrow>
          let clk = ref_clock (boot wl1)
          in and_then (wl128x_configure_mcs_pll env wl1 clk) (\<lambda>_ wl2. (Inr clk, wl2)))"

definition switch_then_fref :: "wl_env \<Rightarrow> wl1271 \<Rightarrow> nat res \<times> wl1271" where
  "switch_then_fref env wl =
     (case wl128x_switch_tcxo_to_fref env wl of
        (Inr _, wl1) \<Rightarrow> (Inl EINVAL, wl1)
      | (Inl _, wl1) \<Rightarrow> fref_clk env wl1)"

definition wl128x_boot_clk :: "wl_env \<Rightarrow> wl1271 \<Rightarrow> nat res \<times> wl1271" where
  "wl128x_boot_clk env wl =
     (if ref_clock (boot wl) = 5 \<or> ref_clock (boot wl) = 4 then switch_then_fref env wl
      else and_then (wl12xx_top_reg_read env wl SYS_CLK_CFG_REG) (\<lambda>sys_clk_cfg wl1.
        if sys_clk_cfg = 0xFFFF then (Inl EINVAL, wl1)
        else if bit sys_clk_cfg 4 then fref_clk env wl1
        else if tcxo_clock (boot wl1) = 4 \<or> tcxo_clock (boot wl1) = 5 then switch_then_fref env wl1
        else case wl128x_is_tcxo_valid env wl1 of
               (False, wl2) \<Rightarrow> (Inl EINVAL, wl2)
             | (True, wl2) \<Rightarrow>
                 let clk = tcxo_clock (boot wl2)
                 in and_then (wl128x_configure_mcs_pll env wl2 clk) (\<lambda>_ wl3. (Inr clk, wl3))))"

section \<open>The clock of wl127x\<close>

definition wl127x_clk :: "nat \<Rightarrow> u32 option" where
  "wl127x_clk c = (if c = 0 \<or> c = 2 \<or> c = 4 then Some 3 else if c = 1 \<or> c = 5 \<or> c = 3 then Some 5 else None)"

text \<open>A read-modify-write of a top-level register.\<close>

definition top_reg_modify :: "wl_env \<Rightarrow> nat \<Rightarrow> (u16 \<Rightarrow> u16) \<Rightarrow> wl1271 \<Rightarrow> unit res \<times> wl1271" where
  "top_reg_modify env addr f wl =
     and_then (wl12xx_top_reg_read env wl addr) (\<lambda>val wl1. wl12xx_top_reg_write env wl1 addr (f val))"

definition wl127x_boot_clk :: "wl_env \<Rightarrow> wl1271 \<Rightarrow> unit res \<times> wl1271" where
  "wl127x_boot_clk env wl =
     (let wl1 = (if unat (hw_pg_ver (boot wl) AND 3) < 3 then add_quirks {WLCORE_QUIRK_END_OF_TRANSACTION} wl else wl)
      in case wl127x_clk (ref_clock (boot wl1)) of
           None \<Rightarrow> (Inl EINVAL, wl1)
         | Some clk \<Rightarrow>
             and_then
               (if ref_clock (boot wl1) \<noteq> 0
                then and_then (top_reg_modify env 0x0448 (\<lambda>v. v AND 0xfe7f) wl1)
                       (\<lambda>_ wl2. top_reg_modify env 0x0cb4 (\<lambda>v. v OR 0xC000) wl2)
                else top_reg_modify env 0x0cb2 (\<lambda>v. (v AND 0xf8ff) OR 0x700) wl1) (\<lambda>_ wl3.
             and_then (wlcore_write32 env wl3 (REGISTERS_BASE + 0x6040) clk) (\<lambda>_ wl4.
             and_then (wlcore_read32 env wl4 (REGISTERS_BASE + 0x6040)) (\<lambda>pause wl5.
               wlcore_write32 env wl5 (REGISTERS_BASE + 0x6008) ((pause AND NOT 0x3FF) OR 0x3FF)))))"

section \<open>Soft reset and the boot sequence\<close>

text \<open>Every round of the wait takes at least the millisecond of the delay.\<close>

function soft_reset_wait :: "wl_env \<Rightarrow> nat \<Rightarrow> wl1271 \<Rightarrow> unit res \<times> wl1271" where
  "soft_reset_wait env elapsed wl =
     and_then (wlcore_read32 env wl REGISTERS_BASE) (\<lambda>boot_data wl1.
       if \<not> bit boot_data 1 then (Inr (), wl1)
       else if 1000 < elapsed then (Inl EPERM, wl1)
       else let wl2 = emit C_delay wl1 in soft_reset_wait env (elapsed + 1 + e_delay_ms env (log wl2)) wl2)"
  by pat_completeness auto
termination by (relation "measure (\<lambda>(env, elapsed, wl). 1001 - elapsed)") auto

declare soft_reset_wait.simps [simp del]

definition wl1271_boot_soft_reset :: "wl_env \<Rightarrow> wl1271 \<Rightarrow> unit res \<times> wl1271" where
  "wl1271_boot_soft_reset env wl =
     and_then (wlcore_write32 env wl REGISTERS_BASE 2) (\<lambda>_ wl1.
     and_then (soft_reset_wait env 0 wl1) (\<lambda>_ wl2.
     and_then (wlcore_write32 env wl2 (REGISTERS_BASE + 0x5450) 0) (\<lambda>_ wl3.
       wlcore_write32 env wl3 (REGISTERS_BASE + 0x0998) 0xffff)))"

definition boot_clk :: "wl_env \<Rightarrow> wl1271 \<Rightarrow> u32 res \<times> wl1271" where
  "boot_clk env wl =
     (if chip_id wl = CHIP_ID_1283_PG20
      then and_then (wl128x_boot_clk env wl) (\<lambda>c wl1. (Inr (push_bit 5 (of_nat c AND 3)), wl1))
      else and_then (wl127x_boot_clk env wl) (\<lambda>_ wl1. (Inr (push_bit 5 (of_nat (ref_clock (boot wl1)))), wl1)))"

definition wl12xx_pre_boot :: "wl_env \<Rightarrow> wl1271 \<Rightarrow> unit res \<times> wl1271" where
  "wl12xx_pre_boot env wl =
     and_then (boot_clk env wl) (\<lambda>clk_bits wl1.
     and_then (wlcore_write32 env wl1 (REGISTERS_BASE + 0x6100) WELP_ARM_COMMAND_VAL) (\<lambda>_ wl2.
     and_then (wlcore_set_partition env (emit C_delay wl2) (ptable (boot wl2) PART_DRPW)) (\<lambda>_ wl3.
     and_then (wlcore_read32 env wl3 (DRPW_BASE + 0x2C)) (\<lambda>clk wl4.
     and_then (wlcore_write32 env wl4 (DRPW_BASE + 0x2C) (clk OR clk_bits)) (\<lambda>_ wl5.
     and_then (wlcore_set_partition env wl5 (ptable (boot wl5) PART_WORK)) (\<lambda>_ wl6.
     and_then (wlcore_write_reg env wl6 REG_INTERRUPT_MASK WL1271_ACX_INTR_ALL) (\<lambda>_ wl7.
       wl1271_boot_soft_reset env wl7)))))))"

definition wl12xx_pre_upload :: "wl_env \<Rightarrow> wl1271 \<Rightarrow> unit res \<times> wl1271" where
  "wl12xx_pre_upload env wl =
     and_then (wlcore_write32 env wl (REGISTERS_BASE + 0x5618) (of_nat (REGISTERS_BASE + 0x5618))) (\<lambda>_ wl1.
     and_then (wlcore_read_reg env wl1 REG_CHIP_ID_B) (\<lambda>_ wl2.
     and_then (wlcore_read32 env wl2 (REGISTERS_BASE + 0x5610)) (\<lambda>_ wl3.
     and_then (if chip_id wl3 = CHIP_ID_1283_PG20 then wl12xx_top_reg_write env wl3 0xd14 2 else (Inr (), wl3)) (\<lambda>_ wl4.
       top_reg_modify env 0x0064 (\<lambda>polarity. polarity AND NOT 2) wl4))))"

definition wlcore_enable_interrupts :: "wl1271 \<Rightarrow> wl1271" where
  "wlcore_enable_interrupts wl = emit C_irq_enable wl"

definition wlcore_disable_interrupts :: "wl1271 \<Rightarrow> wl1271" where
  "wlcore_disable_interrupts wl = emit C_irq_disable wl"

text \<open>When a later step fails the interrupt line is disabled again.\<close>

definition or_disable :: "unit res \<times> wl1271 \<Rightarrow> unit res \<times> wl1271" where
  "or_disable m = (case m of (Inl e, wl) \<Rightarrow> (Inl e, wlcore_disable_interrupts wl) | (Inr u, wl) \<Rightarrow> (Inr u, wl))"

definition wl12xx_enable_interrupts :: "wl_env \<Rightarrow> wl1271 \<Rightarrow> unit res \<times> wl1271" where
  "wl12xx_enable_interrupts env wl =
     and_then (wlcore_write_reg env wl REG_INTERRUPT_MASK 0x7F) (\<lambda>_ wl1.
       or_disable
         (and_then (wlcore_write_reg env (wlcore_enable_interrupts wl1) REG_INTERRUPT_MASK
                      (WL1271_ACX_INTR_ALL AND NOT 0x6D)) (\<lambda>_ wl2.
            wlcore_write32 env wl2 (REGISTERS_BASE + 0x0808) 0x3C)))"

definition wl12xx_boot :: "wlcore_ops \<Rightarrow> wl_env \<Rightarrow> wl1271 \<Rightarrow> unit res \<times> wl1271" where
  "wl12xx_boot ops env wl =
     and_then (wl12xx_pre_boot env wl) (\<lambda>_ wl1.
     and_then (wlcore_boot_upload_nvs env wl1) (\<lambda>_ wl2.
     and_then (wl12xx_pre_upload env wl2) (\<lambda>_ wl3.
     and_then (wlcore_boot_upload_firmware env wl3) (\<lambda>_ wl4.
     and_then (wlcore_boot_run_firmware ops env wl4) (\<lambda>_ wl5.
       wl12xx_enable_interrupts env wl5)))))"

section \<open>The address in the fuses\<close>

definition wl12xx_mac_in_fuse :: "wl1271 \<Rightarrow> bool" where
  "wl12xx_mac_in_fuse wl =
     (let v = hw_pg_ver (boot wl) in
      if chip_id wl = CHIP_ID_1283_PG20
      then let major = drop_bit 2 (v AND 0xc); minor = v AND 3 in 2 < major \<or> major = 2 \<and> 1 \<le> minor
      else let major = v AND 3; minor = drop_bit 2 (v AND 0xc) in major = 3 \<and> 1 \<le> minor)"

definition set_fuse :: "u32 \<Rightarrow> u32 \<Rightarrow> wl1271 \<Rightarrow> wl1271" where
  "set_fuse mac1 mac2 wl = wl\<lparr>boot := (boot wl)\<lparr>
     fuse_oui_addr := push_bit 8 (mac2 AND 0xffff) + drop_bit 24 (mac1 AND 0xff000000),
     fuse_nic_addr := mac1 AND 0xffffff\<rparr>\<rparr>"

definition wl12xx_get_fuse_mac :: "wl_env \<Rightarrow> wl1271 \<Rightarrow> unit res \<times> wl1271" where
  "wl12xx_get_fuse_mac env wl =
     and_then (wlcore_set_partition env wl (ptable (boot wl) PART_DRPW)) (\<lambda>_ wl1.
     and_then (wlcore_read32 env wl1 0x310eb4) (\<lambda>mac1 wl2.
     and_then (wlcore_read32 env wl2 0x310eb8) (\<lambda>mac2 wl3.
       let wl4 = set_fuse mac1 mac2 wl3 in wlcore_set_partition env wl4 (ptable (boot wl4) PART_DOWN))))"

definition wl12xx_get_mac :: "wl_env \<Rightarrow> wl1271 \<Rightarrow> unit res \<times> wl1271" where
  "wl12xx_get_mac env wl = (if wl12xx_mac_in_fuse wl then wl12xx_get_fuse_mac env wl else (Inr (), wl))"

definition wl12xx_get_pg_ver :: "wl_env \<Rightarrow> wl1271 \<Rightarrow> u8 res \<times> wl1271" where
  "wl12xx_get_pg_ver env wl =
     and_then (wl12xx_top_reg_read env wl (if chip_id wl = CHIP_ID_1283_PG20 then 0x2152 else 0x050a))
       (\<lambda>die_info wl1. (Inr (ucast (drop_bit 2 (die_info AND 0x3c))), wl1))"

end
