(* ===== verification/WlBoot18.thy ===== *)
theory WlBoot18
  imports WlBoot12
begin

unbundle bit_operations_syntax

text \<open>
  Booting wl18xx (wl18xx/main.c, wl18xx/io.c): tables, identification, the halves of top-level
  registers, the clock, the boot sequence, and the address in the fuses.
\<close>

section \<open>Tables\<close>

abbreviation (input) CHIP_ID_185x_PG20 :: u32 where "CHIP_ID_185x_PG20 \<equiv> 0x06030111"
abbreviation (input) WL18XX_REGISTERS_BASE :: nat where "WL18XX_REGISTERS_BASE \<equiv> 0x800000"
abbreviation (input) PRIMARY_CLK_DETECT :: nat where "PRIMARY_CLK_DETECT \<equiv> 0xA020A6"
abbreviation (input) WL18XX_PHY_INIT_MEM_ADDR :: nat where "WL18XX_PHY_INIT_MEM_ADDR \<equiv> 0x80926000"
abbreviation (input) NUM_CLOCK_CONFIGS :: nat where "NUM_CLOCK_CONFIGS \<equiv> 10"

text \<open>The size of the last window is the size of \<open>struct wl18xx_mac_and_phy_params\<close>, an argument here.\<close>

fun wl18xx_ptable :: "nat \<Rightarrow> wlcore_partitions \<Rightarrow> wlcore_partition_set" where
  "wl18xx_ptable phy PART_TOP_PRCM_ELP_SOC =
     \<lparr>part_mem = window 0xA02000 0x10000, part_reg = window 0x807000 0x5000, part_mem2 = window 0x800000 0xB000, part_mem3 = window 0 0\<rparr>"
| "wl18xx_ptable phy PART_DOWN =
     \<lparr>part_mem = window 0 0x14000, part_reg = window 0x810000 0xBFFF, part_mem2 = window 0 0, part_mem3 = window 0 0\<rparr>"
| "wl18xx_ptable phy PART_BOOT =
     \<lparr>part_mem = window 0x700000 0x30c, part_reg = window 0x802000 0x14578, part_mem2 = window 0xB00404 0x1000, part_mem3 = window 0xC00000 0x400\<rparr>"
| "wl18xx_ptable phy PART_WORK =
     \<lparr>part_mem = window 0x800000 0x50FC, part_reg = window 0xB00404 0x1000, part_mem2 = window 0xC00000 0x400, part_mem3 = window 0 0\<rparr>"
| "wl18xx_ptable phy PART_PHY_INIT =
     \<lparr>part_mem = window 0x80926000 phy, part_reg = window 0 0, part_mem2 = window 0 0, part_mem3 = window 0 0\<rparr>"
| "wl18xx_ptable phy _ = part_zeroed"

fun wl18xx_rtable :: "wlcore_registers \<Rightarrow> nat" where
  "wl18xx_rtable REG_ECPU_CONTROL = WL18XX_REGISTERS_BASE + 0x2004"
| "wl18xx_rtable REG_INTERRUPT_NO_CLEAR = WL18XX_REGISTERS_BASE + 0x50E8"
| "wl18xx_rtable REG_INTERRUPT_ACK = WL18XX_REGISTERS_BASE + 0x50F0"
| "wl18xx_rtable REG_COMMAND_MAILBOX_PTR = WL18XX_REGISTERS_BASE + 0x154EC"
| "wl18xx_rtable REG_EVENT_MAILBOX_PTR = WL18XX_REGISTERS_BASE + 0x154F0"
| "wl18xx_rtable REG_INTERRUPT_TRIG = WL18XX_REGISTERS_BASE + 0x5078"
| "wl18xx_rtable REG_INTERRUPT_MASK = WL18XX_REGISTERS_BASE + 0x50DC"
| "wl18xx_rtable REG_PC_ON_RECOVERY = WL18XX_REGISTERS_BASE + 0x154FC"
| "wl18xx_rtable REG_CHIP_ID_B = WL18XX_REGISTERS_BASE + 0x1542C"
| "wl18xx_rtable REG_CMD_MBOX_ADDRESS = 0xB007B4"
| "wl18xx_rtable REG_SLV_MEM_DATA = 0xC00018"
| "wl18xx_rtable REG_SLV_REG_DATA = 0xC00008"
| "wl18xx_rtable REG_RAW_FW_STATUS_ADDR = 0x50F8"

record wl18xx_clk_cfg =
  clk_n :: u32
  clk_m :: u32
  clk_p :: u32
  clk_q :: u32
  clk_swallow :: bool

text \<open>Entry 0 is not initialised and so all zero.\<close>

definition wl18xx_clk_table :: "wl18xx_clk_cfg list" where
  "wl18xx_clk_table =
     map (\<lambda>(n, m, p, q, s). \<lparr>clk_n = n, clk_m = m, clk_p = p, clk_q = q, clk_swallow = s\<rparr>)
       [(0, 0, 0, 0, False), (7, 104, 801, 4, True), (9, 132, 3751, 4, True), (7, 100, 0, 0, False),
        (8, 100, 0, 0, False), (13, 120, 0, 0, False), (9, 132, 3751, 4, True), (7, 100, 0, 0, False),
        (8, 100, 0, 0, False), (13, 120, 0, 0, False)]"

section \<open>Identification and top-level registers\<close>

definition wl18xx_identify_chip :: "wl1271 \<Rightarrow> unit res \<times> wl1271" where
  "wl18xx_identify_chip wl =
     (if chip_id wl = CHIP_ID_185x_PG20 then
        (Inr (), wlcore_set_min_fw_ver [8, 4, 0, 0, 8]
          (add_quirks {WLCORE_QUIRK_RX_BLOCKSIZE_ALIGN, WLCORE_QUIRK_TX_BLOCKSIZE_ALIGN,
                       WLCORE_QUIRK_NO_SCHED_SCAN_WHILE_CONN, WLCORE_QUIRK_TX_PAD_LAST_FRAME,
                       WLCORE_QUIRK_DUAL_PROBE_TMPL}
            (set_plt_name ''ti-connectivity/wl18xx-fw-mc.bin''
              (wl\<lparr>boot := (boot wl)\<lparr>sr_fw_name := ''ti-connectivity/wl18xx-fw-mc.bin''\<rparr>\<rparr>))))
      else (Inl ENODEV, wl))"

definition wl18xx_top_reg_write :: "wl_env \<Rightarrow> wl1271 \<Rightarrow> nat \<Rightarrow> u16 \<Rightarrow> unit res \<times> wl1271" where
  "wl18xx_top_reg_write env wl addr val =
     (if addr mod 2 \<noteq> 0 then (Inl EINVAL, emit C_warn wl)
      else if addr mod 4 = 0 then
        and_then (wlcore_read32 env wl addr) (\<lambda>tmp wl1.
          wlcore_write32 env wl1 addr ((tmp AND 0xffff0000) OR ucast val))
      else
        and_then (wlcore_read32 env wl (addr - 2)) (\<lambda>tmp wl1.
          wlcore_write32 env wl1 (addr - 2) ((tmp AND 0xffff) OR push_bit 16 (ucast val))))"

definition wl18xx_top_reg_read :: "wl_env \<Rightarrow> wl1271 \<Rightarrow> nat \<Rightarrow> u16 res \<times> wl1271" where
  "wl18xx_top_reg_read env wl addr =
     (if addr mod 2 \<noteq> 0 then (Inl EINVAL, emit C_warn wl)
      else if addr mod 4 = 0 then
        and_then (wlcore_read32 env wl addr) (\<lambda>val wl1. (Inr (ucast val), wl1))
      else and_then (wlcore_read32 env wl (addr - 2)) (\<lambda>val wl1. (Inr (ucast (drop_bit 16 val)), wl1)))"

section \<open>Boot\<close>

definition write_factors :: "wl_env \<Rightarrow> wl18xx_clk_cfg \<Rightarrow> wl1271 \<Rightarrow> unit res \<times> wl1271" where
  "write_factors env c wl =
     (if clk_swallow c then
        and_then (wl18xx_top_reg_write env wl 0xA02364 (ucast (clk_q c AND 0xFFFF))) (\<lambda>_ wl1.
        and_then (wl18xx_top_reg_write env wl1 0xA02366 (ucast (drop_bit 16 (clk_q c) AND 0x7F))) (\<lambda>_ wl2.
        and_then (wl18xx_top_reg_write env wl2 0xA02368 (ucast (clk_p c AND 0xFFFF))) (\<lambda>_ wl3.
          wl18xx_top_reg_write env wl3 0xA0236A (ucast (drop_bit 16 (clk_p c) AND 0xF)))))
      else wl18xx_top_reg_write env wl 0xA0236C 0x12)"

text \<open>The frequency the chip reports is used as an index without a check.\<close>

definition wl18xx_set_clk :: "wl_env \<Rightarrow> wl1271 \<Rightarrow> unit res \<times> wl1271" where
  "wl18xx_set_clk env wl =
     and_then (wlcore_set_partition env wl (ptable (boot wl) PART_TOP_PRCM_ELP_SOC)) (\<lambda>_ wl1.
     and_then (wl18xx_top_reg_read env wl1 PRIMARY_CLK_DETECT) (\<lambda>clk_freq wl2.
       if NUM_CLOCK_CONFIGS \<le> unat clk_freq then (Inl EFAULT, emit C_oops wl2)
       else let c = wl18xx_clk_table ! unat clk_freq in
         and_then (wl18xx_top_reg_write env wl2 0xA02362 (ucast (clk_n c))) (\<lambda>_ wl3.
         and_then (wl18xx_top_reg_write env wl3 0xA02360 (ucast (clk_m c))) (\<lambda>_ wl4.
           write_factors env c wl4))))"

definition wl18xx_boot_soft_reset :: "wl_env \<Rightarrow> wl1271 \<Rightarrow> unit res \<times> wl1271" where
  "wl18xx_boot_soft_reset env wl =
     and_then (wlcore_write32 env wl (WL18XX_REGISTERS_BASE + 0x1543C) 0) (\<lambda>_ wl1.
       wlcore_write32 env wl1 (WL18XX_REGISTERS_BASE + 0x2198) 0xffff)"

definition wl18xx_pre_boot :: "wl_env \<Rightarrow> wl1271 \<Rightarrow> unit res \<times> wl1271" where
  "wl18xx_pre_boot env wl =
     and_then (wl18xx_set_clk env wl) (\<lambda>_ wl1.
     and_then (wlcore_write32 env wl1 (WL18XX_REGISTERS_BASE + 0x7100) WELP_ARM_COMMAND_VAL) (\<lambda>_ wl2.
     and_then (wlcore_set_partition env (emit C_delay wl2) (ptable (boot wl2) PART_BOOT)) (\<lambda>_ wl3.
     and_then (wlcore_write_reg env wl3 REG_INTERRUPT_MASK WL1271_ACX_INTR_ALL) (\<lambda>_ wl4.
       wl18xx_boot_soft_reset env wl4))))"

definition wl18xx_pre_upload :: "wl_env \<Rightarrow> wl1271 \<Rightarrow> unit res \<times> wl1271" where
  "wl18xx_pre_upload env wl =
     and_then (wlcore_set_partition env wl (ptable (boot wl) PART_BOOT)) (\<lambda>_ wl1.
     and_then (wlcore_write32 env wl1 (WL18XX_REGISTERS_BASE + 0x154FC) (of_nat (WL18XX_REGISTERS_BASE + 0x154FC))) (\<lambda>_ wl2.
     and_then (wlcore_read_reg env wl2 REG_CHIP_ID_B) (\<lambda>_ wl3.
     and_then (wlcore_read32 env wl3 (WL18XX_REGISTERS_BASE + 0x154F4)) (\<lambda>_ wl4. (Inr (), wl4)))))"

definition wl18xx_set_mac_and_phy :: "wl_env \<Rightarrow> wl1271 \<Rightarrow> unit res \<times> wl1271" where
  "wl18xx_set_mac_and_phy env wl =
     and_then (kzalloc env (length (phy_params (boot wl))) wl) (\<lambda>_ wl1.
     and_then (wlcore_set_partition env wl1 (ptable (boot wl1) PART_PHY_INIT)) (\<lambda>_ wl2.
       wlcore_write env wl2 WL18XX_PHY_INIT_MEM_ADDR (phy_params (boot wl2)) False))"

definition wl18xx_enable_interrupts :: "wl_env \<Rightarrow> wl1271 \<Rightarrow> unit res \<times> wl1271" where
  "wl18xx_enable_interrupts env wl =
     and_then (wlcore_write_reg env wl REG_INTERRUPT_MASK 0x27F) (\<lambda>_ wl1.
       or_disable (wlcore_write_reg env (wlcore_enable_interrupts wl1) REG_INTERRUPT_MASK
                     (WL1271_ACX_INTR_ALL AND NOT 0x26D)))"

definition wl18xx_boot :: "wlcore_ops \<Rightarrow> wl_env \<Rightarrow> wl1271 \<Rightarrow> unit res \<times> wl1271" where
  "wl18xx_boot ops env wl =
     and_then (wl18xx_pre_boot env wl) (\<lambda>_ wl1.
     and_then (wl18xx_pre_upload env wl1) (\<lambda>_ wl2.
     and_then (wlcore_boot_upload_firmware env wl2) (\<lambda>_ wl3.
     and_then (wl18xx_set_mac_and_phy env wl3) (\<lambda>_ wl4.
     and_then (wlcore_boot_run_firmware ops env wl4) (\<lambda>_ wl5.
       wl18xx_enable_interrupts env wl5)))))"

section \<open>The fuses\<close>

definition wl18xx_get_pg_ver :: "wl_env \<Rightarrow> wl1271 \<Rightarrow> u8 res \<times> wl1271" where
  "wl18xx_get_pg_ver env wl =
     and_then (wlcore_set_partition env wl (ptable (boot wl) PART_TOP_PRCM_ELP_SOC)) (\<lambda>_ wl1.
     and_then (wlcore_read32 env wl1 0xA0260C) (\<lambda>fuse wl2.
     and_then (wlcore_set_partition env wl2 (ptable (boot wl2) PART_BOOT)) (\<lambda>_ wl3.
       (Inr (ucast (drop_bit 4 (fuse AND 0x70))), wl3))))"

definition wl18xx_get_mac :: "wl_env \<Rightarrow> wl1271 \<Rightarrow> unit res \<times> wl1271" where
  "wl18xx_get_mac env wl =
     and_then (wlcore_set_partition env wl (ptable (boot wl) PART_TOP_PRCM_ELP_SOC)) (\<lambda>_ wl1.
     and_then (wlcore_read32 env wl1 0xA02602) (\<lambda>mac1 wl2.
     and_then (wlcore_read32 env wl2 0xA02606) (\<lambda>mac2 wl3.
       let wl4 = set_fuse mac1 mac2 wl3 in wlcore_set_partition env wl4 (ptable (boot wl4) PART_DOWN))))"

end
