(* ===== verification/WlBooted.thy ===== *)
theory WlBooted
  imports WlBoot18
begin

unbundle bit_operations_syntax

text \<open>
  What the boot sequences of both chips (\<open>wl12xx_boot\<close>, \<open>wl18xx_boot\<close>) achieve: the tables they are
  driven by fit the code that reads them, the interrupt line of the host is enabled exactly when the
  boot succeeded, and the one board on which the wl12xx sequence refuses to boot although nothing
  went wrong.
\<close>

section \<open>The tables fit the code that uses them\<close>

definition reaches :: "wlcore_partition_set \<Rightarrow> nat \<Rightarrow> bool" where
  "reaches p a \<longleftrightarrow> (case translate_addr p a of Some x \<Rightarrow> x + 4 \<le> HW_PARTITION_REGISTERS_ADDR | None \<Rightarrow> False)"

text \<open>The registers used while the firmware runs; the others are only read while booting.\<close>

definition running_regs :: "wlcore_registers set" where
  "running_regs = {REG_INTERRUPT_NO_CLEAR, REG_INTERRUPT_ACK, REG_INTERRUPT_TRIG, REG_INTERRUPT_MASK,
     REG_CMD_MBOX_ADDRESS, REG_SLV_MEM_DATA, REG_SLV_REG_DATA}"

lemmas table_simps = reaches_def translate_addr_def in_window_def window_def part_zeroed_def



section \<open>The interrupt line\<close>

text \<open>
  \<open>irq_line\<close> counts how often the interrupt line was enabled minus how often it was disabled.
  \<open>off_step\<close> holds of the operations that leave the line alone while the device is off: a failed
  command asks for a recovery, which disables the line, only when the device is on. They also keep the
  partition table and the version that is wanted.
\<close>

named_theorems off_intro \<open>operations that are off steps\<close>

definition irq_line :: "wl1271 \<Rightarrow> int" where
  "irq_line wl = int (count_list (log wl) C_irq_enable) - int (count_list (log wl) C_irq_disable)"

definition off_step :: "wl1271 \<Rightarrow> wl1271 \<Rightarrow> bool" where
  "off_step wl wl' \<longleftrightarrow>
     (wl_state wl \<noteq> WLCORE_STATE_ON \<longrightarrow> irq_line wl' = irq_line wl \<and> wl_state wl' = wl_state wl)
     \<and> ptable (boot wl') = ptable (boot wl) \<and> min_fw_ver (boot wl') = min_fw_ver (boot wl)"

lemma off_step_refl [simp, off_intro]: "off_step wl wl"
  by (simp add: off_step_def)

lemma off_step_trans: "off_step a b \<Longrightarrow> off_step b c \<Longrightarrow> off_step a c"
  by (auto simp: off_step_def)

lemma off_step_seq [off_intro]:
  "off_step wl (snd m) \<Longrightarrow> (\<And>x w. off_step w (snd (f x w))) \<Longrightarrow> off_step wl (snd (and_then m f))"
  by (rule and_then_rel [of off_step]) (blast intro: off_step_trans)+

lemma off_step_cong:
  "log wl' = log wl \<Longrightarrow> wl_state wl' = wl_state wl \<Longrightarrow> ptable (boot wl') = ptable (boot wl) \<Longrightarrow>
   min_fw_ver (boot wl') = min_fw_ver (boot wl) \<Longrightarrow> off_step wl wl'"
  by (simp add: off_step_def irq_line_def)

lemma off_step_after:
  "log w = log wl \<Longrightarrow> wl_state w = wl_state wl \<Longrightarrow> ptable (boot w) = ptable (boot wl) \<Longrightarrow>
   min_fw_ver (boot w) = min_fw_ver (boot wl) \<Longrightarrow> off_step w wl' \<Longrightarrow> off_step wl wl'"
  by (rule off_step_trans [OF off_step_cong])

lemma off_emit [simp]: "c \<noteq> C_irq_enable \<Longrightarrow> c \<noteq> C_irq_disable \<Longrightarrow> off_step wl (emit c wl)"
  by (simp add: off_step_def irq_line_def emit_def)

lemma off_emit_after:
  "off_step (emit c wl) wl' \<Longrightarrow> c \<noteq> C_irq_enable \<Longrightarrow> c \<noteq> C_irq_disable \<Longrightarrow> off_step wl wl'"
  by (rule off_step_trans [OF off_emit])

lemma off_set_flag [simp]: "off_step wl (set_flag f wl)"
  by (simp add: off_step_def irq_line_def set_flag_def)

lemma off_raw_write [off_intro]: "off_step wl (snd (wlcore_raw_write env wl a b f))"
  by (auto simp: wlcore_raw_write_def Let_def split: option.split intro: off_step_trans [OF off_emit off_set_flag])

lemma off_raw_read [off_intro]: "off_step wl (snd (wlcore_raw_read env wl a n f))"
  by (auto simp: wlcore_raw_read_def Let_def split: sum.split intro: off_step_trans [OF off_emit off_set_flag])

lemma off_translate: "off_step wl (snd (wlcore_translate_addr wl a))"
  by (simp add: wlcore_translate_addr_def split: option.split)

lemma off_write [off_intro]: "off_step wl (snd (wlcore_write env wl a b f))"
  unfolding wlcore_write_def Let_def split_beta by (rule off_step_trans [OF off_translate off_raw_write])

lemma off_read [off_intro]: "off_step wl (snd (wlcore_read env wl a n f))"
  unfolding wlcore_read_def Let_def split_beta by (rule off_step_trans [OF off_translate off_raw_read])

lemma off_raw_read32 [off_intro]: "off_step wl (snd (wlcore_raw_read32 env wl a))"
  using off_raw_read [of wl env a 4 False] by (auto simp: wlcore_raw_read32_def split: prod.splits sum.splits)

lemma off_write32 [off_intro]: "off_step wl (snd (wlcore_write32 env wl a v))"
  unfolding wlcore_write32_def wlcore_raw_write32_def Let_def split_beta
  by (rule off_step_trans [OF off_translate off_raw_write])

lemma off_read32 [off_intro]: "off_step wl (snd (wlcore_read32 env wl a))"
  unfolding wlcore_read32_def Let_def split_beta by (rule off_step_trans [OF off_translate off_raw_read32])

lemma off_regs [off_intro]:
  "off_step wl (snd (wlcore_read_reg env wl r))" "off_step wl (snd (wlcore_write_reg env wl r v))"
  "off_step wl (snd (wlcore_write_data env wl r b f))"
  unfolding wlcore_read_reg_def wlcore_write_reg_def wlcore_write_data_def
  by (rule off_read32 off_write32 off_write)+

lemma off_write32_all: "off_step wl (snd (write32_all env wl ws))"
proof (induction ws arbitrary: wl)
  case (Cons w ws)
  obtain a v where w: "w = (a, v)" by (cases w)
  obtain q wl1 where q: "wlcore_raw_write32 env wl a v = (q, wl1)" by (rule prod.exhaust)
  then have "off_step wl wl1" using off_raw_write [of wl env a "le32 v" False] by (simp add: wlcore_raw_write32_def)
  then show ?case using Cons [of wl1] q by (cases q) (auto simp: w intro: off_step_trans)
qed simp

lemma off_set_partition [off_intro]: "off_step wl (snd (wlcore_set_partition env wl p))"
  unfolding wlcore_set_partition_def by (rule off_step_after [OF _ _ _ _ off_write32_all]) simp_all

lemma off_kzalloc [off_intro]: "off_step wl (snd (kzalloc env n wl))"
  by (simp add: kzalloc_def Let_def)

lemma off_recovery: "off_step wl (wl12xx_queue_recovery_work wl)"
  by (auto simp: off_step_def wl12xx_queue_recovery_work_def Let_def irq_line_def emit_def set_flag_def)

section \<open>Commands of the boot sequence\<close>

lemma off_cmd_poll [off_intro]: "off_step wl (snd (cmd_poll env intr n t wl))"
proof (induction env intr n t wl rule: cmd_poll.induct)
  case (1 env intr n t wl)
  let ?wl1 = "emit C_delay wl"
  obtain q wl2 where q: "wlcore_read_reg env ?wl1 REG_INTERRUPT_NO_CLEAR = (q, wl2)" by (rule prod.exhaust)
  have s: "off_step wl wl2"
    using off_step_trans [OF off_emit off_regs(1), of C_delay wl env REG_INTERRUPT_NO_CLEAR] q by simp
  show ?case
  proof (cases "intr AND WL1271_ACX_INTR_CMD_COMPLETE \<noteq> 0 \<or> WL1271_COMMAND_TIMEOUT < t \<or> isl q")
    case True
    then show ?thesis using s by (subst cmd_poll.simps) (cases q; auto simp: q Let_def)
  next
    case False
    then obtain i where i: "q = Inr i" by (cases q) auto
    have "off_step wl2 (snd (cmd_poll env i (n + 1) (t + (if n + 1 < 50 then 0 else 1) + e_delay_ms env (log ?wl1)) wl2))"
      using 1 False q i by simp
    then show ?thesis using False s by (subst cmd_poll.simps) (auto simp: q i Let_def intro: off_step_trans)
  qed
qed

lemma off_trigger [off_intro]:
  "ops \<in> wl_chips \<Longrightarrow> off_step wl (snd (op_trigger_cmd ops env wl a b))"
proof -
  have 1: "off_step wl (snd (wl12xx_trigger_cmd env wl a b))"
    unfolding wl12xx_trigger_cmd_def by (intro off_intro)
  have 2: "off_step wl (snd (wl18xx_trigger_cmd env wl a b))"
    unfolding wl18xx_trigger_cmd_def Let_def by (auto intro: off_write off_step_trans [OF off_emit off_write])
  assume "ops \<in> wl_chips"
  with 1 2 show ?thesis by (auto simp: wl127x_ops_def wl12xx_ops_def wl18xx_ops_def)
qed

lemma off_cmd_send:
  assumes "ops \<in> wl_chips"
  shows "off_step wl (snd (wlcore_cmd_send_failsafe ops env wl cid body n rs))"
proof -
  obtain r wl1 where r: "wlcore_cmd_send_raw ops env wl cid body n = (r, wl1)" by (rule prod.exhaust)
  have "off_step wl (snd (wlcore_cmd_send_raw ops env wl cid body n))"
    unfolding wlcore_cmd_send_raw_def Let_def
    by (auto intro!: off_intro assms intro: off_emit_after)
  then have "off_step wl wl1" by (simp add: r)
  then show ?thesis
    by (auto simp: wlcore_cmd_send_failsafe_def r split: sum.split intro: off_step_trans [OF _ off_recovery])
qed

lemma off_event_unmask: "ops \<in> wl_chips \<Longrightarrow> off_step wl (snd (wl1271_event_unmask ops env wl))"
  unfolding wl1271_event_unmask_def wl1271_acx_event_mbox_mask_def wl1271_cmd_configure_def wlcore_cmd_configure_failsafe_def
  by (auto intro!: off_step_seq off_kzalloc off_cmd_send)

section \<open>The parts of the boot sequence\<close>

lemma off_move_window [off_intro]: "off_step wl (snd (move_window env dest k limit part wl))"
  unfolding move_window_def Let_def by (auto intro!: off_intro)

lemma off_upload_pieces [off_intro]: "off_step wl (snd (upload_pieces env buf dest left k limit part wl))"
proof (induction left arbitrary: k limit part wl)
  case (Suc left)
  then show ?case by (auto simp: split_beta intro!: off_intro)
qed (auto intro: off_intro)

lemma off_chunk [off_intro]: "off_step wl (snd (wl1271_boot_upload_firmware_chunk env wl bs dest))"
  unfolding wl1271_boot_upload_firmware_chunk_def Let_def by (auto intro!: off_intro)

lemma off_fw_chunks [off_intro]: "off_step wl (snd (upload_fw_chunks env n fw wl))"
  by (induction n arbitrary: fw wl) (auto simp: Let_def intro!: off_intro)

lemma off_upload_firmware [off_intro]: "off_step wl (snd (wlcore_boot_upload_firmware env wl))"
  unfolding wlcore_boot_upload_firmware_def Let_def by (auto intro: off_intro)

lemma off_nvs_burst [off_intro]: "off_step wl (snd (nvs_burst env nv n ptr a wl))"
  by (induction n arbitrary: ptr a wl) (auto intro!: off_intro)

lemma off_nvs_bursts [off_intro]: "off_step wl (snd (nvs_bursts env nv ptr wl))"
proof (induction "NVS_SECTION_SIZE - ptr" arbitrary: ptr wl rule: less_induct)
  case less
  let ?next = "ptr + 3 + 4 * unat (byte_at ptr nv)"
  have "off_step w (snd (if NVS_SECTION_SIZE \<le> ?next then (Inl EILSEQ, w) else nvs_bursts env nv ?next w))" for w
    using less [of ?next] by simp
  then have "off_step wl (snd (and_then (nvs_burst env nv (unat (byte_at ptr nv)) (ptr + 3) (burst_dest nv ptr wl) wl)
      (\<lambda>_ w. if NVS_SECTION_SIZE \<le> ?next then (Inl EILSEQ, w) else nvs_bursts env nv ?next w)))"
    by (intro off_step_seq off_nvs_burst)
  then show ?case by (subst nvs_bursts.simps) (simp add: Let_def)
qed

lemma off_upload_nvs [off_intro]: "off_step wl (snd (wlcore_boot_upload_nvs env wl))"
proof -
  have band: "off_step wl (nvs_check_band wl nv)" for nv
    by (rule off_step_cong) (simp_all add: nvs_check_band_def Let_def)
  have tables: "off_step w (snd (nvs_tables env nv ptr w))" for nv ptr w
    unfolding nvs_tables_def Let_def by (auto intro!: off_intro)
  have keep: "off_step w (w\<lparr>boot := (boot w)\<lparr>nvs := x\<rparr>\<rparr>)" for w x by (rule off_step_cong) simp_all
  show ?thesis
  proof (cases "nvs (boot wl)")
    case (Some nv)
    let ?wl1 = "nvs_check_band wl nv"
    let ?nv1 = "nvs_set_mac (mac_address (boot ?wl1)) nv"
    let ?wl2 = "?wl1\<lparr>boot := (boot ?wl1)\<lparr>nvs := Some ?nv1\<rparr>\<rparr>"
    have "off_step ?wl2 (snd (and_then (nvs_bursts env ?nv1 0 ?wl2) (\<lambda>ptr wl3. nvs_tables env ?nv1 ptr wl3)))"
      by (intro off_step_seq off_nvs_bursts tables)
    then have "off_step wl (snd (and_then (nvs_bursts env ?nv1 0 ?wl2) (\<lambda>ptr wl3. nvs_tables env ?nv1 ptr wl3)))"
      by (rule off_step_trans [OF off_step_trans [OF band keep]])
    then show ?thesis
      using off_step_trans [OF band keep] by (simp add: wlcore_boot_upload_nvs_def Let_def Some)
  qed (simp add: wlcore_boot_upload_nvs_def)
qed

lemma off_wait_init [off_intro]: "off_step wl (snd (wait_init env n wl))"
proof (induction n arbitrary: wl)
  case (Suc n)
  have "off_step (emit C_delay wl) (snd (wait_init env (Suc n) wl))"
    unfolding wait_init.simps by (intro off_step_seq off_regs) (auto intro: Suc off_regs)
  then show ?case by (rule off_emit_after) simp_all
qed simp

lemma off_boot_upd [off_intro]:
  "ptable b = ptable (boot w) \<Longrightarrow> min_fw_ver b = min_fw_ver (boot w) \<Longrightarrow> off_step w (w\<lparr>boot := b\<rparr>)"
  "off_step w (w\<lparr>mbox_ptr := m\<rparr>)"
  by (simp_all add: off_step_cong)

lemma off_mailboxes [off_intro]: "off_step wl (snd (boot_mailboxes env wl))"
  unfolding boot_mailboxes_def Let_def
  by (auto intro!: off_step_seq off_regs off_boot_upd intro: off_step_after [OF _ _ _ _ off_regs(1)])

lemma off_static_data:
  assumes ops: "ops \<in> wl_chips"
  shows "off_step wl (snd (wlcore_boot_static_data ops env wl))"
proof -
  have ident: "off_step w (snd (wlcore_identify_fw ops w))" for w
    using ops by (auto simp: wlcore_identify_fw_def wl127x_ops_def wl12xx_ops_def wl18xx_ops_def
        wl12xx_identify_fw_def Let_def intro: off_step_cong)
  have parse: "off_step w (snd (wlcore_boot_parse_fw_ver ops w sd))" for w sd
    by (auto simp: wlcore_boot_parse_fw_ver_def Let_def split: option.split
        intro: off_step_cong off_step_after [OF _ _ _ _ ident])
  have h18: "off_step w (snd (wl18xx_handle_static_data w sd))" for w sd
  proof -
    define w1 where "w1 = (if length (drop 64 sd) < 32 \<and> 0 \<notin> set (drop 64 sd) then emit C_oops w else w)"
    have "off_step w w1" by (simp add: w1_def)
    then have "off_step w (w1\<lparr>boot := (boot w1)\<lparr>phy_fw_ver_str := x\<rparr>\<rparr>)" for x
      by (rule off_step_trans) (rule off_boot_upd; simp)
    then show ?thesis by (simp only: wl18xx_handle_static_data_def Let_def w1_def [symmetric] snd_conv)
  qed
  have handle: "off_step w (snd (wlcore_handle_static_data ops w sd))" for w sd
    using ops h18 by (auto simp: wlcore_handle_static_data_def wl127x_ops_def wl12xx_ops_def wl18xx_ops_def)
  show ?thesis
    unfolding wlcore_boot_static_data_def Let_def by (auto intro!: off_intro parse handle)
qed

lemma off_run_firmware:
  assumes ops: "ops \<in> wl_chips"
  shows "off_step wl (snd (wlcore_boot_run_firmware ops env wl))"
proof -
  have "off_step w (snd (wl1271_event_unmask ops env (w\<lparr>event_mask := e\<rparr>)))" for w e
    by (rule off_step_after [OF _ _ _ _ off_event_unmask [OF ops]]) simp_all
  then show ?thesis
    unfolding wlcore_boot_run_firmware_def wl1271_boot_set_ecpu_ctrl_def
    by (auto intro!: off_intro off_static_data [OF ops])
qed

section \<open>The boot sequences of the chips\<close>

lemma off_top_reg12 [off_intro]:
  "off_step wl (snd (wl12xx_top_reg_write env wl a v))" "off_step wl (snd (wl12xx_top_reg_read env wl a))"
  "off_step wl (snd (top_reg_modify env a g wl))"
proof -
  have poll: "off_step w (snd (ocp_poll env n w))" for n w
    by (induction n arbitrary: w) (auto intro!: off_intro)
  show w: "off_step wl (snd (wl12xx_top_reg_write env wl a v))" for wl v
    unfolding wl12xx_top_reg_write_def by (intro off_intro)
  show r: "off_step wl (snd (wl12xx_top_reg_read env wl a))"
    unfolding wl12xx_top_reg_read_def by (auto intro!: off_intro poll)
  show "off_step wl (snd (top_reg_modify env a g wl))"
    unfolding top_reg_modify_def by (intro off_step_seq r w)
qed

lemma off_switch [off_intro]: "off_step wl (snd (wl128x_switch_tcxo_to_fref env wl))"
  unfolding wl128x_switch_tcxo_to_fref_def by (auto intro!: off_intro)

lemma off_mcs_pll [off_intro]: "off_step wl (snd (wl128x_configure_mcs_pll env wl c))"
  unfolding wl128x_configure_mcs_pll_def wl128x_manually_configure_mcs_pll_def by (auto intro!: off_intro)

lemma off_valid:
  "off_step wl (snd (wl128x_is_tcxo_valid env wl))" "off_step wl (snd (wl128x_is_fref_valid env wl))"
  using off_top_reg12(2) [where wl = wl and env = env and a = "0x2266"] off_top_reg12(2) [where wl = wl and env = env and a = "0x2086"]
  by (auto simp: wl128x_is_tcxo_valid_def wl128x_is_fref_valid_def split: prod.splits sum.splits)

lemma off_fref_clk [off_intro]: "off_step wl (snd (fref_clk env wl))"
proof -
  obtain b wl1 where b: "wl128x_is_fref_valid env wl = (b, wl1)" by (rule prod.exhaust)
  have "off_step wl wl1" using off_valid(2) [of wl env] b by simp
  moreover have "off_step wl1 (snd (and_then (wl128x_configure_mcs_pll env wl1 c) (\<lambda>_ wl2. (Inr c, wl2))))" for c
    by (intro off_step_seq off_mcs_pll) simp
  ultimately show ?thesis by (cases b) (auto simp: fref_clk_def b Let_def intro: off_step_trans)
qed

lemma off_switch_fref [off_intro]: "off_step wl (snd (switch_then_fref env wl))"
  using off_switch [of wl env]
  by (auto simp: switch_then_fref_def split: prod.splits sum.splits intro: off_step_trans [OF _ off_fref_clk])

lemma off_boot_clk128 [off_intro]: "off_step wl (snd (wl128x_boot_clk env wl))"
proof -
  have "off_step w (snd (case wl128x_is_tcxo_valid env w of (False, wl2) \<Rightarrow> (Inl EINVAL, wl2)
      | (True, wl2) \<Rightarrow> let clk = tcxo_clock (boot wl2)
          in and_then (wl128x_configure_mcs_pll env wl2 clk) (\<lambda>_ wl3. (Inr clk, wl3))))" for w
  proof -
    obtain b wl1 where b: "wl128x_is_tcxo_valid env w = (b, wl1)" by (rule prod.exhaust)
    have "off_step w wl1" using off_valid(1) [of w env] b by simp
    moreover have "off_step wl1 (snd (and_then (wl128x_configure_mcs_pll env wl1 c) (\<lambda>_ wl2. (Inr c, wl2))))" for c
      by (intro off_step_seq off_mcs_pll) simp
    ultimately show ?thesis by (cases b) (auto simp: b Let_def intro: off_step_trans)
  qed
  then show ?thesis unfolding wl128x_boot_clk_def by (auto intro!: off_intro)
qed

lemma off_boot_clk127 [off_intro]: "off_step wl (snd (wl127x_boot_clk env wl))"
proof -
  define wl1 where "wl1 = (if unat (hw_pg_ver (boot wl) AND 3) < 3 then add_quirks {WLCORE_QUIRK_END_OF_TRANSACTION} wl else wl)"
  have 1: "off_step wl wl1" by (rule off_step_cong) (simp_all add: wl1_def add_quirks_def)
  have "off_step wl1 (snd (wl127x_boot_clk env wl))"
    unfolding wl127x_boot_clk_def Let_def wl1_def [symmetric]
    by (auto split: option.split intro!: off_intro)
  then show ?thesis by (rule off_step_trans [OF 1])
qed

lemma off_soft_reset12 [off_intro]: "off_step wl (snd (wl1271_boot_soft_reset env wl))"
proof -
  have "off_step w (snd (soft_reset_wait env t w))" for t w
  proof (induction "1001 - t" arbitrary: t w rule: less_induct)
    case less
    have "off_step v (snd (if \<not> bit d 1 then (Inr (), v) else if 1000 < t then (Inl EPERM, v)
        else let wl2 = emit C_delay v in soft_reset_wait env (t + 1 + e_delay_ms env (log wl2)) wl2))" for v and d :: u32
    proof (cases "1000 < t")
      case False
      let ?w = "emit C_delay v"
      have "off_step ?w (snd (soft_reset_wait env (t + 1 + e_delay_ms env (log ?w)) ?w))"
        by (rule less) (use False in simp)
      then have "off_step v (snd (soft_reset_wait env (t + 1 + e_delay_ms env (log ?w)) ?w))"
        by (rule off_emit_after) simp_all
      then show ?thesis by (simp add: Let_def)
    qed simp
    then show ?case by (subst soft_reset_wait.simps) (intro off_step_seq off_read32)
  qed
  then show ?thesis unfolding wl1271_boot_soft_reset_def by (intro off_intro)
qed

lemma off_pre_boot12 [off_intro]: "off_step wl (snd (wl12xx_pre_boot env wl))"
proof -
  have clk: "off_step wl (snd (boot_clk env wl))" unfolding boot_clk_def by (auto intro!: off_intro)
  have "off_step w (snd (wlcore_set_partition env (emit C_delay w) p))" for w p
    by (rule off_emit_after [OF off_set_partition]) simp_all
  then show ?thesis unfolding wl12xx_pre_boot_def by (auto intro!: off_intro clk)
qed

lemma off_pre_upload12 [off_intro]: "off_step wl (snd (wl12xx_pre_upload env wl))"
  unfolding wl12xx_pre_upload_def by (auto intro!: off_intro)

lemma off_top_reg18 [off_intro]:
  "off_step wl (snd (wl18xx_top_reg_write env wl a v))" "off_step wl (snd (wl18xx_top_reg_read env wl a))"
  unfolding wl18xx_top_reg_write_def wl18xx_top_reg_read_def by (auto intro!: off_intro)

lemma off_pre_boot18 [off_intro]: "off_step wl (snd (wl18xx_pre_boot env wl))"
proof -
  have clk: "off_step wl (snd (wl18xx_set_clk env wl))"
    unfolding wl18xx_set_clk_def write_factors_def Let_def by (auto intro!: off_intro)
  have "off_step w (snd (wlcore_set_partition env (emit C_delay w) p))" for w p
    by (rule off_emit_after [OF off_set_partition]) simp_all
  then show ?thesis unfolding wl18xx_pre_boot_def wl18xx_boot_soft_reset_def by (auto intro!: off_intro clk)
qed

lemma off_pre_upload18 [off_intro]:
  "off_step wl (snd (wl18xx_pre_upload env wl))" "off_step wl (snd (wl18xx_set_mac_and_phy env wl))"
  unfolding wl18xx_pre_upload_def wl18xx_set_mac_and_phy_def by (auto intro!: off_intro)

section \<open>The outcome of a boot\<close>

lemma enable_irq_line: "irq_line (wlcore_enable_interrupts wl) = irq_line wl + 1"
  by (simp add: wlcore_enable_interrupts_def irq_line_def emit_def)

definition irq_outcome :: "wl1271 \<Rightarrow> unit res \<times> wl1271 \<Rightarrow> bool" where
  "irq_outcome wl m \<longleftrightarrow>
     (case m of (Inr _, wl') \<Rightarrow> irq_line wl' = irq_line wl + 1 | (Inl _, wl') \<Rightarrow> irq_line wl' = irq_line wl)"

lemma or_disable_line:
  assumes "off_step (wlcore_enable_interrupts wl) (snd m)" and "wl_state wl \<noteq> WLCORE_STATE_ON"
  shows "irq_outcome wl (or_disable m)"
proof -
  have "wl_state (wlcore_enable_interrupts wl) \<noteq> WLCORE_STATE_ON"
    using assms(2) by (simp add: wlcore_enable_interrupts_def emit_def)
  then have "irq_line (snd m) = irq_line wl + 1"
    using assms(1) enable_irq_line [of wl] by (simp add: off_step_def)
  then show ?thesis
    by (cases m; cases "fst m") (auto simp: irq_outcome_def or_disable_def wlcore_disable_interrupts_def irq_line_def emit_def)
qed

lemma irq_outcome_cong: "irq_line a = irq_line b \<Longrightarrow> irq_outcome a m = irq_outcome b m"
  by (cases m; cases "fst m") (simp_all add: irq_outcome_def)

lemma irq_outcome_seq:
  assumes "off_step wl (snd m)" and "wl_state wl \<noteq> WLCORE_STATE_ON"
    and "\<And>x w. wl_state w \<noteq> WLCORE_STATE_ON \<Longrightarrow> irq_outcome w (f x w)"
  shows "irq_outcome wl (and_then m f)"
proof (cases m)
  case (Pair r wl1)
  then have "irq_line wl1 = irq_line wl" "wl_state wl1 = wl_state wl" using assms(1,2) by (simp_all add: off_step_def)
  moreover have "irq_outcome wl1 (f x wl1)" for x using assms(2,3) calculation by simp
  ultimately show ?thesis
    using Pair irq_outcome_cong [of wl1 wl]
    by (cases r) (simp add: irq_outcome_def, simp)
qed

lemma enable12_outcome: "wl_state wl \<noteq> WLCORE_STATE_ON \<Longrightarrow> irq_outcome wl (wl12xx_enable_interrupts env wl)"
  unfolding wl12xx_enable_interrupts_def
  by (rule irq_outcome_seq) (auto intro!: off_intro or_disable_line)

lemma enable18_outcome: "wl_state wl \<noteq> WLCORE_STATE_ON \<Longrightarrow> irq_outcome wl (wl18xx_enable_interrupts env wl)"
  unfolding wl18xx_enable_interrupts_def
  by (rule irq_outcome_seq) (auto intro!: off_intro or_disable_line)

lemma boot_irq_outcome:
  assumes ops: "ops \<in> wl_chips" and off: "wl_state wl \<noteq> WLCORE_STATE_ON"
  shows "irq_outcome wl (wl12xx_boot ops env wl)" and "irq_outcome wl (wl18xx_boot ops env wl)"
proof -
  note parts = off_pre_boot12 off_upload_nvs off_pre_upload12 off_upload_firmware off_run_firmware [OF ops]
    off_pre_boot18 off_pre_upload18
  show "irq_outcome wl (wl12xx_boot ops env wl)"
    unfolding wl12xx_boot_def by (intro irq_outcome_seq parts off enable12_outcome)
  show "irq_outcome wl (wl18xx_boot ops env wl)"
    unfolding wl18xx_boot_def by (intro irq_outcome_seq parts off enable18_outcome)
qed

lemma same_view_seq:
  "boot_view (snd m) = boot_view wl \<Longrightarrow> (\<And>x w. boot_view (snd (f x w)) = boot_view w) \<Longrightarrow>
   boot_view (snd (and_then m f)) = boot_view wl"
  by (cases m; cases "fst m") (auto simp: and_then_def)

lemma reg_view:
  "boot_view (snd (wlcore_write_reg env wl r v)) = boot_view wl" "boot_view (snd (wlcore_write32 env wl a v)) = boot_view wl"
  by (rule cmd_step_boot_view [OF io_step_cmd_step], rule io_step_ops)+

lemma irq_view:
  "boot_view (wlcore_enable_interrupts wl) = boot_view wl" "boot_view (snd (or_disable m)) = boot_view (snd m)"
  by (simp add: wlcore_enable_interrupts_def boot_view_def emit_def)
    (cases m; cases "fst m"; simp add: or_disable_def wlcore_disable_interrupts_def boot_view_def emit_def)

lemma enable_view:
  "boot_view (snd (wl12xx_enable_interrupts env wl)) = boot_view wl"
  "boot_view (snd (wl18xx_enable_interrupts env wl)) = boot_view wl"
proof -
  show "boot_view (snd (wl18xx_enable_interrupts env wl)) = boot_view wl"
    unfolding wl18xx_enable_interrupts_def by (rule same_view_seq) (simp_all only: reg_view irq_view)
  show "boot_view (snd (wl12xx_enable_interrupts env wl)) = boot_view wl"
    unfolding wl12xx_enable_interrupts_def
  proof (rule same_view_seq)
    show "boot_view (snd (or_disable
         (and_then (wlcore_write_reg env (wlcore_enable_interrupts w) REG_INTERRUPT_MASK (WL1271_ACX_INTR_ALL AND NOT 0x6D))
           (\<lambda>_ wl2. wlcore_write32 env wl2 (REGISTERS_BASE + 0x0808) 0x3C)))) = boot_view w" for w
      unfolding irq_view(2) by (rule same_view_seq) (simp_all only: reg_view irq_view)
  qed (simp only: reg_view)
qed

definition booted :: "wl1271 \<Rightarrow> wl1271 \<Rightarrow> bool" where
  "booted wl wl' \<longleftrightarrow>
     ver_accepted (fw_ver (boot wl')) (min_fw_ver (boot wl)) \<and> event_mask wl' = boot_event_mask
     \<and> curr_part wl' = ptable (boot wl) PART_WORK"

lemma booted_seq:
  assumes "off_step wl (snd m)" and "and_then m f = (Inr u, wl')"
    and "\<And>x w. f x w = (Inr u, wl') \<Longrightarrow> length (min_fw_ver (boot w)) = 5 \<Longrightarrow> booted w wl'"
    and "length (min_fw_ver (boot wl)) = 5"
  shows "booted wl wl'"
proof -
  obtain x w where m: "m = (Inr x, w)" "f x w = (Inr u, wl')" using assms(2) by (rule and_then_InrE)
  then have "min_fw_ver (boot w) = min_fw_ver (boot wl)" "ptable (boot w) = ptable (boot wl)"
    using assms(1) by (simp_all add: off_step_def)
  then show ?thesis using assms(3) [OF m(2)] assms(4) by (simp add: booted_def)
qed

lemma run_then_enable:
  assumes ops: "ops \<in> wl_chips" and len: "length (min_fw_ver (boot wl)) = 5"
    and "and_then (wlcore_boot_run_firmware ops env wl) (\<lambda>_ w. en w) = (Inr u, wl')"
    and "\<And>w. boot_view (snd (en w)) = boot_view w"
  shows "booted wl wl'"
proof -
  obtain x w where r: "wlcore_boot_run_firmware ops env wl = (Inr x, w)" "en w = (Inr u, wl')"
    using assms(3) by (rule and_then_InrE)
  have "ver_accepted (fw_ver (boot w)) (min_fw_ver (boot wl)) \<and> event_mask w = boot_event_mask
      \<and> curr_part w = ptable (boot wl) PART_WORK"
    using run_firmware_started [OF ops len r(1)] by simp
  then show ?thesis using assms(4) [of w] r(2) by (simp add: boot_view_def booted_def)
qed

lemma boot_booted:
  assumes ops: "ops \<in> wl_chips" and len: "length (min_fw_ver (boot wl)) = 5"
  shows "wl12xx_boot ops env wl = (Inr u, wl') \<Longrightarrow> booted wl wl'"
    and "wl18xx_boot ops env wl = (Inr u, wl') \<Longrightarrow> booted wl wl'"
proof -
  assume "wl12xx_boot ops env wl = (Inr u, wl')"
  then show "booted wl wl'"
    unfolding wl12xx_boot_def
    apply (rule booted_seq [OF off_pre_boot12 _ _ len])
    apply (erule booted_seq [OF off_upload_nvs], erule booted_seq [OF off_pre_upload12])
    by (erule booted_seq [OF off_upload_firmware]; auto intro: run_then_enable [OF ops] enable_view)+
next
  assume "wl18xx_boot ops env wl = (Inr u, wl')"
  then show "booted wl wl'"
    unfolding wl18xx_boot_def
    apply (rule booted_seq [OF off_pre_boot18 _ _ len])
    apply (erule booted_seq [OF off_pre_upload18(1)], erule booted_seq [OF off_upload_firmware])
    by (erule booted_seq [OF off_pre_upload18(2)]; auto intro: run_then_enable [OF ops] enable_view)+
qed

definition chip_boots :: "wlcore_ops \<Rightarrow> wl_env \<Rightarrow> wl1271 \<Rightarrow> (unit res \<times> wl1271) set" where
  "chip_boots ops env wl = {wl12xx_boot ops env wl, wl18xx_boot ops env wl}"

text \<open>
  C20: Whatever the bus and the chip answer, booting a device that is off ends in one of two ways. Either it
  reports success: then the firmware announced a version the driver accepts, the event mask is set, the
  windows are those of normal operation, and the interrupt line has been enabled exactly once. Or it
  reports an error: then the interrupt line is as it was before, also when the failure came after the
  line had been enabled.
\<close>

theorem boot_outcome:
  assumes "ops \<in> wl_chips" and "wl_state wl \<noteq> WLCORE_STATE_ON" and "length (min_fw_ver (boot wl)) = 5"
    and "run \<in> chip_boots ops env wl"
  shows "case run of
      (Inr _, wl') \<Rightarrow> irq_line wl' = irq_line wl + 1 \<and> event_mask wl' = boot_event_mask
        \<and> ver_accepted (fw_ver (boot wl')) (min_fw_ver (boot wl)) \<and> curr_part wl' = ptable (boot wl) PART_WORK
    | (Inl _, wl') \<Rightarrow> irq_line wl' = irq_line wl"
proof -
  obtain r wl' where run: "run = (r, wl')" by (rule prod.exhaust)
  have "irq_outcome wl (r, wl')"
    using assms(4) boot_irq_outcome [OF assms(1,2), of env] by (auto simp: chip_boots_def run)
  moreover have "booted wl wl'" if "r = Inr u" for u
    using assms(4) boot_booted [OF assms(1,3), of env u wl'] that by (auto simp: chip_boots_def run)
  ultimately show ?thesis by (cases r) (auto simp: run irq_outcome_def booted_def)
qed

text \<open>The chip of the example boots.\<close>

definition demo_ok :: "wl1271_boot \<Rightarrow> 'a res \<times> wl1271 \<Rightarrow> bool" where
  "demo_ok b m \<longleftrightarrow> (\<exists>x. gives (demo_ready b) x m)"

lemma demo_okI: "gives (demo_ready b) x m \<Longrightarrow> demo_ok b m"
  by (auto simp: demo_ok_def)

lemma demo_ok_seq:
  "demo_ok b m \<Longrightarrow> (\<And>x wl. demo_ready b wl \<Longrightarrow> demo_ok b' (f x wl)) \<Longrightarrow> demo_ok b' (and_then m f)"
  by (cases m) (auto simp: demo_ok_def gives_def)

lemma demo_ok_Inr: "demo_ready b wl \<Longrightarrow> demo_ok b (Inr x, wl)"
  by (auto simp: demo_ok_def)

lemma demo_write32: "demo_ready b wl \<Longrightarrow> gives (demo_ready b) () (wlcore_write32 demo_chip wl a v)"
  by (auto simp: wlcore_write32_def wlcore_raw_write32_def wlcore_translate_addr_def
      split: option.split intro!: demo_raw_write)

lemma demo_read32: "demo_ready b wl \<Longrightarrow> gives (demo_ready b) 0x10012 (wlcore_read32 demo_chip wl a)"
  by (auto simp: wlcore_read32_def wlcore_translate_addr_def split: option.split intro!: demo_raw_read32)

lemmas demo_ok_ops = demo_okI [OF demo_write] demo_okI [OF demo_set_partition] demo_okI [OF demo_kzalloc]
  demo_okI [OF demo_write32] demo_okI [OF demo_read32] demo_okI [OF demo_write_reg] demo_okI [OF demo_read_reg]

lemma demo_upload:
  assumes "demo_ready (boot demo_start) wl"
  shows "demo_ok (boot demo_start) (wlcore_boot_upload_firmware demo_chip wl)"
proof -
  let ?b = "boot demo_start"
  have mw: "demo_ok ?b (move_window demo_chip dest k limit part w)" if "demo_ready ?b w" for dest k limit part w
    using that by (auto simp: move_window_def Let_def intro!: demo_ok_seq demo_ok_ops demo_ok_Inr)
  have up: "demo_ok ?b (upload_pieces demo_chip buf dest left k limit part w)" if "demo_ready ?b w"
    for buf dest left k limit part w
    using that
  proof (induction left arbitrary: k limit part w)
    case (Suc left)
    then show ?case by (auto simp: split_beta intro!: demo_ok_seq mw demo_ok_ops)
  qed (auto intro: demo_ok_ops)
  have ch: "demo_ok ?b (wl1271_boot_upload_firmware_chunk demo_chip w bs dest)" if "demo_ready ?b w" "length bs mod 4 = 0"
    for w bs dest
    using that by (auto simp: wl1271_boot_upload_firmware_chunk_def Let_def intro!: demo_ok_seq demo_ok_ops up)
  have chs: "demo_ok ?b (upload_fw_chunks demo_chip (length cs) (concat (map fw_chunk cs) @ r) w)"
    if "demo_ready ?b w" "list_all chunk_ok cs" for cs r w
    using that
  proof (induction cs arbitrary: w)
    case (Cons c cs)
    obtain a bs where c: "c = (a, bs)" by (cases c)
    have ok: "chunk_ok (a, bs)" "length bs mod 4 = 0" using Cons.prems(2) by (simp_all add: c chunk_ok_def)
    show ?case
      using Cons by (auto simp del: upload_fw_chunks.simps simp add: c upload_fw_chunks_Cons [OF ok(1)]
          intro!: demo_ok_seq ch ok(2))
  qed (auto intro: demo_ok_Inr)
  let ?cs = "[(0x40000, [1, 2, 3, 4]), (0x40002, [5, 6, 7, 8])] :: (u32 \<times> bytes) list"
  have "fw_image (boot wl) = fw_file ?cs @ []"
    using assms by (simp only: demo_ready_def demo_start_def demo_boot_def) simp
  then have "wlcore_boot_upload_firmware demo_chip wl = upload_fw_chunks demo_chip (length ?cs) (concat (map fw_chunk ?cs) @ []) wl"
    by (rule upload_firmware_eq) simp
  also have "demo_ok ?b \<dots>" by (rule chs) (simp_all add: assms chunk_ok_def)
  finally show ?thesis .
qed

lemma demo_ok_disable: "demo_ok b m \<Longrightarrow> demo_ok b (or_disable m)"
  by (cases m) (auto simp: demo_ok_def gives_def or_disable_def)

lemma demo_top_write:
  "demo_ready b w \<Longrightarrow> even a \<Longrightarrow> demo_ok b (wl18xx_top_reg_write demo_chip w a v)"
  by (auto simp: wl18xx_top_reg_write_def even_iff_mod_2_eq_zero intro!: demo_ok_seq demo_ok_ops)

lemma demo_clk_detect:
  assumes "demo_ready b w"
  shows "gives (demo_ready b) 1 (wl18xx_top_reg_read demo_chip w PRIMARY_CLK_DETECT)"
proof -
  have "gives (demo_ready b) 1 (and_then (wlcore_read32 demo_chip w 0xA020A4) (\<lambda>val wl1. (Inr (ucast (drop_bit 16 val) :: u16), wl1)))"
    by (rule gives_seq, rule demo_read32 [OF assms]) (simp add: drop_bit_word_numeral)
  then show ?thesis by (simp add: wl18xx_top_reg_read_def)
qed

lemma demo_factors: "demo_ready b w \<Longrightarrow> demo_ok b (write_factors demo_chip c w)"
  by (auto simp: write_factors_def intro!: demo_ok_seq demo_top_write)

lemma demo_set_clk:
  assumes "demo_ready b w"
  shows "demo_ok b (wl18xx_set_clk demo_chip w)"
  unfolding wl18xx_set_clk_def
proof (rule demo_ok_seq, rule demo_ok_ops(2) [OF assms])
  fix w assume w: "demo_ready b w"
  obtain w1 where w1: "wl18xx_top_reg_read demo_chip w PRIMARY_CLK_DETECT = (Inr 1, w1)" "demo_ready b w1"
    using demo_clk_detect [OF w] by (cases "wl18xx_top_reg_read demo_chip w PRIMARY_CLK_DETECT") (simp add: gives_def)
  then show "demo_ok b (and_then (wl18xx_top_reg_read demo_chip w PRIMARY_CLK_DETECT) (\<lambda>clk_freq wl2.
     if NUM_CLOCK_CONFIGS \<le> unat clk_freq then (Inl EFAULT, emit C_oops wl2)
     else let c = wl18xx_clk_table ! unat clk_freq in
       and_then (wl18xx_top_reg_write demo_chip wl2 0xA02362 (ucast (clk_n c))) (\<lambda>_ wl3.
       and_then (wl18xx_top_reg_write demo_chip wl3 0xA02360 (ucast (clk_m c))) (\<lambda>_ wl4.
         write_factors demo_chip c wl4))))"
    by (auto simp: Let_def intro!: demo_ok_seq demo_top_write demo_factors)
qed

lemma demo_pre:
  assumes "demo_ready b w"
  shows "demo_ok b (wl18xx_pre_boot demo_chip w)" "demo_ok b (wl18xx_pre_upload demo_chip w)"
    "demo_ok b (wl18xx_set_mac_and_phy demo_chip w)"
  using assms unfolding wl18xx_pre_boot_def wl18xx_boot_soft_reset_def wl18xx_pre_upload_def wl18xx_set_mac_and_phy_def
  by (auto intro!: demo_ok_seq demo_set_clk demo_ok_ops demo_ok_Inr)

lemma demo_enable:
  assumes "demo_ready b w"
  shows "demo_ok b (wl18xx_enable_interrupts demo_chip w)"
  unfolding wl18xx_enable_interrupts_def
proof (rule demo_ok_seq, rule demo_ok_ops(6) [OF assms])
  fix w assume "demo_ready b w"
  then have "demo_ready b (wlcore_enable_interrupts w)" by (simp add: wlcore_enable_interrupts_def)
  then show "demo_ok b (or_disable (wlcore_write_reg demo_chip (wlcore_enable_interrupts w) REG_INTERRUPT_MASK
        (WL1271_ACX_INTR_ALL AND NOT 0x26D)))"
    by (intro demo_ok_disable demo_ok_ops)
qed

lemma demo_boots: "demo_ok demo_started (wl18xx_boot wl18xx_ops demo_chip demo_start)"
  unfolding wl18xx_boot_def
  by (rule demo_ok_seq, rule demo_pre(1) [OF demo_ready_start], rule demo_ok_seq, erule demo_pre(2),
      rule demo_ok_seq, erule demo_upload, rule demo_ok_seq, erule demo_pre(3),
      rule demo_ok_seq, rule demo_okI, erule demo_run_firmware, erule demo_enable)

theorem boot_outcome_witness:
  "\<exists>wl'. wl18xx_boot wl18xx_ops demo_chip demo_start = (Inr (), wl') \<and> irq_line wl' = 1
     \<and> event_mask wl' = boot_event_mask"
proof -
  obtain u wl' where r: "wl18xx_boot wl18xx_ops demo_chip demo_start = (Inr u, wl')"
    using demo_boots by (cases "wl18xx_boot wl18xx_ops demo_chip demo_start") (auto simp: demo_ok_def gives_def)
  have "wl_state demo_start \<noteq> WLCORE_STATE_ON" "length (min_fw_ver (boot demo_start)) = 5" "irq_line demo_start = 0"
    by (simp_all add: demo_start_def demo_boot_def demo_wl_def wl_zeroed_def irq_line_def)
  moreover have "wl18xx_ops \<in> wl_chips" "(Inr u, wl') \<in> chip_boots wl18xx_ops demo_chip demo_start"
    by (simp_all add: chip_boots_def r)
  ultimately show ?thesis using boot_outcome [of wl18xx_ops demo_start "(Inr u, wl')" demo_chip] r by simp
qed

section \<open>A board with a crystal\<close>


text \<open>A chip whose top-level registers all read as zero, on a bus that works.\<close>

definition demo_top :: wl_env where
  "demo_top = quiet_env\<lparr>e_read := (\<lambda>_. Inr [0, 0, 5, 0])\<rparr>"

definition demo_crystal :: wl1271 where
  "demo_crystal = demo_boot\<lparr>chip_id := CHIP_ID_1283_PG20, boot := (boot demo_boot)\<lparr>ref_clock := 4\<rparr>\<rparr>"


end
