(* ===== verification/WlKey.thy ===== *)
theory WlKey
  imports WlChip18
begin

unbundle bit_operations_syntax

text \<open>
  Keys (wlcore/main.c, wlcore/cmd.c and the chips' \<open>set_key\<close>): from mac80211's request to the command the
  firmware gets, with the keys an access point records before it is started, and the templates that
  depend on the keys.
\<close>

section \<open>Templates\<close>

abbreviation (input) CMD_SET_TEMPLATE :: u16 where "CMD_SET_TEMPLATE \<equiv> 12"
abbreviation (input) CMD_TEMPL_QOS_NULL_DATA :: u8 where "CMD_TEMPL_QOS_NULL_DATA \<equiv> 5"
abbreviation (input) CMD_TEMPL_ARP_RSP :: u8 where "CMD_TEMPL_ARP_RSP \<equiv> 15"
abbreviation (input) WL1271_CMD_TEMPL_MAX_SIZE :: nat where "WL1271_CMD_TEMPL_MAX_SIZE \<equiv> 512"

text \<open>A null pointer for the data leaves the template zeroed.\<close>

definition wl1271_cmd_template_set ::
  "wlcore_ops \<Rightarrow> wl_env \<Rightarrow> wl1271 \<Rightarrow> nat \<Rightarrow> u8 \<Rightarrow> bytes option \<Rightarrow> nat \<Rightarrow> u8 \<Rightarrow> u32 \<Rightarrow> unit res \<times> wl1271" where
  "wl1271_cmd_template_set ops env wl rid template_id buf buf_len index rates =
     (let wl0 = (if WL1271_CMD_TEMPL_MAX_SIZE < buf_len then emit C_warn wl else wl);
          n = min buf_len WL1271_CMD_TEMPL_MAX_SIZE
      in and_then (kzalloc env 532 wl0) (\<lambda>_ wl1.
         and_then (wl1271_cmd_send ops env wl1 CMD_SET_TEMPLATE
                     ([of_nat rid, template_id] @ le16 (of_nat n) @ [index, 0, 0, 0] @ le32 rates
                      @ [cf_tmpl_short_retry_limit (conf wl1), cf_tmpl_long_retry_limit (conf wl1), 0, 0]
                      @ pad_to WL1271_CMD_TEMPL_MAX_SIZE (case buf of Some b \<Rightarrow> take n b | None \<Rightarrow> [])) 0) (\<lambda>_ wl2.
           (Inr (), wl2))))"

text \<open>
  The answer the firmware gives to ARP requests while the host sleeps. \<open>addr\<close> and \<open>bss\<close> are the
  address and the BSS configuration of mac80211's interface.
\<close>

abbreviation (input) KEY_NONE :: u8 where "KEY_NONE \<equiv> 0"
abbreviation (input) KEY_WEP :: u8 where "KEY_WEP \<equiv> 1"
abbreviation (input) KEY_TKIP :: u8 where "KEY_TKIP \<equiv> 2"
abbreviation (input) KEY_AES :: u8 where "KEY_AES \<equiv> 3"
abbreviation (input) KEY_GEM :: u8 where "KEY_GEM \<equiv> 4"

definition arp_rsp_template :: "bytes \<Rightarrow> bytes \<Rightarrow> bytes" where
  "arp_rsp_template addr ip =
     [0xAA, 0xAA, 3, 0, 0, 0, 8, 6] @ [0, 1, 8, 0, 6, 4, 0, 2]
     @ pad_to 6 addr @ pad_to 4 ip @ replicate 10 0"

definition arp_extra :: "wl1271 \<Rightarrow> u8 \<Rightarrow> nat option" where
  "arp_extra wl enc =
     (if enc = KEY_TKIP then Some (if WLCORE_QUIRK_TKIP_HEADER_SPACE \<in> wl_quirks wl then WL1271_EXTRA_SPACE_TKIP else 0)
      else if enc = KEY_AES then Some 8
      else if enc \<in> {KEY_NONE, KEY_WEP, KEY_GEM} then Some 0
      else None)"

definition arp_rsp_hdr :: "wl12xx_vif \<Rightarrow> bytes \<Rightarrow> ieee80211_bss_conf \<Rightarrow> bytes" where
  "arp_rsp_hdr vf addr bss =
     le16 (0x0108 OR (if sta_qos vf then 0x0080 else 0) OR (if encryption_type vf \<noteq> KEY_NONE then 0x4000 else 0))
     @ [0, 0] @ pad_to 6 (bc_bssid bss) @ pad_to 6 addr @ replicate 6 0xFF @ [0, 0]"

definition wl1271_cmd_build_arp_rsp ::
  "wlcore_ops \<Rightarrow> wl_env \<Rightarrow> wl1271 \<Rightarrow> vif_ptr \<Rightarrow> bytes \<Rightarrow> ieee80211_bss_conf \<Rightarrow> unit res \<times> wl1271" where
  "wl1271_cmd_build_arp_rsp ops env wl v addr bss =
     and_then (kzalloc env 70 wl) (\<lambda>_ wl1.
       let vf = vifs wl1 v
       in case arp_extra wl1 (encryption_type vf) of
            None \<Rightarrow> (Inl EINVAL, wl1)
          | Some extra \<Rightarrow>
              let frame = arp_rsp_hdr vf addr bss @ (if sta_qos vf then [0, 0] else []) @ replicate extra 0
                          @ arp_rsp_template addr (ip_addr vf)
              in wl1271_cmd_template_set ops env wl1 (role_id vf) CMD_TEMPL_ARP_RSP (Some frame)
                   (length frame) 0 (basic_rate vf))"

definition wl1271_build_qos_null_data ::
  "wlcore_ops \<Rightarrow> wl_env \<Rightarrow> wl1271 \<Rightarrow> vif_ptr \<Rightarrow> bytes \<Rightarrow> ieee80211_bss_conf \<Rightarrow> unit res \<times> wl1271" where
  "wl1271_build_qos_null_data ops env wl v addr bss =
     (let template = le16 0x01C8 @ [0, 0] @ pad_to 6 (bc_bssid bss) @ pad_to 6 addr @ pad_to 6 (bc_bssid bss)
                     @ [0, 0, 0, 0]
      in wl1271_cmd_template_set ops env wl (role_id (vifs wl v)) CMD_TEMPL_QOS_NULL_DATA (Some template)
           (length template) 0 (basic_rate (vifs wl v)))"

section \<open>Setting a key in the firmware\<close>

abbreviation (input) MAX_KEY_SIZE :: nat where "MAX_KEY_SIZE \<equiv> 32"
abbreviation (input) MAX_NUM_KEYS :: nat where "MAX_NUM_KEYS \<equiv> 14"
abbreviation (input) KEY_ADD_OR_REPLACE :: u16 where "KEY_ADD_OR_REPLACE \<equiv> 1"
abbreviation (input) KEY_REMOVE :: u16 where "KEY_REMOVE \<equiv> 2"
abbreviation (input) UNICAST_LID_TYPE :: u8 where "UNICAST_LID_TYPE \<equiv> 0"
abbreviation (input) BROADCAST_LID_TYPE :: u8 where "BROADCAST_LID_TYPE \<equiv> 1"
abbreviation (input) WEP_DEFAULT_LID_TYPE :: u8 where "WEP_DEFAULT_LID_TYPE \<equiv> 2"

text \<open>
  The key as the firmware wants it: for TKIP the two halves of the Michael key are swapped. The copy is
  not checked against the size of either side; a copy that leaves them is a \<open>C_oops\<close>.
\<close>

definition target_key :: "u8 \<Rightarrow> nat \<Rightarrow> bytes \<Rightarrow> bytes" where
  "target_key key_type key_size key =
     (if key_type = KEY_TKIP then take 16 key @ take 8 (drop 24 key) @ take 8 (drop 16 key)
      else take key_size key)"

definition key_copy_ok :: "u8 \<Rightarrow> nat \<Rightarrow> bytes \<Rightarrow> bool" where
  "key_copy_ok key_type key_size key \<longleftrightarrow>
     (if key_type = KEY_TKIP then 32 \<le> length key else key_size \<le> length key \<and> key_size \<le> MAX_KEY_SIZE)"

definition set_keys_cmd ::
  "nat \<Rightarrow> u8 \<Rightarrow> u8 \<Rightarrow> u16 \<Rightarrow> u8 \<Rightarrow> nat \<Rightarrow> bytes \<Rightarrow> u32 \<Rightarrow> u16 \<Rightarrow> bytes" where
  "set_keys_cmd hlid lid_type kid action key_type key_size key tx_seq_32 tx_seq_16 =
     [of_nat hlid, lid_type, kid, 0] @ le16 action @ [of_nat key_size, key_type]
     @ pad_to MAX_KEY_SIZE (target_key key_type key_size key)
     @ le16 tx_seq_16 @ replicate 6 0 @ le32 tx_seq_32 @ replicate 12 0"

definition send_keys ::
  "wlcore_ops \<Rightarrow> wl_env \<Rightarrow> wl1271 \<Rightarrow> nat \<Rightarrow> u8 \<Rightarrow> u8 \<Rightarrow> u16 \<Rightarrow> u8 \<Rightarrow> nat \<Rightarrow> bytes \<Rightarrow> u32 \<Rightarrow> u16
   \<Rightarrow> unit res \<times> wl1271" where
  "send_keys ops env wl hlid lid_type kid action key_type key_size key tx_seq_32 tx_seq_16 =
     and_then (kzalloc env 68 wl) (\<lambda>_ wl1.
       let wl2 = (if key_copy_ok key_type key_size key then wl1 else emit C_oops wl1)
       in and_then (wl1271_cmd_send ops env wl2 CMD_SET_KEYS
                      (set_keys_cmd hlid lid_type kid action key_type key_size key tx_seq_32 tx_seq_16) 0)
            (\<lambda>_ wl3. (Inr (), wl3)))"

definition wl1271_cmd_set_sta_key ::
  "wlcore_ops \<Rightarrow> wl_env \<Rightarrow> wl1271 \<Rightarrow> vif_ptr \<Rightarrow> u16 \<Rightarrow> u8 \<Rightarrow> u8 \<Rightarrow> nat \<Rightarrow> bytes \<Rightarrow> bytes \<Rightarrow> u32 \<Rightarrow> u16
   \<Rightarrow> unit res \<times> wl1271" where
  "wl1271_cmd_set_sta_key ops env wl v action kid key_type key_size key addr tx_seq_32 tx_seq_16 =
     (let hlid = sta_hlid (vifs wl v)
      in if hlid = WL12XX_INVALID_LINK_ID then (Inr (), wl)
         else send_keys ops env wl hlid
                (if key_type = KEY_WEP then WEP_DEFAULT_LID_TYPE
                 else if addr = replicate 6 0xFF then BROADCAST_LID_TYPE else UNICAST_LID_TYPE)
                kid action key_type key_size key tx_seq_32 tx_seq_16)"

definition wl1271_cmd_set_ap_key ::
  "wlcore_ops \<Rightarrow> wl_env \<Rightarrow> wl1271 \<Rightarrow> vif_ptr \<Rightarrow> u16 \<Rightarrow> u8 \<Rightarrow> u8 \<Rightarrow> nat \<Rightarrow> bytes \<Rightarrow> nat \<Rightarrow> u32 \<Rightarrow> u16
   \<Rightarrow> unit res \<times> wl1271" where
  "wl1271_cmd_set_ap_key ops env wl v action kid key_type key_size key hlid tx_seq_32 tx_seq_16 =
     send_keys ops env wl hlid
       (if hlid = ap_bcast_hlid (vifs wl v) then if key_type = KEY_WEP then WEP_DEFAULT_LID_TYPE else BROADCAST_LID_TYPE
        else UNICAST_LID_TYPE)
       kid action key_type key_size key tx_seq_32 tx_seq_16"

section \<open>Keys of an access point that is not started\<close>

text \<open>The slot for a new key: the first free one, unless a key with the same id is found before it.\<close>

function key_slot :: "(nat \<Rightarrow> wl1271_ap_key option) \<Rightarrow> u8 \<Rightarrow> nat \<Rightarrow> nat res" where
  "key_slot recorded kid i =
     (if MAX_NUM_KEYS \<le> i then Inl EBUSY
      else case recorded i of
             None \<Rightarrow> Inr i
           | Some k \<Rightarrow> if ak_id k = kid then Inl EINVAL else key_slot recorded kid (i + 1))"
  by pat_completeness auto

termination
  by (relation "measure (\<lambda>(recorded, kid, i). MAX_NUM_KEYS - i)") auto

declare key_slot.simps [simp del]

definition wl1271_record_ap_key ::
  "wl_env \<Rightarrow> wl1271 \<Rightarrow> vif_ptr \<Rightarrow> u8 \<Rightarrow> u8 \<Rightarrow> nat \<Rightarrow> bytes \<Rightarrow> nat \<Rightarrow> u32 \<Rightarrow> u16 \<Rightarrow> unit res \<times> wl1271" where
  "wl1271_record_ap_key env wl v kid key_type key_size key hlid tx_seq_32 tx_seq_16 =
     (if MAX_KEY_SIZE < key_size then (Inl EINVAL, wl)
      else case key_slot (recorded_keys (vifs wl v)) kid 0 of
             Inl e \<Rightarrow> (Inl e, wl)
           | Inr i \<Rightarrow>
               and_then (kzalloc env 44 wl) (\<lambda>_ wl1.
                 let wl2 = (if length key < key_size then emit C_oops wl1 else wl1);
                     k = \<lparr>ak_id = kid, ak_key_type = key_type, ak_key_size = key_size,
                          ak_key = pad_to MAX_KEY_SIZE (take key_size key), ak_hlid = hlid,
                          ak_tx_seq_32 = tx_seq_32, ak_tx_seq_16 = tx_seq_16\<rparr>
                 in (Inr (), upd_vif v (\<lambda>vf. vf\<lparr>recorded_keys := (recorded_keys vf)(i := Some k)\<rparr>) wl2)))"

definition wl1271_free_ap_keys :: "wl1271 \<Rightarrow> vif_ptr \<Rightarrow> wl1271" where
  "wl1271_free_ap_keys wl v =
     upd_vif v (\<lambda>vf. vf\<lparr>recorded_keys := (\<lambda>i. if i < MAX_NUM_KEYS then None else recorded_keys vf i)\<rparr>) wl"

text \<open>The loop over the recorded keys; the result tells whether a WEP key was among them.\<close>

function ap_install_keys ::
  "wlcore_ops \<Rightarrow> wl_env \<Rightarrow> vif_ptr \<Rightarrow> nat \<Rightarrow> bool \<Rightarrow> wl1271 \<Rightarrow> bool res \<times> wl1271" where
  "ap_install_keys ops env v i wep wl =
     (if MAX_NUM_KEYS \<le> i then (Inr wep, wl)
      else case recorded_keys (vifs wl v) i of
             None \<Rightarrow> (Inr wep, wl)
           | Some k \<Rightarrow>
               (case wl1271_cmd_set_ap_key ops env wl v KEY_ADD_OR_REPLACE (ak_id k) (ak_key_type k) (ak_key_size k)
                      (ak_key k)
                      (if ak_hlid k = WL12XX_INVALID_LINK_ID then ap_bcast_hlid (vifs wl v) else ak_hlid k)
                      (ak_tx_seq_32 k) (ak_tx_seq_16 k) of
                  (Inl e, wl1) \<Rightarrow> (Inl e, wl1)
                | (Inr _, wl1) \<Rightarrow> ap_install_keys ops env v (i + 1) (wep \<or> ak_key_type k = KEY_WEP) wl1))"
  by pat_completeness auto

termination
  by (relation "measure (\<lambda>(ops, env, v, i, wep, wl). MAX_NUM_KEYS - i)") auto

declare ap_install_keys.simps [simp del]

definition wl1271_ap_init_hwenc :: "wlcore_ops \<Rightarrow> wl_env \<Rightarrow> wl1271 \<Rightarrow> vif_ptr \<Rightarrow> unit res \<times> wl1271" where
  "wl1271_ap_init_hwenc ops env wl v =
     (case and_then (ap_install_keys ops env v 0 False wl) (\<lambda>wep_key_added wl1.
             if wep_key_added
             then wl12xx_cmd_set_default_wep_key ops env wl1 (ucast (default_key (vifs wl1 v))) (ap_bcast_hlid (vifs wl1 v))
             else (Inr (), wl1)) of
        (r, wl2) \<Rightarrow> (r, wl1271_free_ap_keys wl2 v))"

section \<open>Keys from mac80211\<close>

text \<open>
  A station is given by its link and its address. \<open>key_kind\<close> is the first switch of the core's
  operation: the key's type and the transmit sequence number to start from.
\<close>

type_synonym ieee80211_sta = "nat \<times> bytes"

datatype set_key_cmd = SET_KEY | DISABLE_KEY

definition wl1271_set_key ::
  "wlcore_ops \<Rightarrow> wl_env \<Rightarrow> wl1271 \<Rightarrow> vif_ptr \<Rightarrow> u16 \<Rightarrow> u8 \<Rightarrow> u8 \<Rightarrow> nat \<Rightarrow> bytes \<Rightarrow> u32 \<Rightarrow> u16
   \<Rightarrow> ieee80211_sta option \<Rightarrow> unit res \<times> wl1271" where
  "wl1271_set_key ops env wl v action kid key_type key_size key tx_seq_32 tx_seq_16 sta =
     (let vf = vifs wl v
      in if vif_bss_type vf = BSS_TYPE_AP_BSS then
           let hlid = (case sta of Some (h, _) \<Rightarrow> h | None \<Rightarrow> ap_bcast_hlid vf)
           in if WLVIF_FLAG_AP_STARTED \<notin> vif_flags vf
              then if action \<noteq> KEY_ADD_OR_REPLACE then (Inr (), wl)
                   else wl1271_record_ap_key env wl v kid key_type key_size key hlid tx_seq_32 tx_seq_16
              else wl1271_cmd_set_ap_key ops env wl v action kid key_type key_size key hlid tx_seq_32 tx_seq_16
         else
           let addr = (case sta of Some (_, a) \<Rightarrow> a | None \<Rightarrow> replicate 6 0xFF)
           in if addr = replicate 6 0 then (Inl EOPNOTSUPP, wl)
              else if action = KEY_REMOVE \<and> addr \<noteq> replicate 6 0xFF then (Inr (), wl)
              else if action = KEY_REMOVE \<and> sta_hlid vf = WL12XX_INVALID_LINK_ID then (Inr (), wl)
              else wl1271_cmd_set_sta_key ops env wl v action kid key_type key_size key addr tx_seq_32 tx_seq_16)"

definition key_type_of :: "u32 \<Rightarrow> u8 option" where
  "key_type_of c =
     (if c = WLAN_CIPHER_SUITE_WEP40 \<or> c = WLAN_CIPHER_SUITE_WEP104 then Some KEY_WEP
      else if c = WLAN_CIPHER_SUITE_TKIP then Some KEY_TKIP
      else if c = WLAN_CIPHER_SUITE_CCMP then Some KEY_AES
      else if c = WL1271_CIPHER_SUITE_GEM then Some KEY_GEM
      else None)"

text \<open>What the switch leaves in mac80211's key.\<close>

definition key_conf_after :: "key_conf \<Rightarrow> key_conf" where
  "key_conf_after k =
     (if cipher k \<in> {WLAN_CIPHER_SUITE_WEP40, WLAN_CIPHER_SUITE_WEP104, WLAN_CIPHER_SUITE_TKIP}
      then k\<lparr>hw_key_idx := keyidx k\<rparr>
      else if cipher k = WLAN_CIPHER_SUITE_CCMP then k\<lparr>put_iv_space := True\<rparr> else k)"

definition wlcore_set_key ::
  "wlcore_ops \<Rightarrow> wl_env \<Rightarrow> wl1271 \<Rightarrow> set_key_cmd \<Rightarrow> vif_ptr \<Rightarrow> bytes \<Rightarrow> ieee80211_bss_conf
   \<Rightarrow> ieee80211_sta option \<Rightarrow> key_conf \<Rightarrow> unit res \<times> wl1271" where
  "wlcore_set_key ops env wl cmd v addr bss sta k =
     (if dummy_p2p (vifs wl v) then (Inr (), wl)
      else case key_type_of (cipher k) of
             None \<Rightarrow> (Inl EOPNOTSUPP, wl)
           | Some key_type \<Rightarrow>
               let seq = (if key_type = KEY_WEP then 0 else tx_security_seq (vifs wl v))
               in case cmd of
                    SET_KEY \<Rightarrow>
                      and_then (wl1271_set_key ops env wl v KEY_ADD_OR_REPLACE (keyidx k) key_type (keylen k) (key_data k)
                                  (ucast (drop_bit 16 seq)) (ucast seq) sta) (\<lambda>_ wl1.
                        if vif_bss_type (vifs wl1 v) = BSS_TYPE_STA_BSS \<and> (sta \<noteq> None \<or> key_type = KEY_WEP)
                           \<and> encryption_type (vifs wl1 v) \<noteq> key_type
                        then wl1271_cmd_build_arp_rsp ops env
                               (upd_vif v (\<lambda>vf. vf\<lparr>encryption_type := key_type\<rparr>) wl1) v addr bss
                        else (Inr (), wl1))
                  | DISABLE_KEY \<Rightarrow>
                      wl1271_set_key ops env wl v KEY_REMOVE (keyidx k) key_type (keylen k) (key_data k) 0 0 sta)"

text \<open>
  The chips' operation. wl18xx switches the spare blocks of the firmware when it thinks the first key that
  needs them comes or the last one goes.
\<close>

definition wl12xx_set_key ::
  "wlcore_ops \<Rightarrow> wl_env \<Rightarrow> wl1271 \<Rightarrow> set_key_cmd \<Rightarrow> vif_ptr \<Rightarrow> bytes \<Rightarrow> ieee80211_bss_conf
   \<Rightarrow> ieee80211_sta option \<Rightarrow> key_conf \<Rightarrow> unit res \<times> wl1271" where
  "wl12xx_set_key ops env wl cmd v addr bss sta k = wlcore_set_key ops env wl cmd v addr bss sta k"

definition needs_spare :: "key_conf \<Rightarrow> bool" where
  "needs_spare k \<longleftrightarrow> cipher k = WL1271_CIPHER_SUITE_GEM \<or> cipher k = WLAN_CIPHER_SUITE_TKIP"

definition wl18xx_set_key ::
  "wlcore_ops \<Rightarrow> wl_env \<Rightarrow> wl1271 \<Rightarrow> set_key_cmd \<Rightarrow> vif_ptr \<Rightarrow> bytes \<Rightarrow> ieee80211_bss_conf
   \<Rightarrow> ieee80211_sta option \<Rightarrow> key_conf \<Rightarrow> unit res \<times> wl1271" where
  "wl18xx_set_key ops env wl cmd v addr bss sta k =
     (let n = extra_spare_vif_count (priv18 wl);
          change_spare = (needs_spare k \<and> (n = 0 \<and> cmd = SET_KEY \<or> n = 1 \<and> cmd = DISABLE_KEY))
      in if \<not> change_spare then wlcore_set_key ops env wl cmd v addr bss sta k
         else and_then (wlcore_set_key ops env wl cmd v addr bss sta k) (\<lambda>_ wl1.
              and_then (wl18xx_set_host_cfg_bitmap ops env wl1
                          (if cmd = SET_KEY then WL18XX_TX_HW_EXTRA_BLOCK_SPARE else WL18XX_TX_HW_BLOCK_SPARE)) (\<lambda>_ wl2.
                (Inr (), wl2\<lparr>priv18 := (priv18 wl2)\<lparr>extra_spare_vif_count :=
                   extra_spare_vif_count (priv18 wl2) + (if cmd = SET_KEY then 1 else - 1)\<rparr>\<rparr>))))"

text \<open>
  mac80211's entry point: \<open>set_key\<close> is the chip's operation with its arguments, \<open>others\<close> what other
  threads do while the flush waits. The second definition is the part under the second lock.
\<close>

definition set_key_locked ::
  "(wl_env \<Rightarrow> wl1271 \<Rightarrow> unit res \<times> wl1271) \<Rightarrow> wl_env \<Rightarrow> key_conf \<Rightarrow> wl1271 \<Rightarrow> unit res \<times> wl1271" where
  "set_key_locked set_key env k wl =
     (case (if wl_state wl \<noteq> WLCORE_STATE_ON then (Inl EAGAIN, wl)
            else case wl1271_ps_elp_wakeup env wl of
                   (Inl e, wl1) \<Rightarrow> (Inl e, wl1)
                 | (Inr _, wl1) \<Rightarrow> (case set_key env wl1 of (r, wl2) \<Rightarrow> (r, wl1271_ps_elp_sleep wl2))) of
        (r, wl3) \<Rightarrow> (r, if needs_spare k then wlcore_wake_queues wl3 WLCORE_QUEUE_STOP_REASON_SPARE_BLK else wl3))"

definition wlcore_op_set_key ::
  "(wl_env \<Rightarrow> wl1271 \<Rightarrow> unit res \<times> wl1271) \<Rightarrow> wlcore_ops \<Rightarrow> wl_env \<Rightarrow> (nat \<Rightarrow> wl1271 \<Rightarrow> wl1271) \<Rightarrow> wl1271
   \<Rightarrow> key_conf \<Rightarrow> (unit res \<times> wl1271) option" where
  "wlcore_op_set_key set_key ops env others wl k =
     (case (if needs_spare k
            then wl1271_tx_flush ops env others (wlcore_stop_queues wl WLCORE_QUEUE_STOP_REASON_SPARE_BLK)
            else Some wl) of
        None \<Rightarrow> None
      | Some wl1 \<Rightarrow> Some (set_key_locked set_key env k wl1))"

definition wl1271_op_set_default_key_idx ::
  "wlcore_ops \<Rightarrow> wl_env \<Rightarrow> wl1271 \<Rightarrow> vif_ptr \<Rightarrow> u32 \<Rightarrow> unit res \<times> wl1271" where
  "wl1271_op_set_default_key_idx ops env wl v key_idx =
     (if dummy_p2p (vifs wl v) then (Inr (), wl)
      else if wl_state wl \<noteq> WLCORE_STATE_ON then (Inl EAGAIN, wl)
      else and_then (wl1271_ps_elp_wakeup env wl) (\<lambda>_ wl1.
        let wl2 = upd_vif v (\<lambda>vf. vf\<lparr>default_key := key_idx\<rparr>) wl1
        in case (if encryption_type (vifs wl2 v) = KEY_WEP
                 then wl12xx_cmd_set_default_wep_key ops env wl2 (ucast key_idx) (sta_hlid (vifs wl2 v))
                 else (Inr (), wl2)) of
             (r, wl3) \<Rightarrow> (r, wl1271_ps_elp_sleep wl3)))"

section \<open>Keys are commands\<close>

context chip_bus
begin

lemma send_keys_step: "cmd_step wl (snd (send_keys ops env wl hlid lid kid action ty n key s32 s16))"
  unfolding send_keys_def
proof (intro cmd_step_seq cmd_step_kzalloc)
  fix w
  have "cmd_step w (emit C_oops w)" by (rule cmd_step_emit) simp
  then show "cmd_step w (snd (let wl2 = if key_copy_ok ty n key then w else emit C_oops w
       in and_then (wl1271_cmd_send ops env wl2 CMD_SET_KEYS (set_keys_cmd hlid lid kid action ty n key s32 s16) 0)
            (\<lambda>_ wl3. (Inr (), wl3))))"
    unfolding Let_def by (auto intro!: cmd_step_seq cmd_step_trans [OF _ cmd_send_step])
qed

lemma set_ap_key_step: "cmd_step wl (snd (wl1271_cmd_set_ap_key ops env wl v action kid ty n key hlid s32 s16))"
  unfolding wl1271_cmd_set_ap_key_def by (rule send_keys_step)

lemma set_sta_key_step: "cmd_step wl (snd (wl1271_cmd_set_sta_key ops env wl v action kid ty n key addr s32 s16))"
  by (simp add: wl1271_cmd_set_sta_key_def Let_def send_keys_step)

lemma template_set_step: "cmd_step wl (snd (wl1271_cmd_template_set ops env wl rid tid buf n ix rates))"
proof -
  let ?w = "if WL1271_CMD_TEMPL_MAX_SIZE < n then emit C_warn wl else wl"
  have "cmd_step wl ?w" by (simp add: cmd_step_emit)
  moreover have "cmd_step ?w (snd (wl1271_cmd_template_set ops env wl rid tid buf n ix rates))"
    unfolding wl1271_cmd_template_set_def Let_def by (intro cmd_step_seq cmd_step_kzalloc cmd_send_step) simp
  ultimately show ?thesis by (rule cmd_step_trans)
qed

lemma build_arp_rsp_step: "cmd_step wl (snd (wl1271_cmd_build_arp_rsp ops env wl v addr bss))"
  unfolding wl1271_cmd_build_arp_rsp_def
  by (intro cmd_step_seq cmd_step_kzalloc) (auto simp: Let_def split: option.split intro: template_set_step)

end

end
