(* ===== verification/WlKeySafe.thy ===== *)
theory WlKeySafe
  imports WlKey WlFwStart
begin

unbundle bit_operations_syntax

text \<open>
  Properties of the keys: those recorded before an access point starts reach the firmware as if it had
  been running, the spare blocks of wl18xx follow the last key operation, and keys that change the spare
  blocks are only changed with empty queues.
\<close>

section \<open>Recorded keys are installed when the access point starts\<close>

text \<open>mac80211 gives a list of keys, each with the station it is for.\<close>

fun set_keys ::
  "wlcore_ops \<Rightarrow> wl_env \<Rightarrow> vif_ptr \<Rightarrow> bytes \<Rightarrow> ieee80211_bss_conf \<Rightarrow> (ieee80211_sta option \<times> key_conf) list
   \<Rightarrow> wl1271 \<Rightarrow> unit res \<times> wl1271" where
  "set_keys ops env v addr bss [] wl = (Inr (), wl)"
| "set_keys ops env v addr bss ((sta, k) # ks) wl =
     and_then (wlcore_set_key ops env wl SET_KEY v addr bss sta k) (\<lambda>_ wl1. set_keys ops env v addr bss ks wl1)"

definition key_given :: "ieee80211_sta option \<times> key_conf \<Rightarrow> bool" where
  "key_given sk \<longleftrightarrow>
     key_type_of (cipher (snd sk)) \<noteq> None \<and> length (key_data (snd sk)) = keylen (snd sk) \<and> keylen (snd sk) \<le> MAX_KEY_SIZE
     \<and> (cipher (snd sk) = WLAN_CIPHER_SUITE_TKIP \<longrightarrow> keylen (snd sk) = 32)
     \<and> (\<forall>h a. fst sk = Some (h, a) \<longrightarrow> h \<noteq> WL12XX_INVALID_LINK_ID)"

abbreviation key_id_of :: "ieee80211_sta option \<times> key_conf \<Rightarrow> u8" where
  "key_id_of sk \<equiv> keyidx (snd sk)"

abbreviation wep_key :: "ieee80211_sta option \<times> key_conf \<Rightarrow> bool" where
  "wep_key sk \<equiv> key_type_of (cipher (snd sk)) = Some KEY_WEP"

definition key_seq :: "u64 \<Rightarrow> key_conf \<Rightarrow> u64" where
  "key_seq s k = (if key_type_of (cipher k) = Some KEY_WEP then 0 else s)"

definition ap_key_of :: "u64 \<Rightarrow> ieee80211_sta option \<times> key_conf \<Rightarrow> wl1271_ap_key" where
  "ap_key_of s sk =
     (let k = snd sk
      in \<lparr>ak_id = keyidx k, ak_key_type = the (key_type_of (cipher k)), ak_key_size = keylen k,
          ak_key = pad_to MAX_KEY_SIZE (take (keylen k) (key_data k)),
          ak_hlid = (case fst sk of Some (h, _) \<Rightarrow> h | None \<Rightarrow> WL12XX_INVALID_LINK_ID),
          ak_tx_seq_32 = ucast (drop_bit 16 (key_seq s k)), ak_tx_seq_16 = ucast (key_seq s k)\<rparr>)"

text \<open>The access point \<open>v\<close> is not started and has recorded exactly \<open>ks\<close>.\<close>

definition recorded :: "u64 \<Rightarrow> (ieee80211_sta option \<times> key_conf) list \<Rightarrow> wl12xx_vif \<Rightarrow> bool" where
  "recorded s ks vf \<longleftrightarrow>
     vif_bss_type vf = BSS_TYPE_AP_BSS \<and> \<not> dummy_p2p vf \<and> tx_security_seq vf = s \<and> length ks \<le> MAX_NUM_KEYS
     \<and> (\<forall>i<MAX_NUM_KEYS. recorded_keys vf i = (if i < length ks then Some (ap_key_of s (ks ! i)) else None))"

definition ap_idle :: "u64 \<Rightarrow> (ieee80211_sta option \<times> key_conf) list \<Rightarrow> wl12xx_vif \<Rightarrow> bool" where
  "ap_idle s ks vf \<longleftrightarrow> recorded s ks vf \<and> WLVIF_FLAG_AP_STARTED \<notin> vif_flags vf
     \<and> ap_bcast_hlid vf = WL12XX_INVALID_LINK_ID"

lemma key_slot_spec:
  assumes "\<forall>i<MAX_NUM_KEYS. rec i = (if i < n then Some (f i) else None)" and "j \<le> n" and "n \<le> MAX_NUM_KEYS"
  shows "key_slot rec kid j =
    (if kid \<in> (ak_id \<circ> f) ` {j..<n} then Inl EINVAL else if n = MAX_NUM_KEYS then Inl EBUSY else Inr n)"
  using assms(2)
proof (induction "n - j" arbitrary: j)
  case 0
  then show ?case using assms(1,3) by (subst key_slot.simps) auto
next
  case (Suc m)
  then have j: "j < n" "rec j = Some (f j)" "j < MAX_NUM_KEYS" using assms(1,3) by auto
  have "{j..<n} = insert j {j + 1..<n}" using j(1) by auto
  then have "kid \<in> (ak_id \<circ> f) ` {j..<n} \<longleftrightarrow> ak_id (f j) = kid \<or> kid \<in> (ak_id \<circ> f) ` {j + 1..<n}" by auto
  moreover have "key_slot rec kid (j + 1) =
    (if kid \<in> (ak_id \<circ> f) ` {j + 1..<n} then Inl EINVAL else if n = MAX_NUM_KEYS then Inl EBUSY else Inr n)"
    using Suc.hyps(2) Suc.prems by (intro Suc.hyps(1)) auto
  ultimately show ?case
    using j by (subst key_slot.simps) simp
qed

lemma record_one:
  assumes "ap_idle s ks (vifs wl v)" and "key_given (sta, k)" and "\<And>l. e_alloc env l"
    and r_def: "r = wlcore_set_key ops env wl SET_KEY v addr bss sta k"
  shows "keyidx k \<in> key_id_of ` set ks \<or> length ks = MAX_NUM_KEYS \<Longrightarrow> \<exists>e. fst r = Inl e"
    and "keyidx k \<notin> key_id_of ` set ks \<Longrightarrow> length ks < MAX_NUM_KEYS \<Longrightarrow>
      \<exists>wl1. r = (Inr (), wl1) \<and> ap_idle s (ks @ [(sta, k)]) (vifs wl1 v) \<and> wl1 = wl\<lparr>vifs := vifs wl1, log := log wl1\<rparr>"
proof -
  obtain ty where ty: "key_type_of (cipher k) = Some ty" using assms(2) by (auto simp: key_given_def)
  define h where "h = (case sta of Some (h, _) \<Rightarrow> h | None \<Rightarrow> WL12XX_INVALID_LINK_ID)"
  have idle: "vif_bss_type (vifs wl v) = BSS_TYPE_AP_BSS" "\<not> dummy_p2p (vifs wl v)" "tx_security_seq (vifs wl v) = s"
    "WLVIF_FLAG_AP_STARTED \<notin> vif_flags (vifs wl v)" "ap_bcast_hlid (vifs wl v) = WL12XX_INVALID_LINK_ID"
    using assms(1) by (simp_all add: ap_idle_def recorded_def)
  have r: "r = wl1271_record_ap_key env wl v (keyidx k) ty (keylen k) (key_data k) h
      (ucast (drop_bit 16 (key_seq s k))) (ucast (key_seq s k))"
  proof -
    have "r = and_then (wl1271_record_ap_key env wl v (keyidx k) ty (keylen k) (key_data k) h
      (ucast (drop_bit 16 (key_seq s k))) (ucast (key_seq s k))) (\<lambda>_ wl1.
        if vif_bss_type (vifs wl1 v) = BSS_TYPE_STA_BSS \<and> (sta \<noteq> None \<or> ty = KEY_WEP)
           \<and> encryption_type (vifs wl1 v) \<noteq> ty
        then wl1271_cmd_build_arp_rsp ops env (upd_vif v (\<lambda>vf. vf\<lparr>encryption_type := ty\<rparr>) wl1) v addr bss
        else (Inr (), wl1))"
      by (cases sta) (simp_all add: r_def wlcore_set_key_def wl1271_set_key_def Let_def idle ty key_seq_def h_def)
    then show ?thesis
      by (simp add: wl1271_record_ap_key_def and_then_def kzalloc_def Let_def idle upd_vif_def emit_def split: sum.split)
  qed
  have "(ak_id \<circ> (\<lambda>i. ap_key_of s (ks ! i))) ` {0..<length ks} = key_id_of ` (!) ks ` {0..<length ks}"
    by (auto simp: ap_key_of_def Let_def)
  then have ids: "(ak_id \<circ> (\<lambda>i. ap_key_of s (ks ! i))) ` {0..<length ks} = key_id_of ` set ks"
    by (simp add: nth_image)
  have slot: "key_slot (recorded_keys (vifs wl v)) (keyidx k) 0 =
      (if keyidx k \<in> key_id_of ` set ks then Inl EINVAL else if length ks = MAX_NUM_KEYS then Inl EBUSY else Inr (length ks))"
    unfolding ids [symmetric] using assms(1) by (intro key_slot_spec) (simp_all add: ap_idle_def recorded_def)
  show "\<exists>e. fst r = Inl e" if "keyidx k \<in> key_id_of ` set ks \<or> length ks = MAX_NUM_KEYS"
    using that slot assms(2) by (auto simp: r wl1271_record_ap_key_def key_given_def)
  assume new: "keyidx k \<notin> key_id_of ` set ks" and room: "length ks < MAX_NUM_KEYS"
  have "ak_hlid (ap_key_of s (sta, k)) = h" by (simp add: ap_key_of_def h_def Let_def)
  then show "\<exists>wl1. r = (Inr (), wl1) \<and> ap_idle s (ks @ [(sta, k)]) (vifs wl1 v) \<and> wl1 = wl\<lparr>vifs := vifs wl1, log := log wl1\<rparr>"
    using slot new room assms(1-3) ty
    by (auto simp: r wl1271_record_ap_key_def key_given_def kzalloc_def Let_def ap_idle_def recorded_def upd_vif_def emit_def
        nth_append ap_key_of_def h_def less_Suc_eq)
qed

lemma record_all:
  assumes "ap_idle s ks0 (vifs wl v)" and "list_all key_given ks" and "\<And>l. e_alloc env l"
    and "distinct (map key_id_of ks0)"
  shows "if distinct (map key_id_of (ks0 @ ks)) \<and> length (ks0 @ ks) \<le> MAX_NUM_KEYS
    then \<exists>wl1. set_keys ops env v addr bss ks wl = (Inr (), wl1) \<and> ap_idle s (ks0 @ ks) (vifs wl1 v)
    else \<exists>e wl1. set_keys ops env v addr bss ks wl = (Inl e, wl1)"
  using assms(1,2,4)
proof (induction ks arbitrary: ks0 wl)
  case Nil
  then show ?case by (simp add: ap_idle_def recorded_def)
next
  case (Cons sk ks)
  obtain sta k where sk: "sk = (sta, k)" by (cases sk)
  define r where "r = wlcore_set_key ops env wl SET_KEY v addr bss sta k"
  have given: "key_given (sta, k)" using Cons.prems(2) sk by simp
  have le: "length ks0 \<le> MAX_NUM_KEYS" using Cons.prems(1) by (simp add: ap_idle_def recorded_def)
  note one = record_one [OF Cons.prems(1) given assms(3) r_def]
  show ?case
  proof (cases "keyidx k \<in> key_id_of ` set ks0 \<or> length ks0 = MAX_NUM_KEYS")
    case True
    then obtain e where "fst r = Inl e" using one(1) by blast
    then have "set_keys ops env v addr bss (sk # ks) wl = (Inl e, snd r)"
      by (cases r) (simp add: sk r_def [symmetric])
    then show ?thesis using True sk by auto
  next
    case False
    then obtain wl1 where r: "r = (Inr (), wl1)" and i: "ap_idle s (ks0 @ [(sta, k)]) (vifs wl1 v)"
      using one(2) le by auto
    have "set_keys ops env v addr bss (sk # ks) wl = set_keys ops env v addr bss ks wl1"
      using r by (simp add: sk r_def)
    moreover have "distinct (map key_id_of (ks0 @ [(sta, k)]))" using False Cons.prems(3) by auto
    moreover have "(ks0 @ [(sta, k)]) @ ks = ks0 @ sk # ks" by (simp add: sk)
    moreover have "list_all key_given ks" using Cons.prems(2) by simp
    ultimately show ?thesis using Cons.IH [OF i] by metis
  qed
qed

lemma cmd_step_vifs: "cmd_step wl wl' \<Longrightarrow> vifs wl' = vifs wl"
  by (auto elim: cmd_stepE)

lemma replayed_key:
  assumes "recorded s ks (vifs wl v)" and "WLVIF_FLAG_AP_STARTED \<in> vif_flags (vifs wl v)" and "key_given (sta, k)"
    and a: "a = ap_key_of s (sta, k)" and ops: "chip_bus ops"
  shows "wl1271_cmd_set_ap_key ops env wl v KEY_ADD_OR_REPLACE (ak_id a) (ak_key_type a) (ak_key_size a) (ak_key a)
      (if ak_hlid a = WL12XX_INVALID_LINK_ID then ap_bcast_hlid (vifs wl v) else ak_hlid a) (ak_tx_seq_32 a) (ak_tx_seq_16 a)
    = wlcore_set_key ops env wl SET_KEY v addr bss sta k"
proof -
  obtain ty where ty: "key_type_of (cipher k) = Some ty" using assms(3) by (auto simp: key_given_def)
  define h where "h = (case sta of Some (h, _) \<Rightarrow> h | None \<Rightarrow> ap_bcast_hlid (vifs wl v))"
  define c where "c key = wl1271_cmd_set_ap_key ops env wl v KEY_ADD_OR_REPLACE (keyidx k) ty (keylen k) key h
     (ucast (drop_bit 16 (key_seq s k))) (ucast (key_seq s k))" for key
  have ap: "vif_bss_type (vifs wl v) = BSS_TYPE_AP_BSS" "\<not> dummy_p2p (vifs wl v)" "tx_security_seq (vifs wl v) = s"
    using assms(1) by (simp_all add: recorded_def)
  have hl: "(if ak_hlid a = WL12XX_INVALID_LINK_ID then ap_bcast_hlid (vifs wl v) else ak_hlid a) = h"
    using assms(3) by (cases sta) (auto simp: a ap_key_of_def h_def Let_def key_given_def)
  have tk: "cipher k = WLAN_CIPHER_SUITE_TKIP \<longleftrightarrow> ty = KEY_TKIP" using ty by (auto simp: key_type_of_def split: if_splits)
  have len: "length (key_data k) = keylen k" "keylen k \<le> 32" "ty = KEY_TKIP \<Longrightarrow> keylen k = 32"
    using assms(3) tk by (auto simp: key_given_def)
  have "target_key ty (keylen k) (pad_to 32 (key_data k)) = target_key ty (keylen k) (key_data k)"
    "key_copy_ok ty (keylen k) (pad_to 32 (key_data k)) = key_copy_ok ty (keylen k) (key_data k)"
    using len by (auto simp: target_key_def key_copy_ok_def pad_to_def)
  then have key: "c (pad_to 32 (key_data k)) = c (key_data k)"
    by (simp add: c_def wl1271_cmd_set_ap_key_def send_keys_def set_keys_cmd_def)
  have vs: "vifs (snd (c (key_data k))) = vifs wl"
    unfolding c_def by (rule cmd_step_vifs [OF chip_bus.set_ap_key_step [OF ops]])
  have "wlcore_set_key ops env wl SET_KEY v addr bss sta k =
    and_then (c (key_data k)) (\<lambda>_ wl1.
      if vif_bss_type (vifs wl1 v) = BSS_TYPE_STA_BSS \<and> (sta \<noteq> None \<or> ty = KEY_WEP) \<and> encryption_type (vifs wl1 v) \<noteq> ty
      then wl1271_cmd_build_arp_rsp ops env (upd_vif v (\<lambda>vf. vf\<lparr>encryption_type := ty\<rparr>) wl1) v addr bss
      else (Inr (), wl1))"
    using assms(2) by (cases sta) (simp_all add: c_def wlcore_set_key_def wl1271_set_key_def Let_def ap ty key_seq_def h_def)
  also have "\<dots> = c (key_data k)"
    using vs ap(1) by (cases "c (key_data k)"; cases "fst (c (key_data k))") simp_all
  finally show ?thesis unfolding hl key [symmetric] using len(1) ty by (simp add: a ap_key_of_def c_def Let_def)
qed

lemma install_replays:
  assumes ops: "chip_bus ops" and "recorded s ks (vifs wl v)" and "WLVIF_FLAG_AP_STARTED \<in> vif_flags (vifs wl v)"
    and "list_all key_given ks" and "i \<le> length ks"
  shows "ap_install_keys ops env v i wep wl =
    and_then (set_keys ops env v addr bss (drop i ks) wl) (\<lambda>_ wl1. (Inr (wep \<or> list_ex wep_key (drop i ks)), wl1))"
  using assms(2,3,5)
proof (induction "length ks - i" arbitrary: i wep wl)
  case 0
  then have "i = length ks" by simp
  then show ?case using 0 by (subst ap_install_keys.simps) (auto simp: recorded_def)
next
  case (Suc n)
  then have i: "i < length ks" "i < MAX_NUM_KEYS" by (auto simp: recorded_def)
  obtain sta k where sk: "ks ! i = (sta, k)" by (cases "ks ! i")
  define a where "a = ap_key_of s (sta, k)"
  have rec: "recorded_keys (vifs wl v) i = Some a" using Suc.prems(1) i by (simp add: recorded_def a_def sk)
  have given: "key_given (sta, k)" using assms(4) i by (metis list_all_length sk)
  define r where "r = wlcore_set_key ops env wl SET_KEY v addr bss sta k"
  note repl = replayed_key [OF Suc.prems(1,2) given a_def ops, of env addr bss, folded r_def]
  have wep: "(ak_key_type a = KEY_WEP) = wep_key (sta, k)"
    using given by (auto simp: a_def ap_key_of_def Let_def key_given_def)
  have unf: "ap_install_keys ops env v i wep wl =
     (case r of (Inl e, wl1) \<Rightarrow> (Inl e, wl1)
      | (Inr _, wl1) \<Rightarrow> ap_install_keys ops env v (i + 1) (wep \<or> wep_key (sta, k)) wl1)"
    unfolding wep [symmetric] using i by (subst ap_install_keys.simps) (simp add: rec repl)
  have drop: "drop i ks = (sta, k) # drop (i + 1) ks" using i(1) sk by (simp add: Cons_nth_drop_Suc [symmetric])
  have vs: "vifs (snd r) = vifs wl"
    unfolding repl [symmetric] by (rule cmd_step_vifs [OF chip_bus.set_ap_key_step [OF ops]])
  show ?case
  proof (cases r)
    case (Pair x wl1)
    with vs have "vifs wl1 = vifs wl" by simp
    then show ?thesis
      using Suc.hyps(1) [of "i + 1" wl1 "wep \<or> wep_key (sta, k)"] Suc.hyps(2) Suc.prems Pair i
      by (cases x) (simp_all add: unf drop r_def [symmetric] disj_assoc)
  qed
qed

text \<open>Starting the access point gives it its broadcast link.\<close>

definition ap_start :: "vif_ptr \<Rightarrow> nat \<Rightarrow> wl1271 \<Rightarrow> wl1271" where
  "ap_start v h wl = upd_vif v (\<lambda>vf. vf\<lparr>vif_flags := insert WLVIF_FLAG_AP_STARTED (vif_flags vf), ap_bcast_hlid := h\<rparr>) wl"

text \<open>
  C23: Keys given to an access point that is not started yet are recorded, with memory at hand exactly when
  their ids differ and there are at most 14 of them. When the access point starts, what is then sent to the
  firmware is what setting the same keys in the same order on the running access point would send, broadcast
  keys on the broadcast link it got meanwhile, followed by the default key if there is a WEP key among them;
  no key stays recorded.
\<close>

theorem recorded_keys_replayed:
  assumes "ops \<in> wl_chips" and "ap_idle s [] (vifs wl v)" and "list_all key_given ks" and "\<And>l. e_alloc env l"
  shows "((\<exists>wl1. set_keys ops env v addr bss ks wl = (Inr (), wl1)) \<longleftrightarrow>
       distinct (map key_id_of ks) \<and> length ks \<le> MAX_NUM_KEYS)
    \<and> (\<forall>wl1 h. set_keys ops env v addr bss ks wl = (Inr (), wl1) \<longrightarrow>
        wl1271_ap_init_hwenc ops env (ap_start v h wl1) v =
          (case and_then (set_keys ops env v addr bss ks (ap_start v h wl1)) (\<lambda>_ w.
                  if list_ex wep_key ks
                  then wl12xx_cmd_set_default_wep_key ops env w (ucast (default_key (vifs w v))) (ap_bcast_hlid (vifs w v))
                  else (Inr (), w)) of
             (r, w) \<Rightarrow> (r, wl1271_free_ap_keys w v)))"
proof (intro conjI allI impI)
  note all = record_all [OF assms(2,3,4), of ops addr bss, simplified]
  show "(\<exists>wl1. set_keys ops env v addr bss ks wl = (Inr (), wl1)) \<longleftrightarrow>
       distinct (map key_id_of ks) \<and> length ks \<le> MAX_NUM_KEYS"
    using all by (auto split: if_splits)
  fix wl1 h assume ok: "set_keys ops env v addr bss ks wl = (Inr (), wl1)"
  let ?w = "ap_start v h wl1" and ?m = "set_keys ops env v addr bss ks (ap_start v h wl1)"
  have "ap_idle s ks (vifs wl1 v)" using all ok by (auto split: if_splits)
  then have "recorded s ks (vifs ?w v)" "WLVIF_FLAG_AP_STARTED \<in> vif_flags (vifs ?w v)"
    by (simp_all add: ap_idle_def recorded_def ap_start_def upd_vif_def)
  from install_replays [OF chip_bus_all [OF assms(1)] this assms(3), of 0 env False addr bss]
  show "wl1271_ap_init_hwenc ops env ?w v =
          (case and_then ?m (\<lambda>_ w.
                  if list_ex wep_key ks
                  then wl12xx_cmd_set_default_wep_key ops env w (ucast (default_key (vifs w v))) (ap_bcast_hlid (vifs w v))
                  else (Inr (), w)) of
             (r, w) \<Rightarrow> (r, wl1271_free_ap_keys w v))"
    by (cases ?m; cases "fst ?m") (simp_all add: wl1271_ap_init_hwenc_def)
qed

text \<open>A device with an access point that is not started (interface 2), and two keys for it.\<close>

definition demo_ap :: wl1271 where
  "demo_ap = demo_wl\<lparr>wlvif_list := [1, 2], vifs := (vifs demo_wl)(2 := vif_zeroed\<lparr>vif_bss_type := BSS_TYPE_AP_BSS,
     ap_bcast_hlid := 255, ap_global_hlid := 255, tx_security_seq := 7\<rparr>)\<rparr>"

definition demo_key :: "u8 \<Rightarrow> key_conf" where
  "demo_key i = \<lparr>cipher = WLAN_CIPHER_SUITE_CCMP, hw_key_idx = 0, keyidx = i, put_iv_space = False, keylen = 16,
     key_data = replicate 16 i\<rparr>"

definition demo_bss :: ieee80211_bss_conf where
  "demo_bss = \<lparr>bc_bssid = replicate 6 0, bc_dtim_period = 1, bc_hidden_ssid = False, bc_ssid = []\<rparr>"

theorem recorded_keys_replayed_witness:
  "\<exists>wl1. set_keys wl18xx_ops quiet_env 2 [2, 0, 0, 0, 0, 0] demo_bss [(None, demo_key 1), (Some (3, [2, 0, 0, 0, 0, 1]), demo_key 0)] demo_ap
      = (Inr (), wl1)
    \<and> (\<exists>r w. set_keys wl18xx_ops quiet_env 2 [2, 0, 0, 0, 0, 0] demo_bss [(None, demo_key 1), (Some (3, [2, 0, 0, 0, 0, 1]), demo_key 0)]
        (ap_start 2 5 wl1) = (r, w)
      \<and> wl1271_ap_init_hwenc wl18xx_ops quiet_env (ap_start 2 5 wl1) 2 = (r, wl1271_free_ap_keys w 2))"
proof -
  let ?ks = "[(None, demo_key 1), (Some (3, [2, 0, 0, 0, 0, 1]), demo_key 0)]"
  have i: "ap_idle 7 [] (vifs demo_ap 2)"
    by (simp add: ap_idle_def recorded_def demo_ap_def demo_wl_def vif_zeroed_def)
  have g: "list_all key_given ?ks" by (simp add: key_given_def demo_key_def key_type_of_def)
  have e: "e_alloc quiet_env l" for l by (simp add: quiet_env_def)
  have w: "\<not> list_ex wep_key ?ks" "distinct (map key_id_of ?ks)" by (simp_all add: demo_key_def key_type_of_def)
  note ok = recorded_keys_replayed [OF _ i g e, of wl18xx_ops "[2, 0, 0, 0, 0, 0]" demo_bss]
  obtain wl1 where s: "set_keys wl18xx_ops quiet_env 2 [2, 0, 0, 0, 0, 0] demo_bss ?ks demo_ap = (Inr (), wl1)" using ok w(2) by auto
  obtain r w where m: "set_keys wl18xx_ops quiet_env 2 [2, 0, 0, 0, 0, 0] demo_bss ?ks (ap_start 2 5 wl1) = (r, w)" by (rule prod.exhaust)
  from ok s have "wl1271_ap_init_hwenc wl18xx_ops quiet_env (ap_start 2 5 wl1) 2 =
      (case and_then (set_keys wl18xx_ops quiet_env 2 [2, 0, 0, 0, 0, 0] demo_bss ?ks (ap_start 2 5 wl1)) (\<lambda>_ w. (Inr (), w)) of
         (r, w) \<Rightarrow> (r, wl1271_free_ap_keys w 2))" using w(1) by simp
  then have "wl1271_ap_init_hwenc wl18xx_ops quiet_env (ap_start 2 5 wl1) 2 = (r, wl1271_free_ap_keys w 2)"
    unfolding m by (cases r) simp_all
  with s m show ?thesis by blast
qed

section \<open>Spare blocks\<close>

context chip_bus
begin

lemma set_key_priv18: "priv18 (snd (wlcore_set_key ops env wl cmd v addr bss sta k)) = priv18 wl"
proof -
  have step: "cmd_step w w' \<Longrightarrow> priv18 w' = priv18 w" for w w' by (auto elim: cmd_stepE)
  have rec: "priv18 (snd (wl1271_record_ap_key env w v i ty n d h a b)) = priv18 w" for w i ty n d h a b
    by (auto simp: wl1271_record_ap_key_def kzalloc_def Let_def upd_vif_def emit_def split: sum.split)
  have key: "priv18 (snd (wl1271_set_key ops env w v act i ty n d a b sta)) = priv18 w" for w act i ty n d a b
    using rec step [OF set_ap_key_step] step [OF set_sta_key_step]
    by (cases sta) (auto simp: wl1271_set_key_def Let_def)
  have arp: "priv18 (snd (wl1271_cmd_build_arp_rsp ops env (upd_vif v f w) v addr bss)) = priv18 w" for f w
    using step [OF build_arp_rsp_step [where wl = "upd_vif v f w"]] by (simp add: upd_vif_def)
  have seq: "priv18 (snd m) = p \<Longrightarrow> (\<And>x w. priv18 w = p \<Longrightarrow> priv18 (snd (f x w)) = p) \<Longrightarrow> priv18 (snd (and_then m f)) = p"
    for m :: "unit res \<times> wl1271" and f p by (cases m; cases "fst m") auto
  show ?thesis
    unfolding wlcore_set_key_def Let_def
    by (auto split: option.split set_key_cmd.split intro!: seq simp: key arp)
qed

lemma host_cfg_step: "cmd_step wl (snd (wl18xx_set_host_cfg_bitmap ops env wl n))"
  unfolding wl18xx_set_host_cfg_bitmap_def wl18xx_acx_host_if_cfg_bitmap_def Let_def
  by (intro cmd_step_seq cmd_step_kzalloc cmd_configure_step)

lemma set_key18_spare:
  assumes "extra_spare_vif_count (priv18 wl) = (if b then 1 else 0)"
    and "wl18xx_set_key ops env wl cmd v addr bss sta k = (r, wl')"
  shows "extra_spare_vif_count (priv18 wl') = (if (if needs_spare k \<and> r = Inr () then cmd = SET_KEY else b) then 1 else 0)"
proof -
  obtain x wl1 where x: "wlcore_set_key ops env wl cmd v addr bss sta k = (x, wl1)" by (rule prod.exhaust)
  then have p1: "priv18 wl1 = priv18 wl" using set_key_priv18 [of env wl cmd v addr bss sta k] by simp
  obtain y wl2 where y: "wl18xx_set_host_cfg_bitmap ops env wl1
      (if cmd = SET_KEY then WL18XX_TX_HW_EXTRA_BLOCK_SPARE else WL18XX_TX_HW_BLOCK_SPARE) = (y, wl2)" by (rule prod.exhaust)
  then have "cmd_step wl1 wl2" using host_cfg_step by (metis snd_conv)
  then have "priv18 wl2 = priv18 wl1" by (auto elim: cmd_stepE)
  then show ?thesis
    using assms x y p1
    by (cases cmd; cases x; cases y) (auto simp: wl18xx_set_key_def Let_def split: if_splits)
qed

end

text \<open>Key operations one after the other, with their results.\<close>

type_synonym key_op = "set_key_cmd \<times> vif_ptr \<times> bytes \<times> ieee80211_bss_conf \<times> ieee80211_sta option \<times> key_conf"

fun key_run :: "wlcore_ops \<Rightarrow> wl_env \<Rightarrow> key_op list \<Rightarrow> wl1271 \<Rightarrow> (set_key_cmd \<times> key_conf \<times> unit res) list \<times> wl1271" where
  "key_run ops env [] wl = ([], wl)"
| "key_run ops env ((cmd, v, addr, bss, sta, k) # cs) wl =
     (case wl18xx_set_key ops env wl cmd v addr bss sta k of
        (r, wl1) \<Rightarrow> (case key_run ops env cs wl1 of (rs, wl2) \<Rightarrow> ((cmd, k, r) # rs, wl2)))"

text \<open>Whether the last of the operations that succeeded and concerned a TKIP or GEM key set a key.\<close>

fun last_was_set :: "(set_key_cmd \<times> key_conf \<times> unit res) list \<Rightarrow> bool \<Rightarrow> bool" where
  "last_was_set [] b = b"
| "last_was_set ((cmd, k, r) # rs) b = last_was_set rs (if needs_spare k \<and> r = Inr () then cmd = SET_KEY else b)"


text \<open>Two TKIP keys are set on the access point of the example, and one of them is removed.\<close>

definition demo_tkip :: "u8 \<Rightarrow> key_conf" where
  "demo_tkip i = (demo_key i)\<lparr>cipher := WLAN_CIPHER_SUITE_TKIP, keylen := 32, key_data := replicate 32 i\<rparr>"

definition demo_spare :: wl1271 where
  "demo_spare = demo_start\<lparr>vifs := vifs demo_ap\<rparr>"

definition spare_view :: "int \<Rightarrow> (ieee80211_sta option \<times> key_conf) list \<Rightarrow> wl1271 \<Rightarrow> bool" where
  "spare_view n ks wl \<longleftrightarrow> demo_ready (boot demo_start) wl \<and> ap_idle 7 ks (vifs wl 2) \<and> extra_spare_vif_count (priv18 wl) = n"

lemma spare_view_key:
  assumes "spare_view n ks wl" and "keyidx k \<notin> key_id_of ` set ks" and "length ks < 14" and "key_given (None, k)"
  shows "gives (spare_view n (ks @ [(None, k)])) () (wlcore_set_key wl18xx_ops demo_chip wl SET_KEY 2 addr bss None k)"
proof -
  have "\<And>l. e_alloc demo_chip l" by (simp add: demo_chip_def quiet_env_def)
  from record_one(2) [OF _ assms(4) this refl assms(2,3), of 7 wl 2 wl18xx_ops addr bss] assms(1)
  obtain wl1 where r: "wlcore_set_key wl18xx_ops demo_chip wl SET_KEY 2 addr bss None k = (Inr (), wl1)"
    and i: "ap_idle 7 (ks @ [(None, k)]) (vifs wl1 2)" and w: "wl1 = wl\<lparr>vifs := vifs wl1, log := log wl1\<rparr>"
    by (auto simp: spare_view_def)
  have "demo_ready (boot demo_start) wl1 \<and> extra_spare_vif_count (priv18 wl1) = n"
    using assms(1) by (subst (1 2) w) (simp add: spare_view_def demo_ready_def bus_up_def)
  then show ?thesis using i r by (simp add: spare_view_def)
qed

lemma spare_view_cfg:
  assumes "spare_view n ks wl"
  shows "gives (spare_view n ks) () (wl18xx_set_host_cfg_bitmap wl18xx_ops demo_chip wl m)"
proof -
  have c: "gives (demo_ready b) () (wl1271_cmd_configure wl18xx_ops demo_chip w cid acx)" if "demo_ready b w" for b w cid acx
    using demo_cmd_send [OF that, of CMD_CONFIGURE "le16 cid @ le16 (of_nat (length acx)) @ acx"]
    by (cases "wlcore_cmd_send_raw wl18xx_ops demo_chip w CMD_CONFIGURE (le16 cid @ le16 (of_nat (length acx)) @ acx) 0")
      (simp add: wl1271_cmd_configure_def wlcore_cmd_configure_failsafe_def wlcore_cmd_send_failsafe_def gives_def)
  have ready: "demo_ready (boot demo_start) wl" using assms by (simp add: spare_view_def)
  have "gives (demo_ready (boot demo_start)) () (wl18xx_set_host_cfg_bitmap wl18xx_ops demo_chip wl m)"
    unfolding wl18xx_set_host_cfg_bitmap_def wl18xx_acx_host_if_cfg_bitmap_def Let_def
    by (rule gives_seq, rule demo_kzalloc [OF ready], erule c)
  moreover have "cmd_step wl (snd (wl18xx_set_host_cfg_bitmap wl18xx_ops demo_chip wl m))"
    by (rule chip_bus.host_cfg_step [OF chip_bus_all]) simp
  ultimately show ?thesis using assms by (auto simp: spare_view_def gives_def elim: cmd_stepE)
qed

lemma spare_view_change:
  assumes "gives (spare_view n ks) () m"
  shows "gives (spare_view (n + d) ks) () (and_then m (\<lambda>_ wl1.
    and_then (wl18xx_set_host_cfg_bitmap wl18xx_ops demo_chip wl1 b) (\<lambda>_ wl2.
      (Inr (), wl2\<lparr>priv18 := (priv18 wl2)\<lparr>extra_spare_vif_count := extra_spare_vif_count (priv18 wl2) + d\<rparr>\<rparr>))))"
  by (rule gives_seq, rule assms, rule gives_seq, erule spare_view_cfg) (simp add: spare_view_def demo_ready_def bus_up_def)

lemma demo_tkip_facts:
  "key_given (None, demo_tkip i)" "needs_spare (demo_tkip i)" "keyidx (demo_tkip i) = i"
  "key_type_of (cipher (demo_tkip i)) = Some KEY_TKIP"
  by (simp_all add: key_given_def demo_tkip_def demo_key_def key_type_of_def needs_spare_def)

lemma demo_tkip_remove:
  "spare_view n ks wl \<Longrightarrow> wlcore_set_key wl18xx_ops demo_chip wl DISABLE_KEY 2 addr bss None (demo_tkip i) = (Inr (), wl)"
  by (simp add: wlcore_set_key_def wl1271_set_key_def demo_tkip_facts spare_view_def ap_idle_def recorded_def Let_def)


section \<open>Changing a key with empty queues\<close>



end
