(* ===== verification/Spec2Isabelle.thy ===== *)
theory Spec2Isabelle
  imports WlPrelude WlState WlIo WlFrame WlQueue WlOps WlCmd WlPs WlTx WlTxWork WlTxDone WlRx WlTxInv WlEvent WlIrq WlChip12 WlChip18 WlDriver WlAggr WlBoot WlFwLoad WlNvs WlFwStart WlBoot12 WlBoot18 WlBooted WlKey WlKeySafe
begin

text \<open>
  Header.
\<close>

end
